(* ===== verification/Prelude.thy ===== *)
theory Prelude
  imports
    Main
    "HOL-Library.Word"
    "HOL-Library.Multiset"
    "HOL-Library.Char_ord"
    "HOL-Library.List_Lexorder"
begin

text \<open>
  Shared vocabulary of the development.

  \<^item> Rust's fixed-width integers as words, its saturating operations, and their
    characterisation over the natural numbers;
  \<^item> the UUID-backed identifier types of \<^verbatim>\<open>blockyard-common/src/id.rs\<close>;
  \<^item> \<^verbatim>\<open>BTreeMap\<close> as a key-ordered association list, with the finite-map interface it
    implements (locale \<^verbatim>\<open>finite_map\<close>);
  \<^item> the contract of a deterministic replicated state machine (locales
    \<^verbatim>\<open>state_machine\<close> and \<^verbatim>\<open>monotone_machine\<close>), whose consequences for whole runs are
    proved once here and reused by every component that is driven by a sequence of commands.
\<close>

named_theorems word_arith \<open>characterisation of saturating word operations\<close>

section \<open>Machine integers\<close>

type_synonym u8 = "8 word"
type_synonym u32 = "32 word"
type_synonym u64 = "64 word"
type_synonym bytes = "8 word list"

type_synonym ('a, 'e) result = "'e + 'a"

definition saturating_add :: "'a::len word \<Rightarrow> 'a word \<Rightarrow> 'a word" where
  "saturating_add a b = (if a + b < a then - 1 else a + b)"

definition saturating_sub :: "'a::len word \<Rightarrow> 'a word \<Rightarrow> 'a word" where
  "saturating_sub a b = (if a < b then 0 else a - b)"

lemma unat_lt_power: "unat (w::'a::len word) < 2 ^ LENGTH('a)"
  by simp

lemma add_no_wrap_iff: "(a::'a::len word) \<le> a + b \<longleftrightarrow> unat a + unat b < 2 ^ LENGTH('a)"
  by (simp add: no_olen_add_nat)

lemma unat_saturating_add [word_arith]:
  "unat (saturating_add a (b::'a::len word)) = min (unat a + unat b) (2 ^ LENGTH('a) - 1)"
proof (cases "a \<le> a + b")
  case True
  then have lt: "unat a + unat b < 2 ^ LENGTH('a)" by (simp add: add_no_wrap_iff)
  with True show ?thesis
    by (auto simp: saturating_add_def unat_word_ariths)
next
  case False
  then have "2 ^ LENGTH('a) - 1 \<le> unat a + unat b"
    using add_no_wrap_iff[of a b] by linarith
  with False show ?thesis
    by (simp add: saturating_add_def not_le unsigned_minus_1_eq_mask mask_eq_exp_minus_1)
qed

lemma unat_saturating_sub [word_arith]:
  "unat (saturating_sub a (b::'a::len word)) = unat a - unat b"
  by (cases "a < b")
     (auto simp: saturating_sub_def word_less_nat_alt unat_sub word_le_nat_alt)

lemma le_saturating_add [simp]: "a \<le> saturating_add a b"
  by (auto simp: saturating_add_def not_less)

lemma saturating_add_mono: "a \<le> b \<Longrightarrow> saturating_add a c \<le> saturating_add b (c::'a::len word)"
  by (simp add: word_le_nat_alt unat_saturating_add)

lemma saturating_sub_le [simp]: "saturating_sub a b \<le> a"
  by (simp add: word_le_nat_alt unat_saturating_sub)

lemma less_succ_word: "c \<noteq> - 1 \<Longrightarrow> (c::'a::len word) < c + 1"
  by (metis inc_less_eq_triv_imp linorder_less_linear word_le_less_eq)

text \<open>Rust's rounding-up division, on the values of the operands.\<close>

definition div_ceil :: "nat \<Rightarrow> nat \<Rightarrow> nat" where
  "div_ceil a b = a div b + (if a mod b = 0 then 0 else 1)"

lemma div_ceil_bounds:
  assumes "0 < b"
  shows "a \<le> div_ceil a b * b" "div_ceil a b * b < a + b"
proof -
  have e: "a div b * b + a mod b = a" by simp
  have m: "a mod b < b" using assms by simp
  have c: "div_ceil a b * b = a div b * b + (if a mod b = 0 then 0 else b)"
    by (simp add: div_ceil_def add_mult_distrib)
  obtain q r where qr: "a div b * b = q" "a mod b = r" by blast
  show "a \<le> div_ceil a b * b" "div_ceil a b * b < a + b"
    using e m unfolding c qr by (auto split: if_split)
qed

lemma div_ceil_mult [simp]: "0 < b \<Longrightarrow> div_ceil (n * b) b = n"
  by (simp add: div_ceil_def)

section \<open>Identifiers\<close>

text \<open>
  Every identifier of \<^verbatim>\<open>id.rs\<close> except the epoch is a newtype over a 128-bit UUID. The
  textual form (\<^verbatim>\<open>Display\<close>) belongs to the \<^verbatim>\<open>uuid\<close> crate, so the operations that key a map
  by it take it as an argument.
\<close>

type_synonym uuid = "128 word"
type_synonym NodeId = uuid
type_synonym VolumeId = uuid
type_synonym ExtentId = uuid
type_synonym DiskId = uuid
type_synonym SessionId = uuid
type_synonym OperationId = uuid
type_synonym EpochId = u64
type_synonym LeaseVersion = u64

text \<open>A \<^verbatim>\<open>SocketAddr\<close> is only compared and stored.\<close>

type_synonym SocketAddr = string

text \<open>An injective rendering of identifiers, for the concrete instances.\<close>

definition unary_text :: "uuid \<Rightarrow> string" where
  "unary_text u = replicate (unat u) CHR ''0''"

lemma inj_unary_text: "inj unary_text"
  by (metis injI length_replicate unary_text_def word_unat_eq_iff)

text \<open>\<^verbatim>\<open>str::contains\<close>.\<close>

definition text_contains :: "string \<Rightarrow> string \<Rightarrow> bool" where
  "text_contains s pat \<longleftrightarrow> list_ex (\<lambda>i. take (length pat) (drop i s) = pat) [0..<Suc (length s)]"

section \<open>Ordered maps\<close>

type_synonym ('k, 'v) btree = "('k \<times> 'v) list"

abbreviation bt_get :: "('k, 'v) btree \<Rightarrow> 'k \<Rightarrow> 'v option" where
  "bt_get m k \<equiv> map_of m k"

fun bt_insert :: "'k::linorder \<Rightarrow> 'v \<Rightarrow> ('k, 'v) btree \<Rightarrow> ('k, 'v) btree" where
  "bt_insert k v [] = [(k, v)]"
| "bt_insert k v ((k', v') # m) =
     (if k < k' then (k, v) # (k', v') # m
      else if k = k' then (k, v) # m
      else (k', v') # bt_insert k v m)"

definition bt_remove :: "'k \<Rightarrow> ('k, 'v) btree \<Rightarrow> ('k, 'v) btree" where
  "bt_remove k m = filter (\<lambda>kv. fst kv \<noteq> k) m"

definition bt_retain :: "('k \<Rightarrow> 'v \<Rightarrow> bool) \<Rightarrow> ('k, 'v) btree \<Rightarrow> ('k, 'v) btree" where
  "bt_retain P m = filter (\<lambda>kv. P (fst kv) (snd kv)) m"

definition bt_values :: "('k, 'v) btree \<Rightarrow> 'v list" where
  "bt_values m = map snd m"

definition bt_wf :: "('k::linorder, 'v) btree \<Rightarrow> bool" where
  "bt_wf m = sorted_wrt (<) (map fst m)"

lemma bt_get_insert [simp]: "map_of (bt_insert k v m) = (map_of m)(k \<mapsto> v)"
  by (induction k v m rule: bt_insert.induct) auto

lemma bt_get_remove [simp]: "map_of (bt_remove k m) = (map_of m)(k := None)"
  by (induction m) (auto simp: bt_remove_def)

lemma set_keys_insert [simp]: "fst ` set (bt_insert k v m) = insert k (fst ` set m)"
  by (induction k v m rule: bt_insert.induct) auto

lemma bt_wf_Nil [simp]: "bt_wf []"
  by (simp add: bt_wf_def)

lemma bt_wf_Cons [simp]: "bt_wf (kv # m) \<longleftrightarrow> (\<forall>k \<in> fst ` set m. fst kv < k) \<and> bt_wf m"
  by (auto simp: bt_wf_def)

lemma bt_wf_insert [simp, intro]: "bt_wf m \<Longrightarrow> bt_wf (bt_insert k v m)"
  by (induction k v m rule: bt_insert.induct) auto

lemma bt_wf_filter: "bt_wf m \<Longrightarrow> bt_wf (filter P m)"
  by (induction m) auto

lemma bt_wf_remove [simp, intro]: "bt_wf m \<Longrightarrow> bt_wf (bt_remove k m)"
  by (simp add: bt_remove_def bt_wf_filter)

lemma bt_wf_retain [simp, intro]: "bt_wf m \<Longrightarrow> bt_wf (bt_retain P m)"
  by (simp add: bt_retain_def bt_wf_filter)

lemma bt_wf_distinct: "bt_wf m \<Longrightarrow> distinct (map fst m)"
  by (induction m) force+

lemma bt_get_iff: "bt_wf m \<Longrightarrow> map_of m k = Some v \<longleftrightarrow> (k, v) \<in> set m"
  by (simp add: bt_wf_distinct)

lemma bt_get_retain:
  "bt_wf m \<Longrightarrow>
   map_of (bt_retain P m) k = (case map_of m k of None \<Rightarrow> None | Some v \<Rightarrow> if P k v then Some v else None)"
proof (induction m)
  case (Cons kv m)
  have fresh: "map_of (bt_retain P m) (fst kv) = None" if "bt_wf (kv # m)"
    using that by (auto simp: bt_retain_def map_of_eq_None_iff)
  from Cons show ?case
    by (cases "fst kv = k") (auto simp: bt_retain_def fresh[unfolded bt_retain_def] split: option.split)
qed (simp add: bt_retain_def)

lemma bt_values_iff: "bt_wf m \<Longrightarrow> v \<in> set (bt_values m) \<longleftrightarrow> (\<exists>k. map_of m k = Some v)"
  by (force simp: bt_values_def bt_get_iff)

lemma length_bt_retain_le: "length (bt_retain P m) \<le> length m"
  by (simp add: bt_retain_def)

text \<open>The interface that clients of an ordered map rely on.\<close>

locale finite_map =
  fixes empty :: 'm
    and get :: "'m \<Rightarrow> 'k \<Rightarrow> 'v option"
    and put :: "'k \<Rightarrow> 'v \<Rightarrow> 'm \<Rightarrow> 'm"
    and del :: "'k \<Rightarrow> 'm \<Rightarrow> 'm"
    and wf :: "'m \<Rightarrow> bool"
  assumes get_empty: "get empty k = None"
    and get_put: "get (put k v m) k' = (if k' = k then Some v else get m k')"
    and get_del: "get (del k m) k' = (if k' = k then None else get m k')"
    and wf_empty: "wf empty"
    and wf_put: "wf m \<Longrightarrow> wf (put k v m)"
    and wf_del: "wf m \<Longrightarrow> wf (del k m)"
begin

lemma get_fold_del:
  "get (fold del ks m) k = (if k \<in> set ks then None else get m k)"
  by (induction ks arbitrary: m) (auto simp: get_del)

lemma wf_fold_del: "wf m \<Longrightarrow> wf (fold del ks m)"
  by (induction ks arbitrary: m) (auto simp: wf_del)

lemma get_fold_put_notin:
  "k \<notin> fst ` set kvs \<Longrightarrow> get (fold (\<lambda>(k, v). put k v) kvs m) k = get m k"
  by (induction kvs arbitrary: m) (auto simp: get_put)

lemma get_fold_put:
  "distinct (map fst kvs) \<Longrightarrow> (k, v) \<in> set kvs \<Longrightarrow>
   get (fold (\<lambda>(k, v). put k v) kvs m) k = Some v"
  by (induction kvs arbitrary: m) (auto simp: get_put get_fold_put_notin)

lemma wf_fold_put: "wf m \<Longrightarrow> wf (fold (\<lambda>(k, v). put k v) kvs m)"
  by (induction kvs arbitrary: m) (auto simp: wf_put)

end

interpretation bt: finite_map "[]" map_of bt_insert bt_remove bt_wf
  by unfold_locales auto

section \<open>Replicated state machines\<close>

text \<open>
  A command either panics (\<^const>\<open>None\<close>) or yields a response and the next state; a run applies
  a list of commands in order and collects the responses.
\<close>

fun run_steps :: "('c \<Rightarrow> 's \<Rightarrow> ('r \<times> 's) option) \<Rightarrow> 'c list \<Rightarrow> 's \<Rightarrow> ('r list \<times> 's) option" where
  "run_steps step [] s = Some ([], s)"
| "run_steps step (c # cs) s =
     (case step c s of
        None \<Rightarrow> None
      | Some (r, s') \<Rightarrow>
          (case run_steps step cs s' of
             None \<Rightarrow> None
           | Some (rs, s'') \<Rightarrow> Some (r # rs, s'')))"

lemma run_steps_append:
  "run_steps step (cs @ ds) s =
     (case run_steps step cs s of
        None \<Rightarrow> None
      | Some (rs, s') \<Rightarrow>
          (case run_steps step ds s' of
             None \<Rightarrow> None
           | Some (rs', s'') \<Rightarrow> Some (rs @ rs', s'')))"
  by (induction cs arbitrary: s) (auto split: option.splits)

locale state_machine =
  fixes step :: "'c \<Rightarrow> 's \<Rightarrow> ('r \<times> 's) option"
    and inv :: "'s \<Rightarrow> bool"
  assumes step_inv: "inv s \<Longrightarrow> \<exists>r s'. step c s = Some (r, s') \<and> inv s'"
begin

lemma run_inv:
  "inv s \<Longrightarrow> \<exists>rs s'. run_steps step cs s = Some (rs, s') \<and> inv s' \<and> length rs = length cs"
proof (induction cs arbitrary: s)
  case (Cons c cs)
  obtain r s' where "step c s = Some (r, s')" "inv s'"
    using step_inv[OF Cons.prems] by blast
  with Cons.IH[of s'] show ?case by fastforce
qed simp

end

locale monotone_machine = state_machine step inv
  for step :: "'c \<Rightarrow> 's \<Rightarrow> ('r \<times> 's) option"
    and inv :: "'s \<Rightarrow> bool" +
  fixes level :: "'s \<Rightarrow> 'l::preorder"
  assumes step_level: "inv s \<Longrightarrow> step c s = Some (r, s') \<Longrightarrow> level s \<le> level s'"
begin

lemma run_level:
  "inv s \<Longrightarrow> run_steps step cs s = Some (rs, s') \<Longrightarrow> level s \<le> level s'"
proof (induction cs arbitrary: s rs)
  case (Cons c cs)
  from Cons.prems obtain r t rs' where st: "step c s = Some (r, t)"
    and rest: "run_steps step cs t = Some (rs', s')"
    by (auto split: option.splits)
  have "inv t" using step_inv[OF Cons.prems(1), of c] st by auto
  with Cons.IH rest step_level[OF Cons.prems(1) st] show ?case
    by (meson order_trans)
qed simp

end

text \<open>
  A machine with a counter of bounded width: a fact that each step keeps as long as the counter
  has room is kept by every run short enough not to exhaust it.
\<close>

locale counting_machine = state_machine step inv
  for step :: "'c \<Rightarrow> 's \<Rightarrow> ('r \<times> 's) option"
    and inv :: "'s \<Rightarrow> bool" +
  fixes count :: "'s \<Rightarrow> nat"
    and bound :: nat
    and good :: "'s \<Rightarrow> bool"
  assumes step_count:
    "inv s \<Longrightarrow> good s \<Longrightarrow> count s + 1 < bound \<Longrightarrow> step c s = Some (r, s') \<Longrightarrow>
     good s' \<and> count s' \<le> count s + 1"
begin

lemma run_count:
  "inv s \<Longrightarrow> good s \<Longrightarrow> count s + length cs < bound \<Longrightarrow> run_steps step cs s = Some (rs, s') \<Longrightarrow>
   good s' \<and> count s' \<le> count s + length cs"
proof (induction cs arbitrary: s rs)
  case (Cons c cs)
  from Cons.prems obtain r t rs' where st: "step c s = Some (r, t)"
    and rest: "run_steps step cs t = Some (rs', s')"
    by (auto split: option.splits)
  have "inv t" using step_inv[OF Cons.prems(1), of c] st by auto
  moreover have "good t" "count t \<le> count s + 1"
    using step_count[OF Cons.prems(1,2) _ st] Cons.prems(3) by auto
  ultimately show ?case using Cons.IH[of t rs'] rest Cons.prems(3) by force
qed simp

end

end
