(* ===== verification/Common.thy ===== *)
theory Common
  imports Prelude
begin

text \<open>
  The value types of the crate \<^verbatim>\<open>blockyard-common\<close> that every other component uses: the shared
  error type (\<^verbatim>\<open>error.rs\<close>), protection policies (\<^verbatim>\<open>protection.rs\<close>), the per-disk health state
  machine (\<^verbatim>\<open>disk_state.rs\<close>) and volume write leases (\<^verbatim>\<open>lease.rs\<close>).
\<close>

section \<open>Errors\<close>

datatype Error =
    Io string
  | Config string
  | Raft string
  | Storage string
  | Network string
  | Protocol string
  | AuthError string

section \<open>Protection policies\<close>

datatype ProtectionPolicy =
    Replicated (replicas: u8)
  | ErasureCoded (data_chunks: u8) (parity_chunks: u8)

fun policy_validate :: "ProtectionPolicy \<Rightarrow> (unit, Error) result" where
  "policy_validate (Replicated n) =
     (if n < 1 then Inl (Config ''replicated policy requires at least 1 replica'') else Inr ())"
| "policy_validate (ErasureCoded k m) =
     (if k < 1 then Inl (Config ''erasure coding requires at least 1 data chunk'')
      else if m < 1 then Inl (Config ''erasure coding requires at least 1 parity chunk'')
      else Inr ())"

fun required_nodes :: "ProtectionPolicy \<Rightarrow> u8" where
  "required_nodes (Replicated n) = n"
| "required_nodes (ErasureCoded k m) = saturating_add k m"

fun fault_tolerance :: "ProtectionPolicy \<Rightarrow> u8" where
  "fault_tolerance (Replicated n) = saturating_sub n 1"
| "fault_tolerance (ErasureCoded k m) = m"

text \<open>The number of copies or fragments the policy speaks of, without the width of the field.\<close>

fun policy_width :: "ProtectionPolicy \<Rightarrow> nat" where
  "policy_width (Replicated n) = unat n"
| "policy_width (ErasureCoded k m) = unat k + unat m"

lemma word_lt_one_iff [simp]: "(w::'a::len word) < 1 \<longleftrightarrow> w = 0"
  by (simp add: word_less_nat_alt unat_eq_zero)

lemma policy_validate_iff:
  "policy_validate p = Inr () \<longleftrightarrow>
     (case p of Replicated n \<Rightarrow> 0 < unat n | ErasureCoded k m \<Rightarrow> 0 < unat k \<and> 0 < unat m)"
  by (cases p) (auto simp: unat_gt_0)

lemma unat_required_nodes: "unat (required_nodes p) = min (policy_width p) 255"
proof (cases p)
  case (Replicated n)
  have "unat n \<le> 255" using unat_lt_power[of n] by simp
  with Replicated show ?thesis by simp
qed (simp add: unat_saturating_add)

text \<open>
  A policy accepted by \<^const>\<open>policy_validate\<close> tolerates strictly fewer losses than it has
  copies or fragments, and the survivors of that many losses still hold the data: one replica, or
  \<^term>\<open>data_chunks\<close> fragments.
\<close>

lemma fault_tolerance_width:
  assumes "policy_validate p = Inr ()"
  shows "policy_width p = unat (fault_tolerance p) +
           (case p of Replicated n \<Rightarrow> 1 | ErasureCoded k m \<Rightarrow> unat k)"
  using assms[unfolded policy_validate_iff]
  by (cases p) (auto simp: unat_saturating_sub)

section \<open>Disk states\<close>

datatype DiskState = Healthy | Suspect | Degraded | Draining | Failed | Removed

fun allows_allocation :: "DiskState \<Rightarrow> bool" where
  "allows_allocation Healthy = True"
| "allows_allocation Suspect = True"
| "allows_allocation _ = False"

fun allows_reads :: "DiskState \<Rightarrow> bool" where
  "allows_reads Healthy = True"
| "allows_reads Suspect = True"
| "allows_reads Degraded = True"
| "allows_reads Draining = True"
| "allows_reads _ = False"

fun disk_state_display :: "DiskState \<Rightarrow> string" where
  "disk_state_display Healthy = ''healthy''"
| "disk_state_display Suspect = ''suspect''"
| "disk_state_display Degraded = ''degraded''"
| "disk_state_display Draining = ''draining''"
| "disk_state_display Failed = ''failed''"
| "disk_state_display Removed = ''removed''"

definition right_arrow :: string where
  "right_arrow = [CHR 0xE2, CHR 0x86, CHR 0x92]"

definition transition_valid :: "DiskState \<Rightarrow> DiskState \<Rightarrow> bool" where
  "transition_valid frm to =
     (case frm of
        Healthy \<Rightarrow> to \<in> {Suspect, Degraded, Draining, Failed}
      | Suspect \<Rightarrow> to \<in> {Healthy, Degraded, Draining, Failed}
      | Degraded \<Rightarrow> to \<in> {Draining, Failed, Removed}
      | Draining \<Rightarrow> to \<in> {Failed, Removed}
      | Failed \<Rightarrow> to \<in> {Removed}
      | Removed \<Rightarrow> False)"

definition validate_transition :: "DiskState \<Rightarrow> DiskState \<Rightarrow> (unit, Error) result" where
  "validate_transition frm to =
     (if frm = to then Inr ()
      else if transition_valid frm to then Inr ()
      else Inl (Storage (''illegal disk state transition: '' @ disk_state_display frm @
                  '' '' @ right_arrow @ '' '' @ disk_state_display to)))"

text \<open>
  How much of its service a disk still gives: 3 allocations and reads, 2 reads only, 1 neither,
  0 retired.
\<close>

fun service_level :: "DiskState \<Rightarrow> nat" where
  "service_level Healthy = 3"
| "service_level Suspect = 3"
| "service_level Degraded = 2"
| "service_level Draining = 2"
| "service_level Failed = 1"
| "service_level Removed = 0"

lemma allows_allocation_iff: "allows_allocation s \<longleftrightarrow> service_level s = 3"
  by (cases s) auto

lemma allows_reads_iff: "allows_reads s \<longleftrightarrow> 2 \<le> service_level s"
  by (cases s) auto

lemma validate_transition_iff:
  "validate_transition frm to = Inr () \<longleftrightarrow> frm = to \<or> transition_valid frm to"
  by (simp add: validate_transition_def)

lemma transition_service_level: "transition_valid frm to \<Longrightarrow> service_level to \<le> service_level frm"
  by (cases frm) (auto simp: transition_valid_def)

lemma validate_transition_level:
  "validate_transition frm to = Inr () \<Longrightarrow> service_level to \<le> service_level frm"
  by (auto simp: validate_transition_iff transition_service_level)

section \<open>Volume leases\<close>

record VolumeLease =
  vl_volume_id :: VolumeId
  vl_holder :: SessionId
  vl_granted_at_ms :: u64
  vl_expires_at_ms :: u64
  vl_lease_version :: LeaseVersion

definition is_expired :: "VolumeLease \<Rightarrow> u64 \<Rightarrow> bool" where
  "is_expired l now_ms \<longleftrightarrow> now_ms \<ge> vl_expires_at_ms l"

definition is_held_by :: "VolumeLease \<Rightarrow> SessionId \<Rightarrow> bool" where
  "is_held_by l session_id \<longleftrightarrow> vl_holder l = session_id"

definition remaining_ms :: "VolumeLease \<Rightarrow> u64 \<Rightarrow> u64" where
  "remaining_ms l now_ms = saturating_sub (vl_expires_at_ms l) now_ms"

datatype LeaseRequest =
    Acquire VolumeId SessionId u64 u64
  | Renew VolumeId SessionId u64 u64
  | Release VolumeId SessionId

datatype LeaseDenial =
    LeaseVolumeNotFound VolumeId
  | LeaseHeldBy VolumeId SessionId
  | NoLease VolumeId
  | LeaseHeldByDifferent VolumeId SessionId
  | LeaseExpired VolumeId
  | ReleaseNotHolder VolumeId

datatype LeaseResponse =
    Granted LeaseVersion u64
  | Renewed LeaseVersion u64
  | Released
  | Denied LeaseDenial

definition lease_is_success :: "LeaseResponse \<Rightarrow> bool" where
  "lease_is_success r \<longleftrightarrow> (case r of Denied _ \<Rightarrow> False | _ \<Rightarrow> True)"

lemma lease_is_success_simps [simp]:
  "lease_is_success (Granted v e)" "lease_is_success (Renewed v e)" "lease_is_success Released"
  "\<not> lease_is_success (Denied d)"
  by (simp_all add: lease_is_success_def)

lemma remaining_ms_zero_iff: "remaining_ms l now = 0 \<longleftrightarrow> is_expired l now"
  by (simp add: unat_eq_zero[symmetric] remaining_ms_def unat_saturating_sub is_expired_def
        word_le_nat_alt)

lemma is_expired_mono: "is_expired l t \<Longrightarrow> t \<le> t' \<Longrightarrow> is_expired l t'"
  by (auto simp: is_expired_def)

end
