(* ===== verification/Metadata.thy ===== *)
theory Metadata
  imports Common
begin

text \<open>
  The replicated metadata state machine (\<^verbatim>\<open>blockyard-raft/src/state_machine.rs\<close>,
  \<^verbatim>\<open>request.rs\<close>, \<^verbatim>\<open>response.rs\<close>): cluster membership, volumes, extent mappings with their two
  indexes, the placement map, write leases, Raft node numbers and the cluster's disks.

  Each branch of \<^verbatim>\<open>apply_request\<close> is one definition; \<^verbatim>\<open>apply_request\<close> composes them. The argument
  \<^verbatim>\<open>fmt\<close> is the textual form of a UUID, which keys most of the maps. \<^const>\<open>None\<close> as the result of
  a branch is a panic (the \<^verbatim>\<open>expect\<close> of the extent-mapping lookup). The counters are 64-bit words
  and wrap, as in a build without overflow checks. Error messages are constructors that carry what
  the message prints.
\<close>

section \<open>State\<close>

record VolumeMetadata =
  vm_volume_id :: VolumeId
  vm_size_bytes :: u64
  vm_protection :: ProtectionPolicy
  vm_extent_size :: u64
  vm_created_at_epoch :: EpochId

record ExtentMapping =
  em_extent_id :: ExtentId
  em_extent_version :: u64
  em_epoch :: EpochId
  em_block_range :: "u64 \<times> u64"
  em_replica_locations :: "NodeId list"
  em_checksums :: "bytes list"
  em_operation_id :: "OperationId option"

record ClusterNode =
  cn_node_id :: NodeId
  cn_addr :: string

record ClusterDisk =
  cd_disk_id :: DiskId
  cd_node_id :: NodeId
  cd_capacity_bytes :: u64
  cd_used_bytes :: u64
  cd_state :: DiskState

record MetadataStateMachineData =
  sm_epoch :: EpochId
  sm_nodes :: "(string, ClusterNode) btree"
  sm_volumes :: "(string, VolumeMetadata) btree"
  sm_extent_mappings :: "(string, (u64, ExtentMapping) btree) btree"
  sm_operation_index :: "(string, string \<times> u64) btree"
  sm_extent_version_index :: "(u64, string \<times> u64) btree"
  sm_placement_map :: "(string, NodeId list) btree"
  sm_leases :: "(string, VolumeLease) btree"
  sm_lease_version_counter :: LeaseVersion
  sm_raft_id_counter :: u64
  sm_node_raft_map :: "(NodeId, u64) btree"
  sm_cluster_disks :: "(DiskId, ClusterDisk) btree"

type_synonym 'z md = "'z MetadataStateMachineData_scheme"

definition md_default :: MetadataStateMachineData where
  "md_default =
     \<lparr> sm_epoch = 0, sm_nodes = [], sm_volumes = [], sm_extent_mappings = [],
       sm_operation_index = [], sm_extent_version_index = [], sm_placement_map = [],
       sm_leases = [], sm_lease_version_counter = 0, sm_raft_id_counter = 0,
       sm_node_raft_map = [], sm_cluster_disks = [] \<rparr>"

section \<open>Requests and responses\<close>

record ExtentMappingEntry =
  ee_volume_id :: VolumeId
  ee_block_range :: "u64 \<times> u64"
  ee_extent_id :: ExtentId
  ee_extent_version :: u64
  ee_epoch :: EpochId
  ee_replica_locations :: "NodeId list"
  ee_checksums :: "bytes list"
  ee_operation_id :: "OperationId option"
  ee_previous_version :: "u64 option"

datatype MetadataRequest =
    AddNode NodeId string
  | RemoveNode NodeId
  | CreateVolume VolumeId u64 ProtectionPolicy u64
  | DeleteVolume VolumeId
  | AdvanceEpoch
  | CommitExtentMapping ExtentMappingEntry
  | CommitExtentMappingBatch "ExtentMappingEntry list"
  | UpdatePlacementMap "(string, NodeId list) btree"
  | Lease LeaseRequest
  | RegisterNode NodeId string
  | RegisterDisk DiskId NodeId u64
  | UpdateDiskUsage DiskId u64
  | DeregisterDisk DiskId
  | CleanupExpiredLeases u64

datatype MetadataError =
    NodeNotFound NodeId
  | VolumeExists VolumeId
  | InvalidPolicy Error
  | VolumeNotFound VolumeId
  | StaleEpochError EpochId EpochId
  | CasMismatch u64 u64
  | CasMissing u64 u64
  | DiskNotFound DiskId

datatype MetadataResponse =
    RespOk
  | RespEpoch EpochId
  | RespError MetadataError
  | RespLease LeaseResponse
  | NodeRegistered u64
  | DiskRegistered
  | LeasesCleanedUp nat

definition resp_is_error :: "MetadataResponse \<Rightarrow> bool" where
  "resp_is_error r \<longleftrightarrow> (case r of RespError _ \<Rightarrow> True | _ \<Rightarrow> False)"

section \<open>Operations\<close>

definition apply_add_node :: "(uuid \<Rightarrow> string) \<Rightarrow> NodeId \<Rightarrow> string \<Rightarrow> 'z md \<Rightarrow> MetadataResponse \<times> 'z md" where
  "apply_add_node fmt node_id addr s =
     (RespOk, s\<lparr> sm_nodes := bt_insert (fmt node_id) \<lparr> cn_node_id = node_id, cn_addr = addr \<rparr> (sm_nodes s) \<rparr>)"

definition apply_remove_node :: "(uuid \<Rightarrow> string) \<Rightarrow> NodeId \<Rightarrow> 'z md \<Rightarrow> MetadataResponse \<times> 'z md" where
  "apply_remove_node fmt node_id s =
     (case bt_get (sm_nodes s) (fmt node_id) of
        Some _ \<Rightarrow> (RespOk, s\<lparr> sm_nodes := bt_remove (fmt node_id) (sm_nodes s) \<rparr>)
      | None \<Rightarrow> (RespError (NodeNotFound node_id), s))"

definition apply_create_volume ::
  "(uuid \<Rightarrow> string) \<Rightarrow> VolumeId \<Rightarrow> u64 \<Rightarrow> ProtectionPolicy \<Rightarrow> u64 \<Rightarrow> 'z md \<Rightarrow> MetadataResponse \<times> 'z md" where
  "apply_create_volume fmt volume_id size_bytes protection extent_size s =
     (let key = fmt volume_id in
      if bt_get (sm_volumes s) key \<noteq> None then (RespError (VolumeExists volume_id), s)
      else case policy_validate protection of
        Inl e \<Rightarrow> (RespError (InvalidPolicy e), s)
      | Inr _ \<Rightarrow>
          (RespOk,
           s\<lparr> sm_volumes := bt_insert key
                \<lparr> vm_volume_id = volume_id, vm_size_bytes = size_bytes, vm_protection = protection,
                  vm_extent_size = extent_size, vm_created_at_epoch = sm_epoch s \<rparr> (sm_volumes s),
              sm_extent_mappings := bt_insert key [] (sm_extent_mappings s) \<rparr>))"

definition mapping_op_keys :: "(uuid \<Rightarrow> string) \<Rightarrow> ExtentMapping list \<Rightarrow> string list" where
  "mapping_op_keys fmt ms =
     map fmt (List.map_filter em_operation_id ms)"

definition apply_delete_volume :: "(uuid \<Rightarrow> string) \<Rightarrow> VolumeId \<Rightarrow> 'z md \<Rightarrow> MetadataResponse \<times> 'z md" where
  "apply_delete_volume fmt volume_id s =
     (let key = fmt volume_id in
      case bt_get (sm_volumes s) key of
        None \<Rightarrow> (RespError (VolumeNotFound volume_id), s)
      | Some _ \<Rightarrow>
          (let s1 = s\<lparr> sm_volumes := bt_remove key (sm_volumes s) \<rparr>;
               s2 = (case bt_get (sm_extent_mappings s1) key of
                       None \<Rightarrow> s1
                     | Some mappings \<Rightarrow>
                         s1\<lparr> sm_extent_mappings := bt_remove key (sm_extent_mappings s1),
                             sm_operation_index :=
                               fold bt_remove (mapping_op_keys fmt (bt_values mappings)) (sm_operation_index s1),
                             sm_extent_version_index :=
                               fold bt_remove (map em_extent_version (bt_values mappings)) (sm_extent_version_index s1) \<rparr>)
           in (RespOk, s2\<lparr> sm_leases := bt_remove key (sm_leases s2) \<rparr>)))"

definition apply_advance_epoch :: "'z md \<Rightarrow> MetadataResponse \<times> 'z md" where
  "apply_advance_epoch s =
     (let e = saturating_add (sm_epoch s) 1 in (RespEpoch e, s\<lparr> sm_epoch := e \<rparr>))"

definition entry_mapping :: "ExtentMappingEntry \<Rightarrow> ExtentMapping" where
  "entry_mapping e =
     \<lparr> em_extent_id = ee_extent_id e, em_extent_version = ee_extent_version e, em_epoch = ee_epoch e,
       em_block_range = ee_block_range e, em_replica_locations = ee_replica_locations e,
       em_checksums = ee_checksums e, em_operation_id = ee_operation_id e \<rparr>"

definition cas_check :: "ExtentMappingEntry \<Rightarrow> (u64, ExtentMapping) btree \<Rightarrow> MetadataError option" where
  "cas_check e ms =
     (case ee_previous_version e of
        None \<Rightarrow> None
      | Some prev_ver \<Rightarrow>
          (case bt_get ms (fst (ee_block_range e)) of
             Some existing \<Rightarrow>
               if em_extent_version existing \<noteq> prev_ver
               then Some (CasMismatch prev_ver (em_extent_version existing)) else None
           | None \<Rightarrow>
               if prev_ver \<noteq> 0 then Some (CasMissing (fst (ee_block_range e)) prev_ver) else None))"

definition unindex_existing :: "(uuid \<Rightarrow> string) \<Rightarrow> ExtentMapping option \<Rightarrow> 'z md \<Rightarrow> 'z md" where
  "unindex_existing fmt old s =
     (case old of
        None \<Rightarrow> s
      | Some existing \<Rightarrow>
          s\<lparr> sm_operation_index :=
               (case em_operation_id existing of
                  None \<Rightarrow> sm_operation_index s
                | Some op \<Rightarrow> bt_remove (fmt op) (sm_operation_index s)),
             sm_extent_version_index :=
               bt_remove (em_extent_version existing) (sm_extent_version_index s) \<rparr>)"

definition apply_commit_extent_mapping ::
  "(uuid \<Rightarrow> string) \<Rightarrow> ExtentMappingEntry \<Rightarrow> 'z md \<Rightarrow> (MetadataResponse \<times> 'z md) option" where
  "apply_commit_extent_mapping fmt e s =
     (let vol_key = fmt (ee_volume_id e); start = fst (ee_block_range e) in
      if bt_get (sm_volumes s) vol_key = None then Some (RespError (VolumeNotFound (ee_volume_id e)), s)
      else if ee_epoch e \<noteq> sm_epoch s then Some (RespError (StaleEpochError (ee_epoch e) (sm_epoch s)), s)
      else case bt_get (sm_extent_mappings s) vol_key of
        None \<Rightarrow> None
      | Some vol_mappings \<Rightarrow>
          (case cas_check e vol_mappings of
             Some err \<Rightarrow> Some (RespError err, s)
           | None \<Rightarrow>
               (let s1 = unindex_existing fmt (bt_get vol_mappings start) s;
                    s2 = s1\<lparr> sm_operation_index :=
                               (case ee_operation_id e of
                                  None \<Rightarrow> sm_operation_index s1
                                | Some op \<Rightarrow> bt_insert (fmt op) (vol_key, start) (sm_operation_index s1)),
                             sm_extent_version_index :=
                               bt_insert (ee_extent_version e) (vol_key, start) (sm_extent_version_index s1),
                             sm_extent_mappings :=
                               bt_insert vol_key (bt_insert start (entry_mapping e) vol_mappings)
                                 (sm_extent_mappings s1) \<rparr>
                in Some (RespEpoch (sm_epoch s2), s2))))"

fun apply_commit_batch ::
  "(uuid \<Rightarrow> string) \<Rightarrow> ExtentMappingEntry list \<Rightarrow> 'z md \<Rightarrow> (MetadataResponse \<times> 'z md) option" where
  "apply_commit_batch fmt [] s = Some (RespEpoch (sm_epoch s), s)"
| "apply_commit_batch fmt (e # es) s =
     (case apply_commit_extent_mapping fmt e s of
        None \<Rightarrow> None
      | Some (r, s') \<Rightarrow> if resp_is_error r then Some (r, s') else apply_commit_batch fmt es s')"

definition apply_update_placement_map :: "(string, NodeId list) btree \<Rightarrow> 'z md \<Rightarrow> MetadataResponse \<times> 'z md" where
  "apply_update_placement_map assignments s =
     (RespOk, s\<lparr> sm_placement_map := fold (\<lambda>(k, v). bt_insert k v) assignments (sm_placement_map s) \<rparr>)"

definition apply_register_node :: "(uuid \<Rightarrow> string) \<Rightarrow> NodeId \<Rightarrow> string \<Rightarrow> 'z md \<Rightarrow> MetadataResponse \<times> 'z md" where
  "apply_register_node fmt node_id addr s =
     (let node = \<lparr> cn_node_id = node_id, cn_addr = addr \<rparr> in
      case bt_get (sm_node_raft_map s) node_id of
        Some existing_raft_id \<Rightarrow>
          (NodeRegistered existing_raft_id, s\<lparr> sm_nodes := bt_insert (fmt node_id) node (sm_nodes s) \<rparr>)
      | None \<Rightarrow>
          (let raft_id = sm_raft_id_counter s + 1 in
           (NodeRegistered raft_id,
            s\<lparr> sm_raft_id_counter := raft_id,
               sm_node_raft_map := bt_insert node_id raft_id (sm_node_raft_map s),
               sm_nodes := bt_insert (fmt node_id) node (sm_nodes s) \<rparr>)))"

definition apply_register_disk :: "DiskId \<Rightarrow> NodeId \<Rightarrow> u64 \<Rightarrow> 'z md \<Rightarrow> MetadataResponse \<times> 'z md" where
  "apply_register_disk disk_id node_id capacity_bytes s =
     (DiskRegistered,
      s\<lparr> sm_cluster_disks := bt_insert disk_id
           \<lparr> cd_disk_id = disk_id, cd_node_id = node_id, cd_capacity_bytes = capacity_bytes,
             cd_used_bytes = 0, cd_state = Healthy \<rparr> (sm_cluster_disks s) \<rparr>)"

definition apply_update_disk_usage :: "DiskId \<Rightarrow> u64 \<Rightarrow> 'z md \<Rightarrow> MetadataResponse \<times> 'z md" where
  "apply_update_disk_usage disk_id used_bytes s =
     (case bt_get (sm_cluster_disks s) disk_id of
        Some disk \<Rightarrow>
          (DiskRegistered,
           s\<lparr> sm_cluster_disks := bt_insert disk_id (disk\<lparr> cd_used_bytes := used_bytes \<rparr>) (sm_cluster_disks s) \<rparr>)
      | None \<Rightarrow> (RespError (DiskNotFound disk_id), s))"

definition apply_deregister_disk :: "DiskId \<Rightarrow> 'z md \<Rightarrow> MetadataResponse \<times> 'z md" where
  "apply_deregister_disk disk_id s =
     (case bt_get (sm_cluster_disks s) disk_id of
        Some _ \<Rightarrow> (DiskRegistered, s\<lparr> sm_cluster_disks := bt_remove disk_id (sm_cluster_disks s) \<rparr>)
      | None \<Rightarrow> (RespError (DiskNotFound disk_id), s))"

definition cleanup_expired_leases :: "u64 \<Rightarrow> 'z md \<Rightarrow> nat \<times> 'z md" where
  "cleanup_expired_leases now_ms s =
     (let kept = bt_retain (\<lambda>_ l. \<not> is_expired l now_ms) (sm_leases s)
      in (length (sm_leases s) - length kept, s\<lparr> sm_leases := kept \<rparr>))"

fun apply_lease_request :: "(uuid \<Rightarrow> string) \<Rightarrow> LeaseRequest \<Rightarrow> 'z md \<Rightarrow> LeaseResponse \<times> 'z md" where
  "apply_lease_request fmt (Acquire volume_id session_id now_ms ttl_ms) s =
     (let key = fmt volume_id in
      if bt_get (sm_volumes s) key = None then (Denied (LeaseVolumeNotFound volume_id), s)
      else
        (let grant =
               (let version = sm_lease_version_counter s + 1;
                    lease = \<lparr> vl_volume_id = volume_id, vl_holder = session_id, vl_granted_at_ms = now_ms,
                              vl_expires_at_ms = now_ms + ttl_ms, vl_lease_version = version \<rparr>
                in (Granted version (now_ms + ttl_ms),
                    s\<lparr> sm_lease_version_counter := version,
                       sm_leases := bt_insert key lease (sm_leases s) \<rparr>))
         in case bt_get (sm_leases s) key of
              Some existing \<Rightarrow>
                if \<not> is_expired existing now_ms \<and> \<not> is_held_by existing session_id
                then (Denied (LeaseHeldBy volume_id (vl_holder existing)), s)
                else grant
            | None \<Rightarrow> grant))"
| "apply_lease_request fmt (Renew volume_id session_id now_ms ttl_ms) s =
     (let key = fmt volume_id in
      case bt_get (sm_leases s) key of
        None \<Rightarrow> (Denied (NoLease volume_id), s)
      | Some existing \<Rightarrow>
          if \<not> is_held_by existing session_id then
            (Denied (LeaseHeldByDifferent volume_id (vl_holder existing)), s)
          else if is_expired existing now_ms then (Denied (LeaseExpired volume_id), s)
          else
            (let version = sm_lease_version_counter s + 1;
                 lease = existing\<lparr> vl_expires_at_ms := now_ms + ttl_ms, vl_lease_version := version \<rparr>
             in (Renewed version (now_ms + ttl_ms),
                 s\<lparr> sm_lease_version_counter := version,
                    sm_leases := bt_insert key lease (sm_leases s) \<rparr>)))"
| "apply_lease_request fmt (Release volume_id session_id) s =
     (let key = fmt volume_id in
      case bt_get (sm_leases s) key of
        Some existing \<Rightarrow>
          if is_held_by existing session_id
          then (Released, s\<lparr> sm_leases := bt_remove key (sm_leases s) \<rparr>)
          else (Denied (ReleaseNotHolder volume_id), s)
      | None \<Rightarrow> (Released, s))"

definition apply_lease :: "(uuid \<Rightarrow> string) \<Rightarrow> LeaseRequest \<Rightarrow> 'z md \<Rightarrow> MetadataResponse \<times> 'z md" where
  "apply_lease fmt req s = (case apply_lease_request fmt req s of (r, s') \<Rightarrow> (RespLease r, s'))"

definition apply_cleanup :: "u64 \<Rightarrow> 'z md \<Rightarrow> MetadataResponse \<times> 'z md" where
  "apply_cleanup now_ms s = (case cleanup_expired_leases now_ms s of (n, s') \<Rightarrow> (LeasesCleanedUp n, s'))"

fun apply_request :: "(uuid \<Rightarrow> string) \<Rightarrow> MetadataRequest \<Rightarrow> 'z md \<Rightarrow> (MetadataResponse \<times> 'z md) option" where
  "apply_request fmt (AddNode node_id addr) s = Some (apply_add_node fmt node_id addr s)"
| "apply_request fmt (RemoveNode node_id) s = Some (apply_remove_node fmt node_id s)"
| "apply_request fmt (CreateVolume v sz p es) s = Some (apply_create_volume fmt v sz p es s)"
| "apply_request fmt (DeleteVolume v) s = Some (apply_delete_volume fmt v s)"
| "apply_request fmt AdvanceEpoch s = Some (apply_advance_epoch s)"
| "apply_request fmt (CommitExtentMapping e) s = apply_commit_extent_mapping fmt e s"
| "apply_request fmt (CommitExtentMappingBatch es) s = apply_commit_batch fmt es s"
| "apply_request fmt (UpdatePlacementMap a) s = Some (apply_update_placement_map a s)"
| "apply_request fmt (Lease r) s = Some (apply_lease fmt r s)"
| "apply_request fmt (RegisterNode node_id addr) s = Some (apply_register_node fmt node_id addr s)"
| "apply_request fmt (RegisterDisk d n c) s = Some (apply_register_disk d n c s)"
| "apply_request fmt (UpdateDiskUsage d u) s = Some (apply_update_disk_usage d u s)"
| "apply_request fmt (DeregisterDisk d) s = Some (apply_deregister_disk d s)"
| "apply_request fmt (CleanupExpiredLeases now_ms) s = Some (apply_cleanup now_ms s)"

section \<open>Queries\<close>

definition mapping_at :: "'z md \<Rightarrow> string \<Rightarrow> u64 \<Rightarrow> ExtentMapping option" where
  "mapping_at s vol_key start = Option.bind (bt_get (sm_extent_mappings s) vol_key) (\<lambda>ms. bt_get ms start)"

definition lookup_by_operation_id :: "(uuid \<Rightarrow> string) \<Rightarrow> 'z md \<Rightarrow> OperationId \<Rightarrow> ExtentMapping option" where
  "lookup_by_operation_id fmt s op =
     Option.bind (bt_get (sm_operation_index s) (fmt op)) (\<lambda>(vol_key, start). mapping_at s vol_key start)"

definition lookup_by_extent_version :: "'z md \<Rightarrow> u64 \<Rightarrow> ExtentMapping option" where
  "lookup_by_extent_version s version =
     Option.bind (bt_get (sm_extent_version_index s) version) (\<lambda>(vol_key, start). mapping_at s vol_key start)"

definition get_volume_mappings :: "(uuid \<Rightarrow> string) \<Rightarrow> 'z md \<Rightarrow> VolumeId \<Rightarrow> (u64, ExtentMapping) btree option" where
  "get_volume_mappings fmt s v = bt_get (sm_extent_mappings s) (fmt v)"

definition get_volume :: "(uuid \<Rightarrow> string) \<Rightarrow> 'z md \<Rightarrow> VolumeId \<Rightarrow> VolumeMetadata option" where
  "get_volume fmt s v = bt_get (sm_volumes s) (fmt v)"

definition list_volumes :: "'z md \<Rightarrow> VolumeMetadata list" where
  "list_volumes s = bt_values (sm_volumes s)"

definition get_cluster_node :: "(uuid \<Rightarrow> string) \<Rightarrow> 'z md \<Rightarrow> NodeId \<Rightarrow> ClusterNode option" where
  "get_cluster_node fmt s n = bt_get (sm_nodes s) (fmt n)"

definition list_nodes :: "'z md \<Rightarrow> ClusterNode list" where
  "list_nodes s = bt_values (sm_nodes s)"

definition get_cluster_disk :: "'z md \<Rightarrow> DiskId \<Rightarrow> ClusterDisk option" where
  "get_cluster_disk s d = bt_get (sm_cluster_disks s) d"

definition list_cluster_disks :: "'z md \<Rightarrow> ClusterDisk list" where
  "list_cluster_disks s = bt_values (sm_cluster_disks s)"

definition list_all_leases :: "'z md \<Rightarrow> VolumeLease list" where
  "list_all_leases s = bt_values (sm_leases s)"

definition get_raft_id :: "'z md \<Rightarrow> NodeId \<Rightarrow> u64 option" where
  "get_raft_id s node_id = bt_get (sm_node_raft_map s) node_id"

definition get_node_id_by_raft_id :: "'z md \<Rightarrow> u64 \<Rightarrow> NodeId option" where
  "get_node_id_by_raft_id s raft_id =
     map_option fst (find (\<lambda>(_, v). v = raft_id) (sm_node_raft_map s))"

definition list_active_leases :: "'z md \<Rightarrow> u64 \<Rightarrow> VolumeLease list" where
  "list_active_leases s now_ms = filter (\<lambda>l. \<not> is_expired l now_ms) (bt_values (sm_leases s))"

definition get_lease :: "(uuid \<Rightarrow> string) \<Rightarrow> 'z md \<Rightarrow> VolumeId \<Rightarrow> VolumeLease option" where
  "get_lease fmt s v = bt_get (sm_leases s) (fmt v)"

datatype LeaseCheckError =
    CheckNoLease VolumeId
  | CheckHeldBy VolumeId SessionId SessionId
  | CheckExpired VolumeId
  | CheckStaleVersion LeaseVersion LeaseVersion

definition validate_lease ::
  "(uuid \<Rightarrow> string) \<Rightarrow> 'z md \<Rightarrow> VolumeId \<Rightarrow> SessionId \<Rightarrow> LeaseVersion \<Rightarrow> u64 \<Rightarrow> (unit, LeaseCheckError) result" where
  "validate_lease fmt s volume_id session_id lease_version now_ms =
     (case bt_get (sm_leases s) (fmt volume_id) of
        None \<Rightarrow> Inl (CheckNoLease volume_id)
      | Some lease \<Rightarrow>
          if \<not> is_held_by lease session_id then Inl (CheckHeldBy volume_id (vl_holder lease) session_id)
          else if is_expired lease now_ms then Inl (CheckExpired volume_id)
          else if vl_lease_version lease \<noteq> lease_version
            then Inl (CheckStaleVersion lease_version (vl_lease_version lease))
          else Inr ())"

end
