(* ===== verification/MetadataInv.thy ===== *)
theory MetadataInv
  imports Metadata
begin

text \<open>
  The invariant of the metadata state machine and its preservation by every request: volumes and
  extent-mapping tables have the same keys, stored policies are valid, recorded epochs never exceed
  the current one, both indexes point at mappings that carry the indexed operation or version, and
  leases exist only for existing volumes. The state machine contract of the prelude is interpreted
  on \<^const>\<open>apply_request\<close>.
\<close>

definition volumes_ok :: "(uuid \<Rightarrow> string) \<Rightarrow> 'z md \<Rightarrow> bool" where
  "volumes_ok fmt s \<longleftrightarrow>
     dom (map_of (sm_volumes s)) = dom (map_of (sm_extent_mappings s)) \<and>
     (\<forall>k v. bt_get (sm_volumes s) k = Some v \<longrightarrow>
        fmt (vm_volume_id v) = k \<and> policy_validate (vm_protection v) = Inr () \<and>
        vm_created_at_epoch v \<le> sm_epoch s)"

definition mappings_ok :: "'z md \<Rightarrow> bool" where
  "mappings_ok s \<longleftrightarrow>
     (\<forall>k b m. mapping_at s k b = Some m \<longrightarrow> fst (em_block_range m) = b \<and> em_epoch m \<le> sm_epoch s)"

definition indexes_ok :: "(uuid \<Rightarrow> string) \<Rightarrow> 'z md \<Rightarrow> bool" where
  "indexes_ok fmt s \<longleftrightarrow>
     (\<forall>key k b. bt_get (sm_operation_index s) key = Some (k, b) \<longrightarrow>
        (\<exists>m op. mapping_at s k b = Some m \<and> em_operation_id m = Some op \<and> fmt op = key)) \<and>
     (\<forall>v k b. bt_get (sm_extent_version_index s) v = Some (k, b) \<longrightarrow>
        (\<exists>m. mapping_at s k b = Some m \<and> em_extent_version m = v))"

definition leases_ok :: "(uuid \<Rightarrow> string) \<Rightarrow> 'z md \<Rightarrow> bool" where
  "leases_ok fmt s \<longleftrightarrow> bt_wf (sm_leases s) \<and>
     (\<forall>k l. bt_get (sm_leases s) k = Some l \<longrightarrow>
        fmt (vl_volume_id l) = k \<and> bt_get (sm_volumes s) k \<noteq> None)"

definition md_inv :: "(uuid \<Rightarrow> string) \<Rightarrow> 'z md \<Rightarrow> bool" where
  "md_inv fmt s \<longleftrightarrow> volumes_ok fmt s \<and> mappings_ok s \<and> indexes_ok fmt s \<and> leases_ok fmt s"

lemmas md_inv_defs = md_inv_def volumes_ok_def mappings_ok_def indexes_ok_def leases_ok_def

lemma mapping_at_frame:
  "sm_extent_mappings s = sm_extent_mappings s' \<Longrightarrow> mapping_at s = mapping_at s'"
  by (simp add: mapping_at_def fun_eq_iff)

lemma md_inv_frame:
  assumes "md_inv fmt s"
    and "sm_volumes s' = sm_volumes s" "sm_extent_mappings s' = sm_extent_mappings s"
    and "sm_operation_index s' = sm_operation_index s"
    and "sm_extent_version_index s' = sm_extent_version_index s"
    and "sm_leases s' = sm_leases s" "sm_epoch s \<le> sm_epoch s'"
  shows "md_inv fmt s'"
proof -
  have le: "e \<le> sm_epoch s'" if "e \<le> sm_epoch s" for e
    using that assms(7) by (rule order_trans)
  show ?thesis
    using assms(1-6) mapping_at_frame[of s' s] unfolding md_inv_defs by (auto intro: le)
qed

lemma md_inv_add_node: "md_inv fmt s \<Longrightarrow> md_inv fmt (snd (apply_add_node fmt n a s))"
  by (erule md_inv_frame) (simp_all add: apply_add_node_def)

lemma md_inv_remove_node: "md_inv fmt s \<Longrightarrow> md_inv fmt (snd (apply_remove_node fmt n s))"
  by (erule md_inv_frame) (simp_all add: apply_remove_node_def split: option.split)

lemma md_inv_advance_epoch: "md_inv fmt s \<Longrightarrow> md_inv fmt (snd (apply_advance_epoch s))"
  by (erule md_inv_frame) (simp_all add: apply_advance_epoch_def Let_def)

lemma md_inv_placement: "md_inv fmt s \<Longrightarrow> md_inv fmt (snd (apply_update_placement_map a s))"
  by (erule md_inv_frame) (simp_all add: apply_update_placement_map_def)

lemma md_inv_register_node: "md_inv fmt s \<Longrightarrow> md_inv fmt (snd (apply_register_node fmt n a s))"
  by (erule md_inv_frame) (simp_all add: apply_register_node_def Let_def split: option.split)

lemma md_inv_disks:
  assumes "md_inv fmt s"
  shows "md_inv fmt (snd (apply_register_disk d n c s))"
    and "md_inv fmt (snd (apply_update_disk_usage d u s))"
    and "md_inv fmt (snd (apply_deregister_disk d s))"
  by (rule md_inv_frame[OF assms];
      simp add: apply_register_disk_def apply_update_disk_usage_def apply_deregister_disk_def
           split: option.split)+

lemma md_inv_create_volume:
  assumes "md_inv fmt s"
  shows "md_inv fmt (snd (apply_create_volume fmt v sz p es s))"
proof (cases "bt_get (sm_volumes s) (fmt v) = None \<and> policy_validate p = Inr ()")
  case False
  then have "snd (apply_create_volume fmt v sz p es s) = s"
    by (auto simp: apply_create_volume_def Let_def split: sum.split)
  with assms show ?thesis by simp
next
  case True
  let ?s' = "snd (apply_create_volume fmt v sz p es s)"
  from True assms have fresh: "bt_get (sm_extent_mappings s) (fmt v) = None"
    unfolding md_inv_def volumes_ok_def by (metis domIff)
  with True have at: "mapping_at ?s' = mapping_at s"
    by (auto simp: apply_create_volume_def Let_def mapping_at_def fun_eq_iff)
  from assms True fresh show ?thesis
    unfolding md_inv_defs at
    by (auto simp: apply_create_volume_def Let_def)
qed

lemma mapping_op_keys_iff:
  "key \<in> set (mapping_op_keys fmt ms) \<longleftrightarrow> (\<exists>m \<in> set ms. \<exists>op. em_operation_id m = Some op \<and> fmt op = key)"
  by (auto simp: mapping_op_keys_def map_filter_def image_iff) (metis option.sel)+

lemma delete_volume_fields:
  assumes "bt_get (sm_volumes s) (fmt v) = Some vm" "bt_get (sm_extent_mappings s) (fmt v) = Some ms"
  shows "apply_delete_volume fmt v s =
    (RespOk, s\<lparr> sm_volumes := bt_remove (fmt v) (sm_volumes s),
       sm_extent_mappings := bt_remove (fmt v) (sm_extent_mappings s),
       sm_operation_index := fold bt_remove (mapping_op_keys fmt (bt_values ms)) (sm_operation_index s),
       sm_extent_version_index := fold bt_remove (map em_extent_version (bt_values ms)) (sm_extent_version_index s),
       sm_leases := bt_remove (fmt v) (sm_leases s) \<rparr>)"
  using assms by (simp add: apply_delete_volume_def Let_def)

lemma mapping_at_values: "bt_get (sm_extent_mappings s) k = Some ms \<Longrightarrow> mapping_at s k b = Some m \<Longrightarrow> m \<in> set (bt_values ms)"
  by (force simp: mapping_at_def bt_values_def dest: map_of_SomeD)

lemma md_inv_delete_volume:
  assumes inv: "md_inv fmt s"
  shows "md_inv fmt (snd (apply_delete_volume fmt v s))"
proof (cases "bt_get (sm_volumes s) (fmt v)")
  case None
  with inv show ?thesis by (simp add: apply_delete_volume_def)
next
  case (Some vm)
  with inv obtain ms where ms: "bt_get (sm_extent_mappings s) (fmt v) = Some ms"
    unfolding md_inv_def volumes_ok_def by (metis domD domI)
  let ?s' = "snd (apply_delete_volume fmt v s)"
  note fields = delete_volume_fields[of s fmt v, OF Some ms]
  have at: "mapping_at ?s' k b = (if k = fmt v then None else mapping_at s k b)" for k b
    by (simp add: fields mapping_at_def)
  have vols: "volumes_ok fmt ?s'" and maps: "mappings_ok ?s'" and leases: "leases_ok fmt ?s'"
    using inv unfolding md_inv_def volumes_ok_def mappings_ok_def leases_ok_def at
    by (auto simp: fields split: if_splits)
  have "indexes_ok fmt ?s'"
    unfolding indexes_ok_def at
  proof (intro conjI allI impI)
    fix key k b assume "bt_get (sm_operation_index ?s') key = Some (k, b)"
    then have idx: "bt_get (sm_operation_index s) key = Some (k, b)"
      and keep: "key \<notin> set (mapping_op_keys fmt (bt_values ms))"
      by (auto simp: fields bt.get_fold_del split: if_splits)
    from idx inv obtain m op where m: "mapping_at s k b = Some m" "em_operation_id m = Some op" "fmt op = key"
      unfolding md_inv_def indexes_ok_def by blast
    with keep ms have "k \<noteq> fmt v" by (auto simp: mapping_op_keys_iff dest: mapping_at_values)
    with m show "\<exists>m op. (if k = fmt v then None else mapping_at s k b) = Some m \<and> em_operation_id m = Some op \<and> fmt op = key"
      by simp
  next
    fix ver k b assume "bt_get (sm_extent_version_index ?s') ver = Some (k, b)"
    then have idx: "bt_get (sm_extent_version_index s) ver = Some (k, b)"
      and keep: "ver \<notin> em_extent_version ` set (bt_values ms)"
      by (auto simp: fields bt.get_fold_del split: if_splits)
    from idx inv obtain m where m: "mapping_at s k b = Some m" "em_extent_version m = ver"
      unfolding md_inv_def indexes_ok_def by blast
    with keep ms have "k \<noteq> fmt v" by (auto dest: mapping_at_values)
    with m show "\<exists>m. (if k = fmt v then None else mapping_at s k b) = Some m \<and> em_extent_version m = ver"
      by simp
  qed
  with vols maps leases show ?thesis by (simp add: md_inv_def)
qed


lemma commit_cases [consumes 1, case_names error commit]:
  assumes "apply_commit_extent_mapping fmt e s = Some (r, s')"
  obtains err where "r = RespError err" "s' = s"
  | vm ms where "bt_get (sm_volumes s) (fmt (ee_volume_id e)) = Some vm"
      "ee_epoch e = sm_epoch s"
      "bt_get (sm_extent_mappings s) (fmt (ee_volume_id e)) = Some ms" "cas_check e ms = None"
      "r = RespEpoch (sm_epoch s)"
      "s' = s\<lparr> sm_operation_index := sm_operation_index s', sm_extent_version_index := sm_extent_version_index s',
              sm_extent_mappings := bt_insert (fmt (ee_volume_id e))
                (bt_insert (fst (ee_block_range e)) (entry_mapping e) ms) (sm_extent_mappings s) \<rparr>"
      "map_of (sm_operation_index s') =
         (case ee_operation_id e of None \<Rightarrow> id
            | Some op \<Rightarrow> (\<lambda>m. m(fmt op \<mapsto> (fmt (ee_volume_id e), fst (ee_block_range e)))))
         (case Option.bind (bt_get ms (fst (ee_block_range e))) em_operation_id of
            None \<Rightarrow> map_of (sm_operation_index s)
          | Some op \<Rightarrow> (map_of (sm_operation_index s))(fmt op := None))"
      "map_of (sm_extent_version_index s') =
         (case bt_get ms (fst (ee_block_range e)) of
            None \<Rightarrow> map_of (sm_extent_version_index s)
          | Some old \<Rightarrow> (map_of (sm_extent_version_index s))(em_extent_version old := None))
         (ee_extent_version e \<mapsto> (fmt (ee_volume_id e), fst (ee_block_range e)))"
proof -
  consider err where "r = RespError err" "s' = s" | vm ms where
      "bt_get (sm_volumes s) (fmt (ee_volume_id e)) = Some vm"
      "ee_epoch e = sm_epoch s"
      "bt_get (sm_extent_mappings s) (fmt (ee_volume_id e)) = Some ms" "cas_check e ms = None"
    using assms by (auto simp: apply_commit_extent_mapping_def Let_def split: if_splits option.splits)
  then show thesis
  proof cases
    case 1
    then show thesis by (rule that(1))
  next
    case (2 vm ms)
    with assms show thesis
      by (intro that(2)[OF 2])
         (auto simp: apply_commit_extent_mapping_def unindex_existing_def Let_def split: option.splits)
  qed
qed

lemma md_inv_commit:
  assumes inv: "md_inv fmt s" and ap: "apply_commit_extent_mapping fmt e s = Some (r, s')"
  shows "md_inv fmt s'"
  using ap
proof (cases rule: commit_cases)
  case (error err)
  with inv show ?thesis by simp
next
  case (commit vm ms)
  let ?k = "fmt (ee_volume_id e)" and ?b = "fst (ee_block_range e)"
  have fields: "sm_volumes s' = sm_volumes s" "sm_leases s' = sm_leases s" "sm_epoch s' = sm_epoch s"
    "sm_extent_mappings s' = bt_insert ?k (bt_insert ?b (entry_mapping e) ms) (sm_extent_mappings s)"
    by (subst commit(6), simp)+
  have at: "mapping_at s' k b = (if k = ?k \<and> b = ?b then Some (entry_mapping e) else mapping_at s k b)" for k b
    using commit(3) by (auto simp: fields mapping_at_def)
  have old: "mapping_at s ?k ?b = bt_get ms ?b"
    using commit(3) by (simp add: mapping_at_def)
  have "volumes_ok fmt s'" "mappings_ok s'" "leases_ok fmt s'"
    using inv commit(1,2) unfolding md_inv_def volumes_ok_def mappings_ok_def leases_ok_def at fields
    by (auto simp: entry_mapping_def)
  moreover have "indexes_ok fmt s'"
    unfolding indexes_ok_def
  proof (intro conjI allI impI)
    fix key k b assume idx: "bt_get (sm_operation_index s') key = Some (k, b)"
    show "\<exists>m op. mapping_at s' k b = Some m \<and> em_operation_id m = Some op \<and> fmt op = key"
    proof (cases "\<exists>op. ee_operation_id e = Some op \<and> fmt op = key")
      case True
      with idx show ?thesis unfolding commit(7) at by (auto simp: entry_mapping_def)
    next
      case False
      with idx have "bt_get (sm_operation_index s) key = Some (k, b)"
        and kept: "\<And>op. Option.bind (mapping_at s ?k ?b) em_operation_id = Some op \<Longrightarrow> fmt op \<noteq> key"
        unfolding commit(7) old by (auto split: option.splits if_splits)
      with inv obtain m op where "mapping_at s k b = Some m" "em_operation_id m = Some op" "fmt op = key"
        unfolding md_inv_def indexes_ok_def by blast
      with kept[of op] show ?thesis unfolding at by auto
    qed
  next
    fix v k b assume idx: "bt_get (sm_extent_version_index s') v = Some (k, b)"
    show "\<exists>m. mapping_at s' k b = Some m \<and> em_extent_version m = v"
    proof (cases "ee_extent_version e = v")
      case True
      with idx show ?thesis unfolding commit(8) at by (auto simp: entry_mapping_def)
    next
      case False
      with idx have "bt_get (sm_extent_version_index s) v = Some (k, b)"
        and kept: "\<And>m. mapping_at s ?k ?b = Some m \<Longrightarrow> em_extent_version m \<noteq> v"
        unfolding commit(8) old by (auto split: option.splits if_splits)
      with inv obtain m where "mapping_at s k b = Some m" "em_extent_version m = v"
        unfolding md_inv_def indexes_ok_def by blast
      with kept[of m] show ?thesis unfolding at by auto
    qed
  qed
  ultimately show ?thesis by (simp add: md_inv_def)
qed

lemma commit_no_panic:
  "md_inv fmt s \<Longrightarrow> \<exists>r s'. apply_commit_extent_mapping fmt e s = Some (r, s') \<and> md_inv fmt s'"
proof -
  assume inv: "md_inv fmt s"
  have "apply_commit_extent_mapping fmt e s \<noteq> None"
  proof
    assume "apply_commit_extent_mapping fmt e s = None"
    then obtain vm where "bt_get (sm_volumes s) (fmt (ee_volume_id e)) = Some vm"
      "bt_get (sm_extent_mappings s) (fmt (ee_volume_id e)) = None"
      by (auto simp: apply_commit_extent_mapping_def Let_def split: if_splits option.splits)
    with inv show False unfolding md_inv_def volumes_ok_def by (metis domIff option.distinct(1))
  qed
  with inv show ?thesis by (auto dest: md_inv_commit)
qed

lemma batch_no_panic:
  "md_inv fmt s \<Longrightarrow> \<exists>r s'. apply_commit_batch fmt es s = Some (r, s') \<and> md_inv fmt s'"
proof (induction es arbitrary: s)
  case (Cons e es)
  obtain r s' where "apply_commit_extent_mapping fmt e s = Some (r, s')" "md_inv fmt s'"
    using commit_no_panic[OF Cons.prems] by blast
  with Cons.IH show ?case by auto
qed auto

lemma md_inv_leases:
  assumes "md_inv fmt s" "leases_ok fmt s'"
    and "sm_volumes s' = sm_volumes s" "sm_extent_mappings s' = sm_extent_mappings s"
    and "sm_operation_index s' = sm_operation_index s"
    and "sm_extent_version_index s' = sm_extent_version_index s" "sm_epoch s' = sm_epoch s"
  shows "md_inv fmt s'"
  using assms mapping_at_frame[of s' s]
  by (simp add: md_inv_def volumes_ok_def mappings_ok_def indexes_ok_def)

lemma md_inv_lease:
  assumes inv: "md_inv fmt s"
  shows "md_inv fmt (snd (apply_lease fmt req s))"
proof (rule md_inv_leases[OF inv])
  have ok: "leases_ok fmt s" using inv by (simp add: md_inv_def)
  then show "leases_ok fmt (snd (apply_lease fmt req s))"
    unfolding leases_ok_def apply_lease_def
    by (cases req) (auto simp: Let_def split: option.splits)
qed (cases req; auto simp: apply_lease_def Let_def split: option.splits)+

lemma md_inv_cleanup:
  assumes inv: "md_inv fmt s"
  shows "md_inv fmt (snd (apply_cleanup now s))"
proof (rule md_inv_leases[OF inv])
  have ok: "leases_ok fmt s" using inv by (simp add: md_inv_def)
  then show "leases_ok fmt (snd (apply_cleanup now s))"
    by (auto simp: leases_ok_def apply_cleanup_def cleanup_expired_leases_def Let_def bt_get_retain
          split: option.splits if_splits)
qed (simp_all add: apply_cleanup_def cleanup_expired_leases_def Let_def)

lemmas md_inv_steps =
  md_inv_add_node md_inv_remove_node md_inv_create_volume md_inv_delete_volume md_inv_advance_epoch
  md_inv_placement md_inv_lease md_inv_register_node md_inv_disks md_inv_cleanup

lemma apply_request_inv:
  assumes "md_inv fmt s"
  shows "\<exists>r s'. apply_request fmt req s = Some (r, s') \<and> md_inv fmt s'"
proof (cases req)
  case (CommitExtentMapping e)
  with commit_no_panic[OF assms] show ?thesis by simp
next
  case (CommitExtentMappingBatch es)
  with batch_no_panic[OF assms] show ?thesis by simp
qed (auto intro!: exI prod.collapse[symmetric] md_inv_steps[OF assms])

interpretation md: state_machine "apply_request fmt" "md_inv fmt" for fmt
  by unfold_locales (rule apply_request_inv)

lemma md_inv_default: "md_inv fmt md_default"
  by (simp add: md_inv_defs md_default_def mapping_at_def)

end
