(* ===== verification/MetadataProps.thy ===== *)
theory MetadataProps
  imports MetadataInv
begin

text \<open>
  What the metadata state machine guarantees over whole command histories: no panic, exact outcome
  of an extent-mapping commit, soundness of the indexes, epoch monotonicity, lease exclusivity and
  fencing, stability of Raft node numbers, and what a failing batch leaves behind. The counters are
  64 bits wide, so the facts about them speak of histories shorter than \<^verbatim>\<open>2 ^ 64\<close> commands.
\<close>

section \<open>Frame facts\<close>

lemma commit_frame:
  assumes "apply_commit_extent_mapping fmt e s = Some (r, s')"
  shows "sm_leases s' = sm_leases s" "sm_lease_version_counter s' = sm_lease_version_counter s"
    "sm_node_raft_map s' = sm_node_raft_map s" "sm_raft_id_counter s' = sm_raft_id_counter s"
    "sm_epoch s' = sm_epoch s" "sm_volumes s' = sm_volumes s"
  using assms by (auto simp: apply_commit_extent_mapping_def unindex_existing_def Let_def
      split: if_splits option.splits)

lemma batch_frame:
  assumes "apply_commit_batch fmt es s = Some (r, s')"
  shows "sm_leases s' = sm_leases s \<and> sm_lease_version_counter s' = sm_lease_version_counter s \<and>
    sm_node_raft_map s' = sm_node_raft_map s \<and> sm_raft_id_counter s' = sm_raft_id_counter s \<and>
    sm_epoch s' = sm_epoch s \<and> sm_volumes s' = sm_volumes s"
  using assms
proof (induction es arbitrary: s)
  case (Cons e es)
  then show ?case by (auto split: option.splits if_splits simp: commit_frame)
qed simp

lemma lease_frame:
  assumes "apply_lease fmt q s = (r, s')"
  shows "sm_node_raft_map s' = sm_node_raft_map s" "sm_raft_id_counter s' = sm_raft_id_counter s"
    "sm_epoch s' = sm_epoch s" "sm_volumes s' = sm_volumes s"
  using assms by (cases q; auto simp: apply_lease_def Let_def split: option.splits if_splits)+

lemmas simple_request_defs =
  apply_add_node_def apply_remove_node_def apply_create_volume_def apply_delete_volume_def
  apply_advance_epoch_def apply_update_placement_map_def apply_register_node_def
  apply_register_disk_def apply_update_disk_usage_def apply_deregister_disk_def
  apply_cleanup_def cleanup_expired_leases_def Let_def

lemma apply_request_epoch:
  "apply_request fmt req s = Some (r, s') \<Longrightarrow> sm_epoch s \<le> sm_epoch s'"
  by (cases req)
     (auto simp: simple_request_defs lease_frame dest: commit_frame batch_frame
        split: option.splits sum.splits if_splits)

lemma apply_request_raft:
  "apply_request fmt req s = Some (r, s') \<Longrightarrow>
     sm_node_raft_map s' = sm_node_raft_map s \<and> sm_raft_id_counter s' = sm_raft_id_counter s \<or>
     (\<exists>n. bt_get (sm_node_raft_map s) n = None \<and>
        sm_raft_id_counter s' = sm_raft_id_counter s + 1 \<and>
        sm_node_raft_map s' = bt_insert n (sm_raft_id_counter s + 1) (sm_node_raft_map s))"
  by (cases req)
     (auto simp: simple_request_defs lease_frame dest: commit_frame batch_frame
        split: option.splits sum.splits if_splits)

lemma apply_request_leases:
  assumes "md_inv fmt s" "apply_request fmt req s = Some (r, s')"
  shows "sm_lease_version_counter s' = sm_lease_version_counter s \<and>
       (\<forall>k l. bt_get (sm_leases s') k = Some l \<longrightarrow> bt_get (sm_leases s) k = Some l) \<or>
     (\<exists>k l. sm_lease_version_counter s' = sm_lease_version_counter s + 1 \<and>
        sm_leases s' = bt_insert k l (sm_leases s) \<and> vl_lease_version l = sm_lease_version_counter s + 1)"
proof -
  have wf: "bt_wf (sm_leases s)" using assms(1) by (simp add: md_inv_def leases_ok_def)
  show ?thesis
  proof (cases req)
    case (Lease q)
    with assms(2) show ?thesis
      by (cases q) (fastforce simp: apply_lease_def Let_def split: option.splits if_splits)+
  next
    case (CleanupExpiredLeases now)
    with assms(2) wf show ?thesis
      by (auto simp: simple_request_defs bt_get_retain split: option.splits if_splits)
  qed (use assms(2) in \<open>auto simp: simple_request_defs dest: commit_frame batch_frame
        split: option.splits sum.splits if_splits\<close>)
qed


interpretation md_epoch: monotone_machine "apply_request fmt" "md_inv fmt" sm_epoch for fmt
  by unfold_locales (rule apply_request_epoch)

section \<open>Raft node numbers\<close>

definition raft_ids_ok :: "'z md \<Rightarrow> bool" where
  "raft_ids_ok s \<longleftrightarrow> bt_wf (sm_node_raft_map s) \<and>
     (\<forall>n i. bt_get (sm_node_raft_map s) n = Some i \<longrightarrow> i \<le> sm_raft_id_counter s) \<and>
     (\<forall>n n' i. bt_get (sm_node_raft_map s) n = Some i \<longrightarrow> bt_get (sm_node_raft_map s) n' = Some i \<longrightarrow> n = n')"

lemma unat_succ: "unat c + 1 < 2 ^ 64 \<Longrightarrow> unat (c + 1 :: u64) = unat c + 1"
  by (simp add: unat_word_ariths)

lemma succ_gt: "unat c + 1 < 2 ^ 64 \<Longrightarrow> (c::u64) < c + 1"
  by (simp add: word_less_nat_alt unat_succ)

interpretation md_raft: counting_machine "apply_request fmt" "md_inv fmt"
  "\<lambda>s. unat (sm_raft_id_counter s)" "2 ^ 64" raft_ids_ok for fmt
proof
  fix s :: "'z md" and req r s'
  assume ok: "raft_ids_ok s" and room: "unat (sm_raft_id_counter s) + 1 < 2 ^ 64"
    and ap: "apply_request fmt req s = Some (r, s')"
  have fresh: "i < sm_raft_id_counter s + 1" if "bt_get (sm_node_raft_map s) n = Some i" for n i
    using ok that succ_gt[OF room] unfolding raft_ids_ok_def by (meson le_less_trans)
  from apply_request_raft[OF ap] show "raft_ids_ok s' \<and>
      unat (sm_raft_id_counter s') \<le> unat (sm_raft_id_counter s) + 1"
  proof (elim disjE conjE exE)
    fix n assume "bt_get (sm_node_raft_map s) n = None"
      "sm_raft_id_counter s' = sm_raft_id_counter s + 1"
      "sm_node_raft_map s' = bt_insert n (sm_raft_id_counter s + 1) (sm_node_raft_map s)"
    with ok room show ?thesis
      by (auto simp: raft_ids_ok_def unat_succ split: if_splits intro: less_imp_le[OF fresh])
         (metis fresh order_less_irrefl)+
  qed (use ok in \<open>simp add: raft_ids_ok_def\<close>)
qed

lemma run_get_raft_id:
  "run_steps (apply_request fmt) cs s = Some (rs, s') \<Longrightarrow> get_raft_id s n = Some i \<Longrightarrow>
   get_raft_id s' n = Some i"
proof (induction cs arbitrary: s rs)
  case (Cons c cs)
  from Cons.prems obtain r t rs' where st: "apply_request fmt c s = Some (r, t)"
    and rest: "run_steps (apply_request fmt) cs t = Some (rs', s')"
    by (auto split: option.splits)
  from apply_request_raft[OF st] Cons.prems(2) have "get_raft_id t n = Some i"
    by (auto simp: get_raft_id_def)
  with Cons.IH rest show ?case by blast
qed simp

lemma raft_id_inverse:
  assumes "raft_ids_ok s" "get_raft_id s n = Some i"
  shows "get_node_id_by_raft_id s i = Some n"
proof -
  obtain kv where kv: "find (\<lambda>(_, v). v = i) (sm_node_raft_map s) = Some kv"
    using assms(2) by (cases "find (\<lambda>(_, v). v = i) (sm_node_raft_map s)")
      (auto simp: get_raft_id_def find_None_iff dest: map_of_SomeD)
  then have "(fst kv, i) \<in> set (sm_node_raft_map s)"
    by (auto simp: find_Some_iff) (metis nth_mem prod.collapse)
  then have "bt_get (sm_node_raft_map s) (fst kv) = Some i"
    using assms(1) by (simp add: raft_ids_ok_def bt_get_iff)
  with assms kv show ?thesis
    by (auto simp: raft_ids_ok_def get_raft_id_def get_node_id_by_raft_id_def)
qed

section \<open>Lease fencing\<close>

definition fenced :: "(uuid \<Rightarrow> string) \<Rightarrow> VolumeId \<Rightarrow> LeaseVersion \<Rightarrow> 'z md \<Rightarrow> bool" where
  "fenced fmt v ver s \<longleftrightarrow> ver \<le> sm_lease_version_counter s \<and>
     (\<forall>l. get_lease fmt s v = Some l \<longrightarrow> vl_lease_version l \<noteq> ver)"

definition lease_versions_ok :: "'z md \<Rightarrow> bool" where
  "lease_versions_ok s \<longleftrightarrow>
     (\<forall>k l. bt_get (sm_leases s) k = Some l \<longrightarrow> vl_lease_version l \<le> sm_lease_version_counter s) \<and>
     (\<forall>k k' l l'. bt_get (sm_leases s) k = Some l \<longrightarrow> bt_get (sm_leases s) k' = Some l' \<longrightarrow>
        vl_lease_version l = vl_lease_version l' \<longrightarrow> k = k')"

interpretation md_fence: counting_machine "apply_request fmt" "md_inv fmt"
  "\<lambda>s. unat (sm_lease_version_counter s)" "2 ^ 64" "fenced fmt v ver" for fmt v ver
proof
  fix s :: "'z md" and req r s'
  assume inv: "md_inv fmt s" and f: "fenced fmt v ver s"
    and room: "unat (sm_lease_version_counter s) + 1 < 2 ^ 64"
    and ap: "apply_request fmt req s = Some (r, s')"
  from f succ_gt[OF room] have "ver < sm_lease_version_counter s + 1"
    unfolding fenced_def by (meson le_less_trans)
  with apply_request_leases[OF inv ap] f room show "fenced fmt v ver s' \<and>
      unat (sm_lease_version_counter s') \<le> unat (sm_lease_version_counter s) + 1"
    by (auto simp: fenced_def get_lease_def unat_succ split: if_splits)
qed

interpretation md_lease: counting_machine "apply_request fmt" "md_inv fmt"
  "\<lambda>s. unat (sm_lease_version_counter s)" "2 ^ 64" lease_versions_ok for fmt
proof
  fix s :: "'z md" and req r s'
  assume inv: "md_inv fmt s" and ok: "lease_versions_ok s"
    and room: "unat (sm_lease_version_counter s) + 1 < 2 ^ 64"
    and ap: "apply_request fmt req s = Some (r, s')"
  have fresh: "vl_lease_version l < sm_lease_version_counter s + 1" if "bt_get (sm_leases s) k = Some l" for k l
    using ok that succ_gt[OF room] unfolding lease_versions_ok_def by (meson le_less_trans)
  from apply_request_leases[OF inv ap] show "lease_versions_ok s' \<and>
      unat (sm_lease_version_counter s') \<le> unat (sm_lease_version_counter s) + 1"
  proof (elim disjE conjE exE)
    assume "sm_lease_version_counter s' = sm_lease_version_counter s"
      and "\<forall>k l. bt_get (sm_leases s') k = Some l \<longrightarrow> bt_get (sm_leases s) k = Some l"
    with ok show ?thesis unfolding lease_versions_ok_def by (metis le_add1)
  next
    fix k l assume "sm_lease_version_counter s' = sm_lease_version_counter s + 1"
      "sm_leases s' = bt_insert k l (sm_leases s)" "vl_lease_version l = sm_lease_version_counter s + 1"
    with ok room show ?thesis
      by (auto simp: lease_versions_ok_def unat_succ split: if_splits intro: less_imp_le[OF fresh])
         (metis fresh order_less_irrefl)+
  qed
qed

lemma fenced_not_valid: "fenced fmt v ver s \<Longrightarrow> validate_lease fmt s v sess ver now \<noteq> Inr ()"
  by (auto simp: fenced_def validate_lease_def get_lease_def split: option.split)



section \<open>Reachable states\<close>

definition reachable_md :: "(uuid \<Rightarrow> string) \<Rightarrow> MetadataStateMachineData \<Rightarrow> bool" where
  "reachable_md fmt s \<longleftrightarrow> (\<exists>cs rs. run_steps (apply_request fmt) cs md_default = Some (rs, s))"

definition commit_allowed :: "(uuid \<Rightarrow> string) \<Rightarrow> ExtentMappingEntry \<Rightarrow> 'z md \<Rightarrow> bool" where
  "commit_allowed fmt e s \<longleftrightarrow>
     get_volume fmt s (ee_volume_id e) \<noteq> None \<and> ee_epoch e = sm_epoch s \<and>
     (case ee_previous_version e of
        None \<Rightarrow> True
      | Some p \<Rightarrow> p = (case mapping_at s (fmt (ee_volume_id e)) (fst (ee_block_range e)) of
                         None \<Rightarrow> 0 | Some m \<Rightarrow> em_extent_version m))"

definition keeps_lease :: "VolumeId \<Rightarrow> SessionId \<Rightarrow> u64 \<Rightarrow> MetadataRequest \<Rightarrow> bool" where
  "keeps_lease v sess expires req \<longleftrightarrow>
     (case req of
        DeleteVolume w \<Rightarrow> w \<noteq> v
      | Lease (Acquire w s now ttl) \<Rightarrow> w = v \<longrightarrow> s \<noteq> sess \<and> now < expires
      | Lease (Renew w s now ttl) \<Rightarrow> w = v \<longrightarrow> s \<noteq> sess
      | Lease (Release w s) \<Rightarrow> w = v \<longrightarrow> s \<noteq> sess
      | CleanupExpiredLeases now \<Rightarrow> now < expires
      | _ \<Rightarrow> True)"

lemma reachable_inv: "reachable_md fmt s \<Longrightarrow> md_inv fmt s"
proof -
  assume "reachable_md fmt s"
  then obtain cs rs where "run_steps (apply_request fmt) cs md_default = Some (rs, s)"
    by (auto simp: reachable_md_def)
  with md.run_inv[OF md_inv_default, of fmt cs] show ?thesis by auto
qed

lemma cas_check_None:
  "bt_get (sm_extent_mappings s) (fmt (ee_volume_id e)) = Some ms \<Longrightarrow>
   cas_check e ms = None \<longleftrightarrow>
     (case ee_previous_version e of
        None \<Rightarrow> True
      | Some p \<Rightarrow> p = (case mapping_at s (fmt (ee_volume_id e)) (fst (ee_block_range e)) of
                         None \<Rightarrow> 0 | Some m \<Rightarrow> em_extent_version m))"
  by (auto simp: cas_check_def mapping_at_def split: option.splits)

lemma commit_allowed_iff:
  assumes "md_inv fmt s" "apply_commit_extent_mapping fmt e s = Some (r, s')"
  shows "commit_allowed fmt e s \<longleftrightarrow> \<not> resp_is_error r"
proof (cases "bt_get (sm_extent_mappings s) (fmt (ee_volume_id e))")
  case None
  with assms(1) have "bt_get (sm_volumes s) (fmt (ee_volume_id e)) = None"
    unfolding md_inv_def volumes_ok_def by (metis domIff)
  with assms(2) show ?thesis
    by (auto simp: commit_allowed_def get_volume_def apply_commit_extent_mapping_def resp_is_error_def)
next
  case (Some ms)
  from assms(2) show ?thesis
    unfolding commit_allowed_def cas_check_None[of s fmt e, OF Some, symmetric]
    by (auto simp: get_volume_def apply_commit_extent_mapping_def Let_def resp_is_error_def Some
          split: if_splits option.splits)
qed

lemma commit_success_all:
  assumes "apply_commit_extent_mapping fmt e s = Some (r, s')" "\<not> resp_is_error r"
  shows "r = RespEpoch (sm_epoch s) \<and>
    (\<forall>k b. mapping_at s' k b = (if k = fmt (ee_volume_id e) \<and> b = fst (ee_block_range e)
                              then Some (entry_mapping e) else mapping_at s k b)) \<and>
    lookup_by_extent_version s' (ee_extent_version e) = Some (entry_mapping e) \<and>
    (\<forall>op. ee_operation_id e = Some op \<longrightarrow> lookup_by_operation_id fmt s' op = Some (entry_mapping e))"
  using assms(1)
proof (cases rule: commit_cases)
  case (error err)
  with assms(2) show ?thesis by (simp add: resp_is_error_def)
next
  case (commit vm ms)
  have maps: "sm_extent_mappings s' = bt_insert (fmt (ee_volume_id e))
      (bt_insert (fst (ee_block_range e)) (entry_mapping e) ms) (sm_extent_mappings s)"
    by (subst commit(6), simp)
  have at: "mapping_at s' k b = (if k = fmt (ee_volume_id e) \<and> b = fst (ee_block_range e)
                              then Some (entry_mapping e) else mapping_at s k b)" for k b
    using commit(3) by (auto simp: mapping_at_def maps)
  show ?thesis
    by (intro conjI allI impI commit(5) at)
       (simp_all add: lookup_by_extent_version_def lookup_by_operation_id_def commit(7,8) at)
qed

lemma commit_error_same:
  "apply_commit_extent_mapping fmt e s = Some (r, s') \<Longrightarrow> resp_is_error r \<Longrightarrow> s' = s"
  by (auto simp: apply_commit_extent_mapping_def Let_def resp_is_error_def split: if_splits option.splits)

lemma batch_after_prefix:
  assumes "run_steps (apply_request fmt) (map CommitExtentMapping es) s = Some (rs, t)"
    and "\<forall>r \<in> set rs. \<not> resp_is_error r"
  shows "apply_commit_batch fmt (es @ ds) s = apply_commit_batch fmt ds t"
  using assms
proof (induction es arbitrary: s rs)
  case (Cons e es)
  then show ?case by (auto split: option.splits)
qed simp

lemma leases_untouched:
  assumes "apply_request fmt req s = Some (r, s')"
    and "\<And>w. req \<noteq> DeleteVolume w" "\<And>q. req \<noteq> Lease q" "\<And>now. req \<noteq> CleanupExpiredLeases now"
  shows "sm_leases s' = sm_leases s"
  using assms
  by (cases req) (auto simp: simple_request_defs commit_frame dest: batch_frame
        split: option.splits sum.splits if_splits)

lemma lease_kept_step:
  assumes inj: "inj fmt" and inv: "md_inv fmt s" and l: "get_lease fmt s v = Some l"
    and keep: "keeps_lease v (vl_holder l) (vl_expires_at_ms l) req"
    and ap: "apply_request fmt req s = Some (r, s')"
  shows "get_lease fmt s' v = Some l"
proof (cases req)
  case (Lease q)
  with l keep ap show ?thesis
    by (cases q) (auto simp: apply_lease_def Let_def get_lease_def keeps_lease_def is_held_by_def is_expired_def
        inj_eq[OF inj] not_le split: option.splits if_splits)
next
  case (CleanupExpiredLeases now)
  moreover have "bt_wf (sm_leases s)" using inv by (simp add: md_inv_def leases_ok_def)
  ultimately show ?thesis using l keep ap
    by (auto simp: simple_request_defs get_lease_def bt_get_retain keeps_lease_def is_expired_def)
next
  case (DeleteVolume w)
  with l keep ap show ?thesis
    by (auto simp: simple_request_defs get_lease_def keeps_lease_def inj_eq[OF inj] split: option.splits)
qed (use l leases_untouched[OF ap] in \<open>auto simp: get_lease_def\<close>)


section \<open>Properties\<close>

text \<open>
  C5: The metadata state machine is total: whatever commands the log holds, applying them in order
  to the initial state answers every command, never reaches the panic of the extent-mapping lookup,
  and ends in a state that satisfies the invariant.
\<close>

theorem metadata_run_total:
  "\<exists>rs s. run_steps (apply_request fmt) cs md_default = Some (rs, s) \<and>
     length rs = length cs \<and> md_inv fmt s"
  using md.run_inv[OF md_inv_default, of fmt cs] by auto

lemma commit_success_frame:
  assumes "apply_commit_extent_mapping fmt e s = Some (r, s')" "\<not> resp_is_error r"
  shows "s'\<lparr> sm_extent_mappings := sm_extent_mappings s, sm_operation_index := sm_operation_index s,
           sm_extent_version_index := sm_extent_version_index s \<rparr> = s"
  using assms
  by (auto simp: apply_commit_extent_mapping_def unindex_existing_def resp_is_error_def Let_def
      split: if_splits option.splits)

lemma commit_success_indices:
  assumes "apply_commit_extent_mapping fmt e s = Some (r, s')" "\<not> resp_is_error r"
    and "old = mapping_at s (fmt (ee_volume_id e)) (fst (ee_block_range e))"
  shows "bt_get (sm_operation_index s') k =
      (if map_option fmt (ee_operation_id e) = Some k then Some (fmt (ee_volume_id e), fst (ee_block_range e))
       else if map_option fmt (Option.bind old em_operation_id) = Some k then None
       else bt_get (sm_operation_index s) k)"
    and "bt_get (sm_extent_version_index s') ver =
      (if ver = ee_extent_version e then Some (fmt (ee_volume_id e), fst (ee_block_range e))
       else if map_option em_extent_version old = Some ver then None
       else bt_get (sm_extent_version_index s) ver)"
  using assms
  by (auto simp: apply_commit_extent_mapping_def unindex_existing_def resp_is_error_def mapping_at_def Let_def
      split: if_splits option.splits)

text \<open>
  C6: A commit of an extent mapping is an exact compare-and-swap. It is accepted if and only if the
  volume exists, the request's epoch is the current one and the expected previous version (0 for no
  mapping), where one is given, is the one stored. Then the epoch is returned, the mapping is readable
  under its volume and start block, under its operation id and under its version, and every other
  mapping is as before; each of the two indices gains the new entry, loses the one under the operation
  id or version of the replaced mapping, and keeps all others; the rest of the state is unchanged.
  Otherwise the answer is an error and the state is unchanged.
\<close>

theorem commit_extent_mapping_outcome:
  assumes "reachable_md fmt s" "old = mapping_at s (fmt (ee_volume_id e)) (fst (ee_block_range e))"
  shows "\<exists>r s'. apply_request fmt (CommitExtentMapping e) s = Some (r, s') \<and>
    (if commit_allowed fmt e s then
       r = RespEpoch (sm_epoch s) \<and>
       (\<forall>k b. mapping_at s' k b =
          (if k = fmt (ee_volume_id e) \<and> b = fst (ee_block_range e)
           then Some (entry_mapping e) else mapping_at s k b)) \<and>
       lookup_by_extent_version s' (ee_extent_version e) = Some (entry_mapping e) \<and>
       (\<forall>op. ee_operation_id e = Some op \<longrightarrow> lookup_by_operation_id fmt s' op = Some (entry_mapping e)) \<and>
       (\<forall>k. bt_get (sm_operation_index s') k =
          (if map_option fmt (ee_operation_id e) = Some k then Some (fmt (ee_volume_id e), fst (ee_block_range e))
           else if map_option fmt (Option.bind old em_operation_id) = Some k then None
           else bt_get (sm_operation_index s) k)) \<and>
       (\<forall>ver. bt_get (sm_extent_version_index s') ver =
          (if ver = ee_extent_version e then Some (fmt (ee_volume_id e), fst (ee_block_range e))
           else if map_option em_extent_version old = Some ver then None
           else bt_get (sm_extent_version_index s) ver)) \<and>
       s'\<lparr> sm_extent_mappings := sm_extent_mappings s, sm_operation_index := sm_operation_index s,
           sm_extent_version_index := sm_extent_version_index s \<rparr> = s
     else resp_is_error r \<and> s' = s)"
proof -
  note inv = reachable_inv[OF assms(1)]
  obtain r s' where ap: "apply_commit_extent_mapping fmt e s = Some (r, s')"
    using commit_no_panic[OF inv] by blast
  show ?thesis
  proof (cases "commit_allowed fmt e s")
    case True
    then have ok: "\<not> resp_is_error r" using commit_allowed_iff[OF inv ap] by simp
    show ?thesis
      using True ap commit_success_all[OF ap ok] commit_success_frame[OF ap ok] commit_success_indices[OF ap ok assms(2)]
      by (intro exI[of _ r] exI[of _ s']) simp
  next
    case False
    then show ?thesis using ap commit_allowed_iff[OF inv ap] commit_error_same[OF ap] by auto
  qed
qed

definition demo_volume :: MetadataRequest where
  "demo_volume = CreateVolume 1 1048576 (Replicated 3) 524288"

definition demo_entry :: "u64 \<Rightarrow> u64 \<Rightarrow> ExtentMappingEntry" where
  "demo_entry start version =
     \<lparr> ee_volume_id = 1, ee_block_range = (start, start + 128), ee_extent_id = 7,
       ee_extent_version = version, ee_epoch = 0, ee_replica_locations = [10, 11, 12],
       ee_checksums = [], ee_operation_id = Some 5, ee_previous_version = Some 0 \<rparr>"

definition demo_state :: MetadataStateMachineData where
  "demo_state = snd (the (run_steps (apply_request unary_text) [demo_volume] md_default))"

lemma reachable_run: "reachable_md fmt (snd (the (run_steps (apply_request fmt) cs md_default)))"
  unfolding reachable_md_def using md.run_inv[OF md_inv_default, of fmt cs]
  by (metis option.sel snd_conv)

lemma reachable_demo: "reachable_md unary_text demo_state"
  unfolding demo_state_def by (rule reachable_run)

lemma demo_allowed: "commit_allowed unary_text (demo_entry 0 1) demo_state"
  by (simp add: commit_allowed_def demo_state_def demo_volume_def demo_entry_def md_default_def
        apply_create_volume_def Let_def get_volume_def mapping_at_def unary_text_def)

theorem commit_extent_mapping_outcome_witness:
  "\<exists>s'. apply_request unary_text (CommitExtentMapping (demo_entry 0 1)) demo_state = Some (RespEpoch (sm_epoch demo_state), s') \<and>
     lookup_by_operation_id unary_text s' 5 = Some (entry_mapping (demo_entry 0 1))"
  using commit_extent_mapping_outcome[OF reachable_demo refl, of "demo_entry 0 1"] demo_allowed
  by (auto simp: demo_entry_def)

text \<open>
  C10: The two indexes never lie: in every reachable state a mapping found by operation id carries
  that operation id and a mapping found by extent version carries that version.
\<close>

theorem index_lookups_sound:
  assumes "inj fmt" "reachable_md fmt s"
  shows "(lookup_by_operation_id fmt s op = Some m \<longrightarrow> em_operation_id m = Some op) \<and>
         (lookup_by_extent_version s ver = Some m \<longrightarrow> em_extent_version m = ver)"
  using reachable_inv[OF assms(2)] assms(1)
  unfolding md_inv_def indexes_ok_def lookup_by_operation_id_def lookup_by_extent_version_def
  by (auto simp: bind_eq_Some_conv) (metis injD option.inject)+

definition demo_committed :: MetadataStateMachineData where
  "demo_committed =
     snd (the (run_steps (apply_request unary_text)
       [demo_volume, CommitExtentMapping (demo_entry 0 1), CommitExtentMapping (demo_entry 128 2)] md_default))"

lemma reachable_committed: "reachable_md unary_text demo_committed"
  unfolding demo_committed_def by (rule reachable_run)

lemma demo_committed_lookup:
  "lookup_by_operation_id unary_text demo_committed 5 = Some (entry_mapping (demo_entry 128 2))"
  "lookup_by_extent_version demo_committed 2 = Some (entry_mapping (demo_entry 128 2))"
  "sm_epoch demo_committed = 0"
  by code_simp+

theorem index_lookups_sound_witness:
  "lookup_by_operation_id unary_text demo_committed 5 = Some (entry_mapping (demo_entry 128 2)) \<and>
   em_operation_id (entry_mapping (demo_entry 128 2)) = Some 5"
  using index_lookups_sound[OF inj_unary_text reachable_committed, of 5 "entry_mapping (demo_entry 128 2)"]
    demo_committed_lookup(1) by simp

text \<open>
  C14: The placement epoch never decreases along a history, and no committed mapping or volume is
  stamped with an epoch from the future.
\<close>

theorem epoch_monotone:
  assumes "reachable_md fmt s" "run_steps (apply_request fmt) cs s = Some (rs, s')"
  shows "sm_epoch s \<le> sm_epoch s' \<and>
    (\<forall>k b m. mapping_at s' k b = Some m \<longrightarrow> em_epoch m \<le> sm_epoch s') \<and>
    (\<forall>k v. bt_get (sm_volumes s') k = Some v \<longrightarrow> vm_created_at_epoch v \<le> sm_epoch s')"
proof -
  note inv = reachable_inv[OF assms(1)]
  have "md_inv fmt s'" using md.run_inv[OF inv, of cs] assms(2) by auto
  with md_epoch.run_level[OF inv assms(2)] show ?thesis
    unfolding md_inv_def mappings_ok_def volumes_ok_def by blast
qed

definition demo_advanced :: MetadataStateMachineData where
  "demo_advanced = demo_committed\<lparr> sm_epoch := 2 \<rparr>"

theorem epoch_monotone_witness:
  "run_steps (apply_request unary_text) [AdvanceEpoch, AdvanceEpoch] demo_committed =
     Some ([RespEpoch 1, RespEpoch 2], demo_advanced) \<and> sm_epoch demo_committed \<le> sm_epoch demo_advanced"
proof -
  have "run_steps (apply_request unary_text) [AdvanceEpoch, AdvanceEpoch] demo_committed =
     Some ([RespEpoch 1, RespEpoch 2], demo_advanced)"
    by (simp add: apply_advance_epoch_def demo_advanced_def demo_committed_lookup(3) saturating_add_def)
  with epoch_monotone[OF reachable_committed this] show ?thesis by blast
qed

text \<open>
  C15: Raft node numbers are stable and unambiguous: in a history of fewer than \<^verbatim>\<open>2 ^ 64\<close> commands,
  a node's number survives every later command (removal of the node included), and the reverse
  lookup of that number gives back exactly that node.
\<close>

theorem raft_ids_stable:
  assumes "run_steps (apply_request fmt) cs md_default = Some (rs, s)" "get_raft_id s n = Some i"
    and "run_steps (apply_request fmt) ds s = Some (rs', s')" "length cs + length ds < 2 ^ 64"
  shows "get_raft_id s' n = Some i \<and> get_node_id_by_raft_id s' i = Some n"
proof -
  have run: "run_steps (apply_request fmt) (cs @ ds) md_default = Some (rs @ rs', s')"
    using assms(1,3) by (simp add: run_steps_append)
  have "raft_ids_ok s'"
    using md_raft.run_count[OF md_inv_default _ _ run] assms(4)
    by (simp add: raft_ids_ok_def md_default_def)
  with run_get_raft_id[OF assms(3,2)] show ?thesis
    by (simp add: raft_id_inverse)
qed

theorem raft_ids_stable_witness:
  "\<exists>s s' rs rs'. run_steps (apply_request unary_text) [RegisterNode 3 ''a:1'', RegisterNode 4 ''b:1''] md_default = Some (rs, s) \<and>
     run_steps (apply_request unary_text) [RemoveNode 3, RegisterNode 3 ''c:1''] s = Some (rs', s') \<and>
     get_raft_id s' 3 = Some 1 \<and> get_node_id_by_raft_id s' 1 = Some 3"
proof -
  obtain rs s where r1: "run_steps (apply_request unary_text) [RegisterNode 3 ''a:1'', RegisterNode 4 ''b:1''] md_default = Some (rs, s)"
    and inv: "md_inv unary_text s"
    using md.run_inv[OF md_inv_default] by blast
  obtain rs' s' where r2: "run_steps (apply_request unary_text) [RemoveNode 3, RegisterNode 3 ''c:1''] s = Some (rs', s')"
    using md.run_inv[OF inv] by blast
  have id: "get_raft_id s 3 = Some 1"
    using r1 by (auto simp: apply_register_node_def md_default_def get_raft_id_def Let_def)
  show ?thesis using raft_ids_stable[OF r1 id r2] r1 r2 by auto
qed

text \<open>
  C7: Lease versions fence for good. Once a version that was handed out is no longer the version of
  the lease a volume holds (the lease was renewed, taken over, released, expired and cleaned up, or
  the volume was deleted), that version never again validates for the volume, for no session and at
  no time, in any continuation with fewer than \<^verbatim>\<open>2 ^ 64\<close> commands in all.
\<close>

theorem stale_lease_version_fenced:
  assumes "run_steps (apply_request fmt) cs md_default = Some (rs, s)"
    and "ver \<le> sm_lease_version_counter s"
    and "\<forall>l. get_lease fmt s v = Some l \<longrightarrow> vl_lease_version l \<noteq> ver"
    and "run_steps (apply_request fmt) ds s = Some (rs', s')" "length cs + length ds < 2 ^ 64"
  shows "validate_lease fmt s' v sess ver now \<noteq> Inr ()"
proof -
  have inv: "md_inv fmt s" using md.run_inv[OF md_inv_default, of fmt cs] assms(1) by auto
  have "unat (sm_lease_version_counter s) \<le> length cs"
    using md_lease.run_count[OF md_inv_default _ _ assms(1)] assms(5)
    by (simp add: lease_versions_ok_def md_default_def)
  then have "fenced fmt v ver s'"
    using md_fence.run_count[OF inv _ _ assms(4), of v ver] assms(2,3,5) by (simp add: fenced_def)
  then show ?thesis by (rule fenced_not_valid)
qed

definition demo_takeover :: "MetadataRequest list" where
  "demo_takeover = [demo_volume, Lease (Acquire 1 20 0 30), Lease (Acquire 1 21 30 30)]"

theorem stale_lease_version_fenced_witness:
  "\<exists>rs s. run_steps (apply_request unary_text) demo_takeover md_default = Some (rs, s) \<and>
     validate_lease unary_text s 1 20 1 29 \<noteq> Inr ()"
proof -
  obtain rs s where r: "run_steps (apply_request unary_text) demo_takeover md_default = Some (rs, s)"
    using md.run_inv[OF md_inv_default] by blast
  have "1 \<le> sm_lease_version_counter s" "\<forall>l. get_lease unary_text s 1 = Some l \<longrightarrow> vl_lease_version l \<noteq> 1"
    using r by (auto simp: demo_takeover_def demo_volume_def apply_create_volume_def apply_lease_def Let_def
        md_default_def is_expired_def is_held_by_def get_lease_def)
  then have "validate_lease unary_text s 1 20 1 29 \<noteq> Inr ()"
    using stale_lease_version_fenced[OF r, of 1 1 "[]" "[]" s 20 29] by (simp add: demo_takeover_def)
  with r show ?thesis by blast
qed

lemma acquire_granted:
  assumes "apply_request fmt (Lease (Acquire v sess now ttl)) s = Some (RespLease (Granted ver expires), s')"
  shows "expires = now + ttl"
    and "bt_get (sm_leases s') (fmt v) = Some \<lparr> vl_volume_id = v, vl_holder = sess, vl_granted_at_ms = now,
           vl_expires_at_ms = now + ttl, vl_lease_version = ver \<rparr>"
    and "bt_get (sm_leases s) (fmt v) = Some l \<Longrightarrow> is_expired l now \<or> is_held_by l sess"
  using assms by (auto simp: apply_lease_def Let_def split: if_splits option.splits)

text \<open>
  C8: A granted lease is exclusive. When a session is granted the lease of a volume, no other
  session's lease was valid at that moment; afterwards no other session validates at any time, and
  the new holder validates with the granted version exactly until the returned expiry.
\<close>

theorem acquire_exclusive:
  assumes "apply_request fmt (Lease (Acquire v sess now ttl)) s = Some (RespLease (Granted ver expires), s')"
  shows "expires = now + ttl \<and>
    (\<forall>other ver'. other \<noteq> sess \<longrightarrow> validate_lease fmt s v other ver' now \<noteq> Inr ()) \<and>
    (\<forall>other ver' t. other \<noteq> sess \<longrightarrow> validate_lease fmt s' v other ver' t \<noteq> Inr ()) \<and>
    (\<forall>t. validate_lease fmt s' v sess ver t = Inr () \<longleftrightarrow> t < expires)"
  using acquire_granted[OF assms]
  by (auto simp: validate_lease_def is_held_by_def is_expired_def not_le split: option.splits)

theorem acquire_exclusive_witness:
  "\<exists>s'. apply_request unary_text (Lease (Acquire 1 20 100 30)) demo_state = Some (RespLease (Granted 1 130), s') \<and>
     validate_lease unary_text s' 1 20 1 129 = Inr ()"
proof -
  obtain s' where a: "apply_request unary_text (Lease (Acquire 1 20 100 30)) demo_state = Some (RespLease (Granted 1 130), s')"
    by (simp add: demo_state_def demo_volume_def apply_create_volume_def apply_lease_def Let_def md_default_def)
  with acquire_exclusive[OF a] show ?thesis by auto
qed

text \<open>
  C9: A lease cannot be lost by the actions of others while it runs: through any sequence of
  commands in which the volume is not deleted, the holder itself does not acquire, renew or release,
  and the clocks in competing acquisitions and clean-ups are before the expiry, the lease stays
  exactly as it is.
\<close>

theorem lease_survives_until_expiry:
  assumes "inj fmt" "reachable_md fmt s" "get_lease fmt s v = Some l"
    and "\<forall>req \<in> set cs. keeps_lease v (vl_holder l) (vl_expires_at_ms l) req"
    and "run_steps (apply_request fmt) cs s = Some (rs, s')"
  shows "get_lease fmt s' v = Some l"
proof -
  have "md_inv fmt s" using assms(2) by (rule reachable_inv)
  from this assms(3-5) show ?thesis
  proof (induction cs arbitrary: s rs)
    case (Cons c cs)
    from Cons.prems(4) obtain r t rs' where st: "apply_request fmt c s = Some (r, t)"
      and rest: "run_steps (apply_request fmt) cs t = Some (rs', s')"
      by (auto split: option.splits)
    have "md_inv fmt t" using apply_request_inv[OF Cons.prems(1), of c] st by auto
    moreover have "get_lease fmt t v = Some l"
      using lease_kept_step[OF assms(1) Cons.prems(1,2) _ st] Cons.prems(3) by simp
    ultimately show ?case using Cons.IH rest Cons.prems(3) by simp
  qed simp
qed

definition demo_leased :: MetadataStateMachineData where
  "demo_leased = snd (the (run_steps (apply_request unary_text) [demo_volume, Lease (Acquire 1 20 100 30)] md_default))"

definition demo_lease :: VolumeLease where
  "demo_lease = \<lparr> vl_volume_id = 1, vl_holder = 20, vl_granted_at_ms = 100, vl_expires_at_ms = 130, vl_lease_version = 1 \<rparr>"

theorem lease_survives_until_expiry_witness:
  "\<exists>rs s'. run_steps (apply_request unary_text) [Lease (Acquire 1 21 120 30), CleanupExpiredLeases 129, AdvanceEpoch] demo_leased = Some (rs, s') \<and>
     get_lease unary_text s' 1 = Some demo_lease"
proof -
  have re: "reachable_md unary_text demo_leased" unfolding demo_leased_def by (rule reachable_run)
  obtain rs s' where r: "run_steps (apply_request unary_text) [Lease (Acquire 1 21 120 30), CleanupExpiredLeases 129, AdvanceEpoch] demo_leased = Some (rs, s')"
    using md.run_inv[OF reachable_inv[OF re]] by blast
  have l: "get_lease unary_text demo_leased 1 = Some demo_lease"
    by (simp add: demo_leased_def demo_lease_def demo_volume_def apply_create_volume_def apply_lease_def Let_def
        md_default_def get_lease_def)
  have "get_lease unary_text s' 1 = Some demo_lease"
    by (rule lease_survives_until_expiry[OF inj_unary_text re l _ r]) (simp add: keeps_lease_def demo_lease_def)
  with r show ?thesis by blast
qed

text \<open>
  A batch of mappings is not atomic: when an entry is refused, the batch answers with that
  entry's error and the state is the one after committing, one by one, all entries before it.
\<close>

theorem batch_keeps_prefix:
  assumes "run_steps (apply_request fmt) (map CommitExtentMapping es) s = Some (rs, t)"
    and "\<forall>r \<in> set rs. \<not> resp_is_error r"
    and "apply_request fmt (CommitExtentMapping e) t = Some (RespError err, t')"
  shows "apply_request fmt (CommitExtentMappingBatch (es @ e # es')) s = Some (RespError err, t)"
  using batch_after_prefix[OF assms(1,2), of "e # es'"] commit_error_same[of fmt e t "RespError err" t'] assms(3)
  by (auto simp: resp_is_error_def)

definition demo_one :: MetadataStateMachineData where
  "demo_one = snd (the (apply_request unary_text (CommitExtentMapping (demo_entry 0 1)) demo_state))"

theorem batch_keeps_prefix_witness:
  "apply_request unary_text (CommitExtentMappingBatch [demo_entry 0 1, demo_entry 0 2]) demo_state =
     Some (RespError (CasMismatch 0 1), demo_one) \<and>
   mapping_at demo_state (unary_text 1) 0 = None \<and>
   mapping_at demo_one (unary_text 1) 0 = Some (entry_mapping (demo_entry 0 1))"
proof -
  have c1: "run_steps (apply_request unary_text) (map CommitExtentMapping [demo_entry 0 1]) demo_state =
      Some ([RespEpoch 0], demo_one)"
    by code_simp
  have c2: "apply_request unary_text (CommitExtentMapping (demo_entry 0 2)) demo_one =
      Some (RespError (CasMismatch 0 1), demo_one)"
    by code_simp
  have at: "mapping_at demo_state (unary_text 1) 0 = None"
    "mapping_at demo_one (unary_text 1) 0 = Some (entry_mapping (demo_entry 0 1))"
    by code_simp+
  from batch_keeps_prefix[OF c1 _ c2, of "[]"] at show ?thesis
    by (simp add: resp_is_error_def)
qed

text \<open>
  Deleting a volume removes everything that belongs to it (metadata, mappings, lease, and every
  index entry that led to one of its mappings) and touches neither the metadata nor the mappings nor
  the lease of any other volume.
\<close>

theorem delete_volume_isolated:
  assumes "inj fmt" "reachable_md fmt s" "get_volume fmt s v = Some vm"
  shows "\<exists>s'. apply_request fmt (DeleteVolume v) s = Some (RespOk, s') \<and>
    get_volume fmt s' v = None \<and> get_volume_mappings fmt s' v = None \<and> get_lease fmt s' v = None \<and>
    (\<forall>op b. bt_get (sm_operation_index s') op \<noteq> Some (fmt v, b)) \<and>
    (\<forall>ver b. bt_get (sm_extent_version_index s') ver \<noteq> Some (fmt v, b)) \<and>
    (\<forall>w. w \<noteq> v \<longrightarrow> get_volume fmt s' w = get_volume fmt s w \<and>
       get_volume_mappings fmt s' w = get_volume_mappings fmt s w \<and> get_lease fmt s' w = get_lease fmt s w)"
proof -
  note inv = reachable_inv[OF assms(2)]
  from assms(3) have vm: "bt_get (sm_volumes s) (fmt v) = Some vm" by (simp add: get_volume_def)
  with inv obtain ms where ms: "bt_get (sm_extent_mappings s) (fmt v) = Some ms"
    unfolding md_inv_def volumes_ok_def by (metis domD domI)
  let ?s' = "snd (apply_delete_volume fmt v s)"
  note fields = delete_volume_fields[of s fmt v, OF vm ms]
  have "md_inv fmt ?s'" using inv by (rule md_inv_delete_volume)
  then have idx: "bt_get (sm_operation_index ?s') op = Some (k, b) \<Longrightarrow> mapping_at ?s' k b \<noteq> None"
    "bt_get (sm_extent_version_index ?s') ver = Some (k, b) \<Longrightarrow> mapping_at ?s' k b \<noteq> None" for op ver k b
    unfolding md_inv_def indexes_ok_def by fastforce+
  have gone: "mapping_at ?s' (fmt v) b = None" for b by (simp add: fields mapping_at_def)
  have ap: "apply_request fmt (DeleteVolume v) s = Some (RespOk, ?s')" by (simp add: fields)
  have noidx: "(\<forall>op b. bt_get (sm_operation_index ?s') op \<noteq> Some (fmt v, b)) \<and>
    (\<forall>ver b. bt_get (sm_extent_version_index ?s') ver \<noteq> Some (fmt v, b))"
    using idx gone by blast
  have others: "get_volume fmt ?s' v = None \<and> get_volume_mappings fmt ?s' v = None \<and> get_lease fmt ?s' v = None \<and>
    (\<forall>w. w \<noteq> v \<longrightarrow> get_volume fmt ?s' w = get_volume fmt s w \<and>
       get_volume_mappings fmt ?s' w = get_volume_mappings fmt s w \<and> get_lease fmt ?s' w = get_lease fmt s w)"
    by (simp add: fields get_volume_def get_volume_mappings_def get_lease_def inj_eq[OF assms(1)])
  from ap noidx others show ?thesis by blast
qed

theorem delete_volume_isolated_witness:
  "\<exists>s'. apply_request unary_text (DeleteVolume 1) demo_committed = Some (RespOk, s') \<and>
     get_volume unary_text s' 1 = None"
proof -
  obtain vm where vm: "get_volume unary_text demo_committed 1 = Some vm"
    by (simp add: demo_committed_def demo_volume_def demo_entry_def md_default_def get_volume_def
        apply_create_volume_def apply_commit_extent_mapping_def unindex_existing_def Let_def cas_check_def)
  from delete_volume_isolated[OF inj_unary_text reachable_committed vm] show ?thesis by blast
qed

text \<open>
  The version index is shared by all volumes, so it is not complete: after two volumes commit
  mappings with the same extent version (which deterministic placement always does, its version is
  the constant 1), deleting one of them makes the other's mapping unreachable by version although it
  is still committed.
\<close>

theorem version_index_collision:
  "\<exists>cs rs s. run_steps (apply_request unary_text) cs md_default = Some (rs, s) \<and>
     \<not> list_ex resp_is_error rs \<and>
     mapping_at s (unary_text 2) 0 \<noteq> None \<and>
     map_option em_extent_version (mapping_at s (unary_text 2) 0) = Some 1 \<and>
     lookup_by_extent_version s 1 = None"
proof -
  let ?e = "\<lambda>v. \<lparr> ee_volume_id = v, ee_block_range = (0, 1), ee_extent_id = v, ee_extent_version = 1,
       ee_epoch = 0, ee_replica_locations = [10], ee_checksums = [], ee_operation_id = None,
       ee_previous_version = None \<rparr>"
  let ?cs = "[CreateVolume 1 4096 (Replicated 1) 4096, CreateVolume 2 4096 (Replicated 1) 4096,
     CommitExtentMapping (?e 1), CommitExtentMapping (?e 2), DeleteVolume 1]"
  let ?run = "run_steps (apply_request unary_text) ?cs md_default"
  have "?run \<noteq> None \<and> \<not> list_ex resp_is_error (fst (the ?run)) \<and>
     mapping_at (snd (the ?run)) (unary_text 2) 0 \<noteq> None \<and>
     map_option em_extent_version (mapping_at (snd (the ?run)) (unary_text 2) 0) = Some 1 \<and>
     lookup_by_extent_version (snd (the ?run)) 1 = None"
    by code_simp
  then show ?thesis by (metis option.collapse prod.collapse)
qed


end
