(* ===== verification/RaftStore.thy ===== *)
theory RaftStore
  imports MetadataProps
begin

text \<open>
  The storage behind the Raft node (\<^verbatim>\<open>blockyard-raft/src/store.rs\<close> and \<^verbatim>\<open>persistent_store.rs\<close>): the
  log store, and the state machine store with its snapshots and its persistence. The in-memory and
  the redb-backed log store run the same operations on an ordered table, which is what is modelled;
  the state machine store is the redb-backed one, whose operations are those of the in-memory store
  followed by a transaction. openraft's types are data only (log ids, entries, votes, memberships),
  the last two as type parameters. The state is the metadata record extended with the two fields
  that only this layer uses.
\<close>

section \<open>Log entries\<close>

record LogId =
  lid_leader :: "u64 \<times> u64"
  lid_index :: u64

datatype 'm EntryPayload = Blank | Normal MetadataRequest | Membership 'm

record 'm Entry =
  en_log_id :: LogId
  en_payload :: "'m EntryPayload"

section \<open>Log store\<close>

record ('m, 'v) LogStoreInner =
  ls_vote :: "'v option"
  ls_log :: "(u64, 'm Entry) btree"
  ls_last_purged :: "LogId option"

definition log_store_new :: "('m, 'v) LogStoreInner" where
  "log_store_new = \<lparr> ls_vote = None, ls_log = [], ls_last_purged = None \<rparr>"

definition try_get_log_entries :: "(u64 \<Rightarrow> bool) \<Rightarrow> ('m, 'v) LogStoreInner \<Rightarrow> 'm Entry list" where
  "try_get_log_entries in_range st = map snd (filter (\<lambda>(k, _). in_range k) (ls_log st))"

definition get_log_state :: "('m, 'v) LogStoreInner \<Rightarrow> LogId option \<times> LogId option" where
  "get_log_state st =
     (ls_last_purged st,
      (if ls_log st = [] then None else Some (en_log_id (snd (last (ls_log st))))))"

definition save_vote :: "'v \<Rightarrow> ('m, 'v) LogStoreInner \<Rightarrow> ('m, 'v) LogStoreInner" where
  "save_vote v st = st\<lparr> ls_vote := Some v \<rparr>"

definition read_vote :: "('m, 'v) LogStoreInner \<Rightarrow> 'v option" where
  "read_vote st = ls_vote st"

definition log_append :: "'m Entry list \<Rightarrow> ('m, 'v) LogStoreInner \<Rightarrow> ('m, 'v) LogStoreInner" where
  "log_append entries st =
     st\<lparr> ls_log := fold (\<lambda>e. bt_insert (lid_index (en_log_id e)) e) entries (ls_log st) \<rparr>"

definition log_truncate :: "LogId \<Rightarrow> ('m, 'v) LogStoreInner \<Rightarrow> ('m, 'v) LogStoreInner" where
  "log_truncate lid st =
     (let to_remove = map fst (filter (\<lambda>(k, _). lid_index lid \<le> k) (ls_log st))
      in st\<lparr> ls_log := fold bt_remove to_remove (ls_log st) \<rparr>)"

definition log_purge :: "LogId \<Rightarrow> ('m, 'v) LogStoreInner \<Rightarrow> ('m, 'v) LogStoreInner" where
  "log_purge lid st =
     (let to_remove = map fst (filter (\<lambda>(k, _). k \<le> lid_index lid) (ls_log st))
      in st\<lparr> ls_log := fold bt_remove to_remove (ls_log st), ls_last_purged := Some lid \<rparr>)"

section \<open>State machine store\<close>

record 'm SmData = MetadataStateMachineData +
  sm_last_applied :: "LogId option"
  sm_last_membership :: "LogId option \<times> 'm"

definition sm_data_new :: "'m \<Rightarrow> 'm SmData" where
  "sm_data_new mem0 = MetadataStateMachineData.extend md_default
     \<lparr> sm_last_applied = None, sm_last_membership = (None, mem0) \<rparr>"

definition apply_entry ::
  "(uuid \<Rightarrow> string) \<Rightarrow> 'm Entry \<Rightarrow> 'm SmData \<Rightarrow> (MetadataResponse \<times> 'm SmData) option" where
  "apply_entry fmt entry data =
     (let data1 = data\<lparr> sm_last_applied := Some (en_log_id entry) \<rparr> in
      case en_payload entry of
        Blank \<Rightarrow> Some (RespOk, data1)
      | Normal req \<Rightarrow> apply_request fmt req data1
      | Membership mem \<Rightarrow>
          Some (RespOk, data1\<lparr> sm_last_membership := (Some (en_log_id entry), mem) \<rparr>))"

abbreviation apply_entries ::
  "(uuid \<Rightarrow> string) \<Rightarrow> 'm Entry list \<Rightarrow> 'm SmData \<Rightarrow> (MetadataResponse list \<times> 'm SmData) option" where
  "apply_entries fmt \<equiv> run_steps (apply_entry fmt)"

record 'm SnapshotMeta =
  sn_last_log_id :: "LogId option"
  sn_last_membership :: "LogId option \<times> 'm"
  sn_index :: u64

text \<open>
  JSON encoding is \<^verbatim>\<open>serde_json\<close>'s: the store is parametric in the type of encoded documents
  and in the encoding and decoding functions.
\<close>

record ('m, 'b) Codec =
  enc_data :: "'m SmData \<Rightarrow> 'b"
  dec_data :: "'b \<Rightarrow> 'm SmData option"
  enc_applied :: "LogId option \<Rightarrow> 'b"
  dec_applied :: "'b \<Rightarrow> LogId option option"
  enc_member :: "LogId option \<times> 'm \<Rightarrow> 'b"
  dec_member :: "'b \<Rightarrow> (LogId option \<times> 'm) option"

definition codec_ok :: "('m, 'b) Codec \<Rightarrow> bool" where
  "codec_ok c \<longleftrightarrow> (\<forall>d. dec_data c (enc_data c d) = Some d) \<and>
     (\<forall>l. dec_applied c (enc_applied c l) = Some l) \<and> (\<forall>m. dec_member c (enc_member c m) = Some m)"

text \<open>The redb tables of the state machine, and the store: tables plus the data in memory.\<close>

record ('m, 'b) SmDb =
  db_data :: "'b option"
  db_last_applied :: "'b option"
  db_membership :: "'b option"
  db_snapshot :: "('m SnapshotMeta \<times> 'b) option"

record ('m, 'b) SmStore =
  st_db :: "('m, 'b) SmDb"
  st_data :: "'m SmData"
  st_snapshot_idx :: u64

definition sm_db_empty :: "('m, 'b) SmDb" where
  "sm_db_empty = \<lparr> db_data = None, db_last_applied = None, db_membership = None, db_snapshot = None \<rparr>"

definition sm_open :: "('m, 'b) Codec \<Rightarrow> 'm \<Rightarrow> ('m, 'b) SmDb \<Rightarrow> ('m, 'b) SmStore" where
  "sm_open c mem0 db =
     (let d0 = sm_data_new mem0;
          d1 = (case Option.bind (db_data db) (dec_data c) of None \<Rightarrow> d0 | Some restored \<Rightarrow> restored);
          d2 = (case Option.bind (db_last_applied db) (dec_applied c) of
                  None \<Rightarrow> d1 | Some lid \<Rightarrow> d1\<lparr> sm_last_applied := lid \<rparr>);
          d3 = (case Option.bind (db_membership db) (dec_member c) of
                  None \<Rightarrow> d2 | Some mem \<Rightarrow> d2\<lparr> sm_last_membership := mem \<rparr>)
      in \<lparr> st_db = db, st_data = d3, st_snapshot_idx = 0 \<rparr>)"

text \<open>
  \<^verbatim>\<open>io_ok\<close> says whether the database transaction commits; redb transactions are atomic, so a failed
  one leaves the tables as they were.
\<close>

definition persist_state :: "('m, 'b) Codec \<Rightarrow> bool \<Rightarrow> ('m, 'b) SmStore \<Rightarrow> bool \<times> ('m, 'b) SmStore" where
  "persist_state c io_ok st =
     (if io_ok then
        (True, st\<lparr> st_db := (st_db st)\<lparr> db_data := Some (enc_data c (st_data st)),
                     db_last_applied := Some (enc_applied c (sm_last_applied (st_data st))),
                     db_membership := Some (enc_member c (sm_last_membership (st_data st))) \<rparr> \<rparr>)
      else (False, st))"

definition sm_apply ::
  "('m, 'b) Codec \<Rightarrow> (uuid \<Rightarrow> string) \<Rightarrow> bool \<Rightarrow> 'm Entry list \<Rightarrow> ('m, 'b) SmStore \<Rightarrow>
   (MetadataResponse list option \<times> ('m, 'b) SmStore) option" where
  "sm_apply c fmt io_ok entries st =
     (case apply_entries fmt entries (st_data st) of
        None \<Rightarrow> None
      | Some (responses, data) \<Rightarrow>
          (case persist_state c io_ok (st\<lparr> st_data := data \<rparr>) of
             (True, st') \<Rightarrow> Some (Some responses, st')
           | (False, st') \<Rightarrow> Some (None, st')))"

definition build_snapshot :: "('m, 'b) Codec \<Rightarrow> bool \<Rightarrow> ('m, 'b) SmStore \<Rightarrow> ('m SnapshotMeta \<times> 'b) option \<times> ('m, 'b) SmStore" where
  "build_snapshot c io_ok st =
     (let json = enc_data c (st_data st);
          idx = st_snapshot_idx st + 1;
          meta = \<lparr> sn_last_log_id = sm_last_applied (st_data st),
                   sn_last_membership = sm_last_membership (st_data st), sn_index = idx \<rparr>;
          st1 = st\<lparr> st_snapshot_idx := idx \<rparr>
      in if io_ok then (Some (meta, json), st1\<lparr> st_db := (st_db st1)\<lparr> db_snapshot := Some (meta, json) \<rparr> \<rparr>)
         else (None, st1))"

definition install_snapshot ::
  "('m, 'b) Codec \<Rightarrow> bool \<Rightarrow> bool \<Rightarrow> 'm SnapshotMeta \<Rightarrow> 'b \<Rightarrow> ('m, 'b) SmStore \<Rightarrow> bool \<times> ('m, 'b) SmStore" where
  "install_snapshot c io_ok1 io_ok2 meta raw st =
     (case dec_data c raw of
        None \<Rightarrow> (False, st)
      | Some new_data \<Rightarrow>
          (let st1 = st\<lparr> st_data := new_data\<lparr> sm_last_applied := sn_last_log_id meta,
                           sm_last_membership := sn_last_membership meta \<rparr> \<rparr>
           in case persist_state c io_ok1 st1 of
                (False, st2) \<Rightarrow> (False, st2)
              | (True, st2) \<Rightarrow>
                  if io_ok2 then (True, st2\<lparr> st_db := (st_db st2)\<lparr> db_snapshot := Some (meta, raw) \<rparr> \<rparr>)
                  else (False, st2)))"

definition get_current_snapshot :: "('m, 'b) SmStore \<Rightarrow> ('m SnapshotMeta \<times> 'b) option" where
  "get_current_snapshot st = db_snapshot (st_db st)"

section \<open>The log as an ordered map\<close>

definition log_ok :: "('m, 'v) LogStoreInner \<Rightarrow> bool" where
  "log_ok st \<longleftrightarrow> bt_wf (ls_log st) \<and>
     (\<forall>k e. bt_get (ls_log st) k = Some e \<longrightarrow> lid_index (en_log_id e) = k)"

lemma fold_insert_entries:
  "bt_wf m \<Longrightarrow> bt_wf (fold (\<lambda>e. bt_insert (lid_index (en_log_id e)) e) es m)"
  by (induction es arbitrary: m) auto

lemma log_ok_new: "log_ok log_store_new"
  by (simp add: log_ok_def log_store_new_def)

lemma log_ok_insert:
  "log_ok st \<Longrightarrow> log_ok (st\<lparr> ls_log := bt_insert (lid_index (en_log_id e)) e (ls_log st) \<rparr>)"
  by (simp add: log_ok_def)

lemma log_append_Cons:
  "log_append (e # es) st = log_append es (st\<lparr> ls_log := bt_insert (lid_index (en_log_id e)) e (ls_log st) \<rparr>)"
  by (simp add: log_append_def)

lemma log_append_Nil: "log_append [] st = st"
  by (simp add: log_append_def)

lemma log_ok_append: "log_ok st \<Longrightarrow> log_ok (log_append es st)"
  by (induction es arbitrary: st) (simp_all add: log_append_Cons log_append_Nil log_ok_insert)

lemma fold_remove_filter:
  "fold bt_remove (map fst (filter (\<lambda>(k, _). P k) m)) m = filter (\<lambda>(k, _). \<not> P k) m"
proof -
  have gen: "fold bt_remove ks m = filter (\<lambda>(k, _). k \<notin> set ks) m" for ks and m :: "('a \<times> 'b) list"
    by (induction ks arbitrary: m) (simp_all add: bt_remove_def filter_filter split_def conj_commute)
  have "(fst x \<notin> set (map fst (filter (\<lambda>(k, _). P k) m))) = (\<not> P (fst x))" if "x \<in> set m" for x
    using that by force
  then show ?thesis unfolding gen split_def by (intro filter_cong) simp_all
qed

lemma log_truncate_eq: "log_ok st \<Longrightarrow>
  log_truncate lid st = st\<lparr> ls_log := filter (\<lambda>(k, _). k < lid_index lid) (ls_log st) \<rparr>"
  by (simp add: log_truncate_def log_ok_def Let_def fold_remove_filter not_le)

lemma log_purge_eq: "log_ok st \<Longrightarrow>
  log_purge lid st = st\<lparr> ls_log := filter (\<lambda>(k, _). lid_index lid < k) (ls_log st), ls_last_purged := Some lid \<rparr>"
  by (simp add: log_purge_def log_ok_def Let_def fold_remove_filter not_le)


text \<open>Commands of the log store and the partial map from index to entry they act on.\<close>

datatype ('m, 'v) LogOp = LAppend "'m Entry list" | LTruncate LogId | LPurge LogId | LVote 'v

fun log_op :: "('m, 'v) LogOp \<Rightarrow> ('m, 'v) LogStoreInner \<Rightarrow> ('m, 'v) LogStoreInner" where
  "log_op (LAppend es) = log_append es"
| "log_op (LTruncate lid) = log_truncate lid"
| "log_op (LPurge lid) = log_purge lid"
| "log_op (LVote v) = save_vote v"

fun abs_op :: "('m, 'v) LogOp \<Rightarrow> (u64 \<rightharpoonup> 'm Entry) \<Rightarrow> (u64 \<rightharpoonup> 'm Entry)" where
  "abs_op (LAppend es) m = m ++ map_of (rev (map (\<lambda>e. (lid_index (en_log_id e), e)) es))"
| "abs_op (LTruncate lid) m = m |` {k. k < lid_index lid}"
| "abs_op (LPurge lid) m = m |` {k. lid_index lid < k}"
| "abs_op (LVote v) m = m"

lemma map_of_filter_keys: "map_of (filter (\<lambda>(k, _). P k) m) = map_of m |` {k. P k}"
  by (induction m) (auto simp: restrict_map_def fun_eq_iff)

lemma log_op_ok: "log_ok st \<Longrightarrow> log_ok (log_op c st)"
proof (cases c)
  case (LTruncate lid)
  then show "log_ok st \<Longrightarrow> log_ok (log_op c st)"
    by (auto simp: log_truncate_eq) (auto simp: log_ok_def bt_wf_filter map_of_filter_keys restrict_map_def)
next
  case (LPurge lid)
  then show "log_ok st \<Longrightarrow> log_ok (log_op c st)"
    by (auto simp: log_purge_eq) (auto simp: log_ok_def bt_wf_filter map_of_filter_keys restrict_map_def)
qed (auto simp: log_ok_append save_vote_def, simp add: log_ok_def)

lemma map_of_append_entries:
  "map_of (fold (\<lambda>e. bt_insert (lid_index (en_log_id e)) e) es m) =
   map_of m ++ map_of (rev (map (\<lambda>e. (lid_index (en_log_id e), e)) es))"
proof (induction es arbitrary: m)
  case (Cons e es)
  show ?case by (simp add: Cons.IH map_add_def fun_eq_iff split: option.split)
qed simp

lemma log_op_abs: "log_ok st \<Longrightarrow> map_of (ls_log (log_op c st)) = abs_op c (map_of (ls_log st))"
  by (cases c) (simp_all add: log_append_def map_of_append_entries log_truncate_eq log_purge_eq
      map_of_filter_keys save_vote_def)

lemma log_ops_ok: "log_ok st \<Longrightarrow> log_ok (fold log_op cs st)"
  by (induction cs arbitrary: st) (simp_all add: log_op_ok)

lemma log_ops_abs: "log_ok st \<Longrightarrow> map_of (ls_log (fold log_op cs st)) = fold abs_op cs (map_of (ls_log st))"
  by (induction cs arbitrary: st) (simp_all add: log_op_ok log_op_abs)

lemma try_get_sorted:
  assumes "log_ok st"
  shows "sorted_wrt (<) (map (\<lambda>e. lid_index (en_log_id e)) (try_get_log_entries P st))"
    and "set (try_get_log_entries P st) = {e. \<exists>k. bt_get (ls_log st) k = Some e \<and> P k}"
proof -
  have wf: "bt_wf (ls_log st)" and key: "\<And>k e. (k, e) \<in> set (ls_log st) \<Longrightarrow> lid_index (en_log_id e) = k"
    using assms by (auto simp: log_ok_def bt_get_iff)
  have "map (\<lambda>e. lid_index (en_log_id e)) (try_get_log_entries P st) = map fst (filter (\<lambda>(k, _). P k) (ls_log st))"
    unfolding try_get_log_entries_def map_map by (rule map_cong) (auto simp: key)
  with bt_wf_filter[OF wf] show "sorted_wrt (<) (map (\<lambda>e. lid_index (en_log_id e)) (try_get_log_entries P st))"
    by (simp add: bt_wf_def)
  show "set (try_get_log_entries P st) = {e. \<exists>k. bt_get (ls_log st) k = Some e \<and> P k}"
    by (force simp: try_get_log_entries_def bt_get_iff[OF wf])
qed

section \<open>Replay\<close>

lemma commit_more:
  "apply_commit_extent_mapping fmt e s = Some (r, s') \<Longrightarrow>
   MetadataStateMachineData.more s' = MetadataStateMachineData.more s"
  by (auto simp: apply_commit_extent_mapping_def unindex_existing_def Let_def split: if_splits option.splits)

lemma batch_more:
  "apply_commit_batch fmt es s = Some (r, s') \<Longrightarrow>
   MetadataStateMachineData.more s' = MetadataStateMachineData.more s"
  by (induction es arbitrary: s) (auto split: option.splits if_splits simp: commit_more)

lemma lease_more:
  "apply_lease fmt q s = (r, s') \<Longrightarrow> MetadataStateMachineData.more s' = MetadataStateMachineData.more s"
  by (cases q) (auto simp: apply_lease_def Let_def split: option.splits if_splits)

lemma apply_request_more:
  "apply_request fmt req s = Some (r, s') \<Longrightarrow>
   MetadataStateMachineData.more s' = MetadataStateMachineData.more s"
  by (cases req) (auto simp: simple_request_defs commit_more batch_more lease_more
        split: option.splits sum.splits if_splits)

lemma apply_request_applied:
  assumes "apply_request fmt req (s :: 'm SmData) = Some (r, s')"
  shows "sm_last_applied s' = sm_last_applied s"
  using apply_request_more[OF assms] by (cases s, cases s') simp

lemma apply_entry_applied:
  "apply_entry fmt en s = Some (r, s') \<Longrightarrow> sm_last_applied s' = Some (en_log_id en)"
  by (auto simp: apply_entry_def Let_def dest: apply_request_applied split: EntryPayload.splits)

lemma apply_entries_applied:
  "apply_entries fmt es s = Some (rs, s') \<Longrightarrow>
   sm_last_applied s' = (if es = [] then sm_last_applied s else Some (en_log_id (last es)))"
proof (induction es arbitrary: s rs)
  case (Cons e es)
  then obtain r t rs' where "apply_entry fmt e s = Some (r, t)" "apply_entries fmt es t = Some (rs', s')"
    by (auto split: option.splits)
  with Cons.IH[of t rs'] show ?case by (simp add: apply_entry_applied)
qed simp

lemma md_inv_sm_fields:
  "md_inv fmt (s\<lparr> sm_last_applied := x \<rparr>) = md_inv fmt s"
  "md_inv fmt (s\<lparr> sm_last_membership := y \<rparr>) = md_inv fmt s"
  by (auto simp: md_inv_defs mapping_at_def)

interpretation md_entries: state_machine "apply_entry fmt" "md_inv fmt" for fmt
proof
  fix s :: "'m SmData" and en :: "'m Entry" assume inv: "md_inv fmt s"
  then have inv1: "md_inv fmt (s\<lparr> sm_last_applied := Some (en_log_id en) \<rparr>)" by (simp add: md_inv_sm_fields)
  show "\<exists>r s'. apply_entry fmt en s = Some (r, s') \<and> md_inv fmt s'"
    using apply_request_inv[OF inv1] inv
    by (cases "en_payload en") (auto simp: apply_entry_def Let_def md_inv_sm_fields)
qed

lemma md_inv_new: "md_inv fmt (sm_data_new m0)"
  by (simp add: md_inv_defs sm_data_new_def md_default_def mapping_at_def MetadataStateMachineData.defs)

lemma reopen_persisted:
  assumes "codec_ok c"
  shows "st_data (sm_open c m0 (st_db (snd (persist_state c True st)))) = st_data st"
  using assms by (simp add: persist_state_def sm_open_def codec_ok_def Let_def del: split_paired_All)

lemma persist_state_data: "st_data (snd (persist_state c io st)) = st_data st"
  by (simp add: persist_state_def)

lemma sm_apply_ok:
  assumes "sm_apply c fmt True es st = Some (rs, st')"
  obtains rs' d where "apply_entries fmt es (st_data st) = Some (rs', d)" "rs = Some rs'"
    "st' = snd (persist_state c True (st\<lparr> st_data := d \<rparr>))"
  using assms by (auto simp: sm_apply_def persist_state_def split: option.splits)

lemma reopen_after_apply:
  assumes "codec_ok c" "sm_apply c fmt True es st = Some (rs, st')"
  shows "st_data (sm_open c m0 (st_db st')) = st_data st'"
  using assms(2) by (rule sm_apply_ok) (simp add: reopen_persisted[OF assms(1)] persist_state_data)

lemma failed_apply_db: "sm_apply c fmt False es st = Some (rs, st') \<Longrightarrow> st_db st' = st_db st"
  by (auto simp: sm_apply_def persist_state_def split: option.splits)

lemma replay_suffix:
  assumes ok: "log_ok L" and log: "map snd (ls_log L) = a @ b" and "a \<noteq> []"
  shows "try_get_log_entries (\<lambda>k. lid_index (en_log_id (last a)) < k) L = b"
proof -
  have wf: "bt_wf (ls_log L)" and key: "\<And>k e. (k, e) \<in> set (ls_log L) \<Longrightarrow> lid_index (en_log_id e) = k"
    using ok by (auto simp: log_ok_def bt_get_iff)
  have "ls_log L = map (\<lambda>e. (lid_index (en_log_id e), e)) (map snd (ls_log L))"
    unfolding map_map by (rule map_idI[symmetric]) (auto simp: key)
  then have ls: "ls_log L = map (\<lambda>e. (lid_index (en_log_id e), e)) (a @ b)" unfolding log .
  have "sorted_wrt (<) (map (\<lambda>e. lid_index (en_log_id e)) (a @ b))"
    using wf unfolding bt_wf_def ls map_map by (simp add: comp_def)
  moreover obtain a' l where al: "a = a' @ [l]" using \<open>a \<noteq> []\<close> by (metis rev_exhaust)
  ultimately have b: "\<forall>e \<in> set b. lid_index (en_log_id l) < lid_index (en_log_id e)"
    and a: "\<forall>e \<in> set a. \<not> lid_index (en_log_id l) < lid_index (en_log_id e)"
    by (auto simp: sorted_wrt_append)
  from al have "last a = l" by simp
  show ?thesis unfolding try_get_log_entries_def ls using a b
    by (simp add: filter_map comp_def \<open>last a = l\<close> filter_empty_conv)
qed

section \<open>Properties\<close>

text \<open>
  C18: The log store implements a partial map from index to entry: after any sequence of appends,
  truncations, purges and vote updates it holds exactly what the same sequence leaves in the map
  (append overrides, truncation keeps the indexes below its argument, purging those above it), and a
  range read returns exactly the stored entries of the range, in strictly increasing index order.
\<close>

theorem log_store_refines_map:
  "map_of (ls_log (fold log_op cs log_store_new)) = fold abs_op cs Map.empty \<and>
   set (try_get_log_entries in_range (fold log_op cs log_store_new)) =
     {e. \<exists>k. fold abs_op cs Map.empty k = Some e \<and> in_range k} \<and>
   sorted_wrt (<) (map (\<lambda>e. lid_index (en_log_id e))
     (try_get_log_entries in_range (fold log_op cs log_store_new)))"
proof -
  have abs: "map_of (ls_log (fold log_op cs log_store_new)) = fold abs_op cs Map.empty"
    using log_ops_abs[OF log_ok_new, of cs] by (simp add: log_store_new_def)
  with try_get_sorted[OF log_ops_ok[OF log_ok_new], of in_range cs] show ?thesis by simp
qed

text \<open>
  C16: Crash recovery loses nothing that was logged. A node persists its state after applying a
  prefix of the log; the entries it applies after that fail to persist and the process stops. When the store
  is reopened, replaying the log entries above the restored last-applied index leads to exactly the
  state that applying the whole log without interruption gives.
\<close>

theorem crash_recovery_replay:
  assumes "codec_ok c" "log_ok L" "map snd (ls_log L) = a @ b" "a \<noteq> []"
    and applied: "sm_apply c fmt True a (sm_open c m0 sm_db_empty) = Some (rs, st)"
    and crashed: "sm_apply c fmt False b' st = Some (rs', st')"
    and whole: "apply_entries fmt (a @ b) (sm_data_new m0) = Some (rs'', d)"
  shows "\<exists>la rs2. sm_last_applied (st_data (sm_open c m0 (st_db st'))) = Some la \<and>
     apply_entries fmt (try_get_log_entries (\<lambda>k. lid_index la < k) L)
       (st_data (sm_open c m0 (st_db st'))) = Some (rs2, d)"
proof -
  have fresh: "st_data (sm_open c m0 sm_db_empty) = sm_data_new m0"
    by (simp add: sm_open_def sm_db_empty_def)
  from applied obtain rs1 d1 where d1: "apply_entries fmt a (sm_data_new m0) = Some (rs1, d1)"
    and st: "st_data st = d1"
    by (auto elim!: sm_apply_ok simp: fresh persist_state_data)
  have re: "st_data (sm_open c m0 (st_db st')) = d1"
    using reopen_after_apply[OF assms(1) applied] failed_apply_db[OF crashed] st by simp
  have la: "sm_last_applied d1 = Some (en_log_id (last a))"
    using apply_entries_applied[OF d1] assms(4) by simp
  from whole d1 obtain rs2 where "apply_entries fmt b d1 = Some (rs2, d)"
    by (auto simp: run_steps_append split: option.splits)
  with re la replay_suffix[OF assms(2,3,4)] show ?thesis by simp
qed

text \<open>
  C17: A snapshot transfers the whole state: installing on any node the snapshot another node built
  gives it the builder's data, applied index and membership included, both in memory and after a
  restart, and the installed snapshot is the one it then serves.
\<close>

theorem snapshot_transfer:
  assumes "codec_ok c" "build_snapshot c True src = (Some (meta, raw), src')"
    and "install_snapshot c True True meta raw dst = (ok, dst')"
  shows "ok \<and> st_data dst' = st_data src \<and> st_data src' = st_data src \<and>
    st_data (sm_open c m0 (st_db dst')) = st_data src \<and> get_current_snapshot dst' = Some (meta, raw)"
proof -
  have raw: "dec_data c raw = Some (st_data src)"
    and meta: "sn_last_log_id meta = sm_last_applied (st_data src)" "sn_last_membership meta = sm_last_membership (st_data src)"
    and src: "st_data src' = st_data src"
    using assms(1,2) by (auto simp: build_snapshot_def Let_def codec_ok_def)
  define st1 where "st1 = dst\<lparr> st_data := st_data src \<rparr>"
  have ok: "ok" and dst': "dst' = (snd (persist_state c True st1))\<lparr> st_db :=
      (st_db (snd (persist_state c True st1)))\<lparr> db_snapshot := Some (meta, raw) \<rparr> \<rparr>"
    using assms(3) by (simp_all add: install_snapshot_def raw meta Let_def persist_state_def st1_def)
  have "st_data (sm_open c m0 (st_db dst')) = st_data (sm_open c m0 (st_db (snd (persist_state c True st1))))"
    by (simp add: dst' sm_open_def Let_def)
  with reopen_persisted[OF assms(1), of m0 st1] ok src show ?thesis
    by (simp add: dst' persist_state_data st1_def get_current_snapshot_def)
qed

section \<open>Concrete instances\<close>

datatype Doc = DData "unit SmData" | DApplied "LogId option" | DMember "LogId option \<times> unit"

definition doc_codec :: "(unit, Doc) Codec" where
  "doc_codec =
     \<lparr> enc_data = DData, dec_data = (\<lambda>x. case x of DData d \<Rightarrow> Some d | _ \<Rightarrow> None),
       enc_applied = DApplied, dec_applied = (\<lambda>x. case x of DApplied l \<Rightarrow> Some l | _ \<Rightarrow> None),
       enc_member = DMember, dec_member = (\<lambda>x. case x of DMember m \<Rightarrow> Some m | _ \<Rightarrow> None) \<rparr>"

lemma doc_codec_ok: "codec_ok doc_codec"
  by (simp add: codec_ok_def doc_codec_def)

definition demo_log :: "unit Entry list" where
  "demo_log = map (\<lambda>(i, p). \<lparr> en_log_id = \<lparr> lid_leader = (1, 1), lid_index = i \<rparr>, en_payload = p \<rparr>)
     [(1, Membership ()), (2, Normal demo_volume), (3, Normal AdvanceEpoch), (4, Blank)]"

definition demo_log_store :: "(unit, unit) LogStoreInner" where
  "demo_log_store = log_append demo_log log_store_new"

theorem crash_recovery_replay_witness:
  "\<exists>rs st rs' st' rs'' d la rs2.
     sm_apply doc_codec unary_text True (take 2 demo_log) (sm_open doc_codec () sm_db_empty) = Some (rs, st) \<and>
     sm_apply doc_codec unary_text False (drop 2 demo_log) st = Some (rs', st') \<and>
     apply_entries unary_text demo_log (sm_data_new ()) = Some (rs'', d) \<and>
     sm_last_applied (st_data (sm_open doc_codec () (st_db st'))) = Some la \<and>
     apply_entries unary_text (try_get_log_entries (\<lambda>k. lid_index la < k) demo_log_store)
       (st_data (sm_open doc_codec () (st_db st'))) = Some (rs2, d)"
proof -
  let ?m0 = "() :: unit"
  have inv0: "md_inv unary_text (st_data (sm_open doc_codec ?m0 sm_db_empty))"
    by (simp add: sm_open_def sm_db_empty_def md_inv_new)
  obtain r1 d1 where "apply_entries unary_text (take 2 demo_log) (st_data (sm_open doc_codec ?m0 sm_db_empty)) = Some (r1, d1)"
    and inv1: "md_inv unary_text d1"
    using md_entries.run_inv[OF inv0] by blast
  then obtain rs st where a: "sm_apply doc_codec unary_text True (take 2 demo_log) (sm_open doc_codec ?m0 sm_db_empty) = Some (rs, st)"
    and st: "st_data st = d1"
    by (simp add: sm_apply_def persist_state_def)
  obtain r2 d2 where "apply_entries unary_text (drop 2 demo_log) (st_data st) = Some (r2, d2)"
    using md_entries.run_inv[OF inv1] st by blast
  then obtain rs' st' where b: "sm_apply doc_codec unary_text False (drop 2 demo_log) st = Some (rs', st')"
    by (simp add: sm_apply_def persist_state_def)
  obtain rs'' d where w: "apply_entries unary_text (take 2 demo_log @ drop 2 demo_log) (sm_data_new ?m0) = Some (rs'', d)"
    using md_entries.run_inv[OF md_inv_new, of unary_text "take 2 demo_log @ drop 2 demo_log" ?m0] by auto
  have "log_ok demo_log_store" unfolding demo_log_store_def by (rule log_ok_append[OF log_ok_new])
  moreover have "map snd (ls_log demo_log_store) = take 2 demo_log @ drop 2 demo_log"
    by (simp add: demo_log_store_def demo_log_def log_append_def log_store_new_def)
  moreover have "take 2 demo_log \<noteq> []" by (simp add: demo_log_def)
  ultimately show ?thesis
    using crash_recovery_replay[OF doc_codec_ok _ _ _ a b w] a b w by fastforce
qed

theorem snapshot_transfer_witness:
  "\<exists>meta raw src' dst'.
     build_snapshot doc_codec True (sm_open doc_codec () sm_db_empty) = (Some (meta, raw), src') \<and>
     install_snapshot doc_codec True True meta raw (sm_open doc_codec () sm_db_empty) = (True, dst') \<and>
     get_current_snapshot dst' = Some (meta, raw)"
proof -
  let ?s = "sm_open doc_codec () sm_db_empty"
  obtain meta raw src' where b: "build_snapshot doc_codec True ?s = (Some (meta, raw), src')"
    by (simp add: build_snapshot_def Let_def)
  obtain ok dst' where i: "install_snapshot doc_codec True True meta raw ?s = (ok, dst')" by fastforce
  from snapshot_transfer[OF doc_codec_ok b i] b i show ?thesis by auto
qed

end
