(* ===== verification/Disk.thy ===== *)
theory Disk
  imports Common
begin

text \<open>
  Disks of a data node: quarantined regions (\<^verbatim>\<open>blockyard-storage/src/region.rs\<close>), telemetry and the state
  derived from it (\<^verbatim>\<open>health.rs\<close>), and the inventory with discovery, validated state transitions,
  qualification and the drain queue (\<^verbatim>\<open>disk.rs\<close>). The inventory's commands form a state machine; that
  a disk's service only declines, that disks stay registered and that quarantined regions stay
  quarantined are three instances of the same monotone-machine contract. Error messages are replaced
  by the values they print; counters wrap as in a build without overflow checks.
\<close>

section \<open>Bad regions\<close>

record BadRegion =
  br_offset :: u64
  br_length :: u64

definition br_end :: "BadRegion \<Rightarrow> u64" where
  "br_end r = saturating_add (br_offset r) (br_length r)"

definition br_overlaps :: "BadRegion \<Rightarrow> u64 \<Rightarrow> u64 \<Rightarrow> bool" where
  "br_overlaps r offset len =
     (let e = saturating_add offset len in br_offset r < e \<and> offset < br_end r)"

type_synonym BadRegionMap = "BadRegion list"

definition add_region :: "u64 \<Rightarrow> u64 \<Rightarrow> BadRegionMap \<Rightarrow> BadRegionMap" where
  "add_region offset len rs =
     (if len = 0 then rs else rs @ [\<lparr> br_offset = offset, br_length = len \<rparr>])"

definition brm_overlaps :: "BadRegionMap \<Rightarrow> u64 \<Rightarrow> u64 \<Rightarrow> bool" where
  "brm_overlaps rs offset len = list_ex (\<lambda>r. br_overlaps r offset len) rs"

definition affected_extents :: "BadRegionMap \<Rightarrow> (ExtentId \<times> u64 \<times> u64) list \<Rightarrow> ExtentId list" where
  "affected_extents rs extents =
     map fst (filter (\<lambda>(_, offset, len). brm_overlaps rs offset len) extents)"

section \<open>Health\<close>

record DiskTelemetry =
  dt_read_errors :: u64
  dt_write_errors :: u64
  dt_checksum_mismatches :: u64
  dt_media_errors :: u64
  dt_timeouts :: u64
  dt_temperature_celsius :: "u32 option"
  dt_latency_p99_us :: "u64 option"

definition telemetry_default :: DiskTelemetry where
  "telemetry_default =
     \<lparr> dt_read_errors = 0, dt_write_errors = 0, dt_checksum_mismatches = 0, dt_media_errors = 0,
       dt_timeouts = 0, dt_temperature_celsius = None, dt_latency_p99_us = None \<rparr>"

record HealthPolicy =
  hp_suspect_error_threshold :: u64
  hp_degraded_error_threshold :: u64
  hp_failed_error_threshold :: u64
  hp_temperature_warning_celsius :: u32
  hp_temperature_critical_celsius :: u32

definition policy_default :: HealthPolicy where
  "policy_default =
     \<lparr> hp_suspect_error_threshold = 5, hp_degraded_error_threshold = 20,
       hp_failed_error_threshold = 100, hp_temperature_warning_celsius = 60,
       hp_temperature_critical_celsius = 75 \<rparr>"

record DiskHealthTracker =
  ht_cumulative :: DiskTelemetry
  ht_policy :: HealthPolicy

definition tracker_new :: DiskHealthTracker where
  "tracker_new = \<lparr> ht_cumulative = telemetry_default, ht_policy = policy_default \<rparr>"

definition health_record :: "DiskTelemetry \<Rightarrow> DiskHealthTracker \<Rightarrow> DiskHealthTracker" where
  "health_record t h =
     (let c = ht_cumulative h in
      h\<lparr> ht_cumulative :=
           \<lparr> dt_read_errors = dt_read_errors c + dt_read_errors t,
             dt_write_errors = dt_write_errors c + dt_write_errors t,
             dt_checksum_mismatches = dt_checksum_mismatches c + dt_checksum_mismatches t,
             dt_media_errors = dt_media_errors c + dt_media_errors t,
             dt_timeouts = dt_timeouts c + dt_timeouts t,
             dt_temperature_celsius =
               (if dt_temperature_celsius t \<noteq> None then dt_temperature_celsius t else dt_temperature_celsius c),
             dt_latency_p99_us =
               (if dt_latency_p99_us t \<noteq> None then dt_latency_p99_us t else dt_latency_p99_us c) \<rparr> \<rparr>)"

definition state_errors :: "DiskTelemetry \<Rightarrow> u64" where
  "state_errors c = dt_read_errors c + dt_write_errors c + dt_checksum_mismatches c + dt_media_errors c"

definition temp_at_least :: "DiskTelemetry \<Rightarrow> u32 \<Rightarrow> bool" where
  "temp_at_least c limit \<longleftrightarrow> (case dt_temperature_celsius c of None \<Rightarrow> False | Some temp \<Rightarrow> temp \<ge> limit)"

definition derive_state :: "DiskHealthTracker \<Rightarrow> DiskState option" where
  "derive_state h =
     (let c = ht_cumulative h; p = ht_policy h; total_errors = state_errors c in
      if total_errors \<ge> hp_failed_error_threshold p then Some Failed
      else if temp_at_least c (hp_temperature_critical_celsius p) then Some Failed
      else if total_errors \<ge> hp_degraded_error_threshold p then Some Degraded
      else if temp_at_least c (hp_temperature_warning_celsius p) then Some Suspect
      else if total_errors \<ge> hp_suspect_error_threshold p then Some Suspect
      else None)"

definition health_total_errors :: "DiskHealthTracker \<Rightarrow> u64" where
  "health_total_errors h = state_errors (ht_cumulative h) + dt_timeouts (ht_cumulative h)"

definition health_reset :: "DiskHealthTracker \<Rightarrow> DiskHealthTracker" where
  "health_reset h = h\<lparr> ht_cumulative := telemetry_default \<rparr>"

section \<open>Inventory\<close>

type_synonym path = string

datatype StorageError =
    SeDiskNotFound DiskId
  | SeMountNotFound path
  | SeDuplicateDisk DiskId
  | SeXfsValidation path
  | SeDiskIdentity path
  | SeInvalidTransition Error
  | SeNotPending DiskId
  | SeAllocBadRegions DiskId
  | SeAllocNotAllowed DiskId
  | SeAllocNoDisk
  | SeExtentNotFound ExtentId u64
  | SeChecksumMismatch ExtentId u64
  | SeStaging ExtentId u64
  | SeIo

record DiskMetadata =
  dm_disk_id :: DiskId
  dm_node_id :: "NodeId option"

datatype QualificationState = Pending | BurnInRunning nat | Qualified

record ManagedDisk =
  mg_disk_id :: DiskId
  mg_mount_path :: path
  mg_state :: DiskState
  mg_qualification :: QualificationState
  mg_health :: DiskHealthTracker
  mg_bad_regions :: BadRegionMap

definition managed_new :: "DiskId \<Rightarrow> path \<Rightarrow> ManagedDisk" where
  "managed_new disk_id mount_path =
     \<lparr> mg_disk_id = disk_id, mg_mount_path = mount_path, mg_state = Healthy,
       mg_qualification = Qualified, mg_health = tracker_new, mg_bad_regions = [] \<rparr>"

definition managed_new_qualifying :: "DiskId \<Rightarrow> path \<Rightarrow> ManagedDisk" where
  "managed_new_qualifying disk_id mount_path =
     \<lparr> mg_disk_id = disk_id, mg_mount_path = mount_path, mg_state = Suspect,
       mg_qualification = Pending, mg_health = tracker_new, mg_bad_regions = [] \<rparr>"

text \<open>
  What discovery reads of a mount point: whether it is a directory, carries the override marker, can
  be examined, its file system type (\<^const>\<open>None\<close> when \<^verbatim>\<open>stat\<close> cannot be run), and the identity file,
  absent, unreadable or readable.
\<close>

datatype IdFile = IdAbsent bool | IdCorrupt | IdPresent DiskMetadata

record MountPoint =
  mp_is_dir :: bool
  mp_xfs_marker :: bool
  mp_stat_ok :: bool
  mp_fs_type :: "string option"
  mp_id_file :: IdFile

record DiskInventory =
  iv_disks :: "(DiskId, ManagedDisk) btree"
  iv_drain_queue :: "DiskId list"

record DiskWorld = DiskInventory +
  iv_skip_xfs_check :: bool
  iv_mounts :: "path \<Rightarrow> MountPoint"

definition inventory_new :: DiskInventory where
  "inventory_new = \<lparr> iv_disks = [], iv_drain_queue = [] \<rparr>"

definition validate_xfs :: "bool \<Rightarrow> path \<Rightarrow> MountPoint \<Rightarrow> (unit, StorageError) result" where
  "validate_xfs skip p m =
     (if skip then Inr ()
      else if mp_xfs_marker m then Inr ()
      else if \<not> mp_stat_ok m then Inl (SeXfsValidation p)
      else case mp_fs_type m of
        Some fs_type \<Rightarrow> if fs_type = ''xfs'' then Inr () else Inl (SeXfsValidation p)
      | None \<Rightarrow> Inl (SeXfsValidation p))"

text \<open>A generated id and the world are arguments; an absent identity file says whether it can be written.\<close>

definition read_or_assign_disk_id ::
  "path \<Rightarrow> NodeId option \<Rightarrow> DiskId \<Rightarrow> DiskWorld \<Rightarrow> (DiskId, StorageError) result \<times> DiskWorld" where
  "read_or_assign_disk_id p node_id generated w =
     (case mp_id_file (iv_mounts w p) of
        IdCorrupt \<Rightarrow> (Inl (SeDiskIdentity p), w)
      | IdPresent metadata \<Rightarrow> (Inr (dm_disk_id metadata), w)
      | IdAbsent writable \<Rightarrow>
          if writable then
            (Inr generated,
             w\<lparr> iv_mounts := (iv_mounts w)(p := (iv_mounts w p)\<lparr> mp_id_file :=
                  IdPresent \<lparr> dm_disk_id = generated, dm_node_id = node_id \<rparr> \<rparr>) \<rparr>)
          else (Inl (SeDiskIdentity p), w))"

definition discover_single_disk ::
  "path \<Rightarrow> bool \<Rightarrow> NodeId option \<Rightarrow> DiskId \<Rightarrow> DiskWorld \<Rightarrow> (DiskId, StorageError) result \<times> DiskWorld" where
  "discover_single_disk p require_qualification node_id generated w =
     (if \<not> mp_is_dir (iv_mounts w p) then (Inl (SeMountNotFound p), w)
      else case validate_xfs (iv_skip_xfs_check w) p (iv_mounts w p) of
        Inl e \<Rightarrow> (Inl e, w)
      | Inr _ \<Rightarrow>
          (case read_or_assign_disk_id p node_id generated w of
             (Inl e, w1) \<Rightarrow> (Inl e, w1)
           | (Inr disk_id, w1) \<Rightarrow>
               (let managed = (if require_qualification then managed_new_qualifying disk_id p
                               else managed_new disk_id p) in
                if bt_get (iv_disks w1) disk_id \<noteq> None then (Inl (SeDuplicateDisk disk_id), w1)
                else (Inr disk_id, w1\<lparr> iv_disks := bt_insert disk_id managed (iv_disks w1) \<rparr>))))"

fun discover_disks_for_node ::
  "(path \<times> DiskId) list \<Rightarrow> bool \<Rightarrow> NodeId option \<Rightarrow> DiskWorld \<Rightarrow> (DiskId list, StorageError) result \<times> DiskWorld" where
  "discover_disks_for_node [] q n w = (Inr [], w)"
| "discover_disks_for_node ((p, generated) # ps) q n w =
     (case discover_single_disk p q n generated w of
        (Inl e, w1) \<Rightarrow> (Inl e, w1)
      | (Inr d, w1) \<Rightarrow>
          (case discover_disks_for_node ps q n w1 of
             (Inl e, w2) \<Rightarrow> (Inl e, w2)
           | (Inr ds, w2) \<Rightarrow> (Inr (d # ds), w2)))"

definition update_disk :: "DiskId \<Rightarrow> ManagedDisk \<Rightarrow> 'z DiskInventory_scheme \<Rightarrow> 'z DiskInventory_scheme" where
  "update_disk d m s = s\<lparr> iv_disks := bt_insert d m (iv_disks s) \<rparr>"

definition transition_state ::
  "DiskId \<Rightarrow> DiskState \<Rightarrow> 'z DiskInventory_scheme \<Rightarrow> (DiskState, StorageError) result \<times> 'z DiskInventory_scheme" where
  "transition_state disk_id new_state s =
     (case bt_get (iv_disks s) disk_id of
        None \<Rightarrow> (Inl (SeDiskNotFound disk_id), s)
      | Some disk \<Rightarrow>
          (let old_state = mg_state disk in
           case validate_transition old_state new_state of
             Inl e \<Rightarrow> (Inl (SeInvalidTransition e), s)
           | Inr _ \<Rightarrow>
               if new_state = Degraded then
                 (let final = (if validate_transition new_state Draining = Inr () then Draining else new_state);
                      s1 = update_disk disk_id (disk\<lparr> mg_state := final \<rparr>) s
                  in (Inr old_state, s1\<lparr> iv_drain_queue := iv_drain_queue s1 @ [disk_id] \<rparr>))
               else (Inr old_state, update_disk disk_id (disk\<lparr> mg_state := new_state \<rparr>) s)))"

definition inv_allows_allocation :: "'z DiskInventory_scheme \<Rightarrow> DiskId \<Rightarrow> (bool, StorageError) result" where
  "inv_allows_allocation s disk_id =
     (case bt_get (iv_disks s) disk_id of
        None \<Rightarrow> Inl (SeDiskNotFound disk_id)
      | Some disk \<Rightarrow> Inr (allows_allocation (mg_state disk) \<and> mg_qualification disk = Qualified))"

definition inv_allows_reads :: "'z DiskInventory_scheme \<Rightarrow> DiskId \<Rightarrow> (bool, StorageError) result" where
  "inv_allows_reads s disk_id =
     (case bt_get (iv_disks s) disk_id of
        None \<Rightarrow> Inl (SeDiskNotFound disk_id) | Some disk \<Rightarrow> Inr (allows_reads (mg_state disk)))"

definition get_state :: "'z DiskInventory_scheme \<Rightarrow> DiskId \<Rightarrow> (DiskState, StorageError) result" where
  "get_state s disk_id =
     (case bt_get (iv_disks s) disk_id of
        None \<Rightarrow> Inl (SeDiskNotFound disk_id) | Some disk \<Rightarrow> Inr (mg_state disk))"

definition list_disks :: "'z DiskInventory_scheme \<Rightarrow> DiskId list" where
  "list_disks s = map fst (iv_disks s)"

definition record_telemetry ::
  "DiskId \<Rightarrow> DiskTelemetry \<Rightarrow> 'z DiskInventory_scheme \<Rightarrow> (unit, StorageError) result \<times> 'z DiskInventory_scheme" where
  "record_telemetry disk_id telemetry s =
     (case bt_get (iv_disks s) disk_id of
        None \<Rightarrow> (Inl (SeDiskNotFound disk_id), s)
      | Some disk \<Rightarrow>
          (let disk1 = disk\<lparr> mg_health := health_record telemetry (mg_health disk) \<rparr>;
               disk2 = (case derive_state (mg_health disk1) of
                          None \<Rightarrow> disk1
                        | Some derived_state \<Rightarrow>
                            if derived_state \<noteq> mg_state disk1 \<and>
                               validate_transition (mg_state disk1) derived_state = Inr ()
                            then disk1\<lparr> mg_state := derived_state \<rparr> else disk1)
           in (Inr (), update_disk disk_id disk2 s)))"

definition complete_qualification ::
  "DiskId \<Rightarrow> 'z DiskInventory_scheme \<Rightarrow> (unit, StorageError) result \<times> 'z DiskInventory_scheme" where
  "complete_qualification disk_id s =
     (case bt_get (iv_disks s) disk_id of
        None \<Rightarrow> (Inl (SeDiskNotFound disk_id), s)
      | Some disk \<Rightarrow>
          if mg_qualification disk = Qualified then (Inr (), s)
          else
            (let disk1 = disk\<lparr> mg_qualification := Qualified \<rparr>;
                 disk2 = (if mg_state disk1 = Suspect then disk1\<lparr> mg_state := Healthy \<rparr> else disk1)
             in (Inr (), update_disk disk_id disk2 s)))"

definition start_burn_in ::
  "DiskId \<Rightarrow> nat \<Rightarrow> 'z DiskInventory_scheme \<Rightarrow> (unit, StorageError) result \<times> 'z DiskInventory_scheme" where
  "start_burn_in disk_id now s =
     (case bt_get (iv_disks s) disk_id of
        None \<Rightarrow> (Inl (SeDiskNotFound disk_id), s)
      | Some disk \<Rightarrow>
          if mg_qualification disk \<noteq> Pending then (Inl (SeNotPending disk_id), s)
          else (Inr (), update_disk disk_id (disk\<lparr> mg_qualification := BurnInRunning now \<rparr>) s))"

definition report_bad_region ::
  "DiskId \<Rightarrow> u64 \<Rightarrow> u64 \<Rightarrow> 'z DiskInventory_scheme \<Rightarrow> (unit, StorageError) result \<times> 'z DiskInventory_scheme" where
  "report_bad_region disk_id offset len s =
     (case bt_get (iv_disks s) disk_id of
        None \<Rightarrow> (Inl (SeDiskNotFound disk_id), s)
      | Some disk \<Rightarrow>
          (Inr (), update_disk disk_id (disk\<lparr> mg_bad_regions := add_region offset len (mg_bad_regions disk) \<rparr>) s))"

definition is_region_quarantined :: "'z DiskInventory_scheme \<Rightarrow> DiskId \<Rightarrow> u64 \<Rightarrow> u64 \<Rightarrow> (bool, StorageError) result" where
  "is_region_quarantined s disk_id offset len =
     (case bt_get (iv_disks s) disk_id of
        None \<Rightarrow> Inl (SeDiskNotFound disk_id)
      | Some disk \<Rightarrow> Inr (brm_overlaps (mg_bad_regions disk) offset len))"

definition has_bad_regions :: "'z DiskInventory_scheme \<Rightarrow> DiskId \<Rightarrow> (bool, StorageError) result" where
  "has_bad_regions s disk_id =
     (case bt_get (iv_disks s) disk_id of
        None \<Rightarrow> Inl (SeDiskNotFound disk_id) | Some disk \<Rightarrow> Inr (length (mg_bad_regions disk) > 0))"

definition take_drain_queue :: "'z DiskInventory_scheme \<Rightarrow> DiskId list \<times> 'z DiskInventory_scheme" where
  "take_drain_queue s = (iv_drain_queue s, s\<lparr> iv_drain_queue := [] \<rparr>)"

section \<open>Commands of the inventory\<close>

datatype InventoryOp =
    OpDiscover "(path \<times> DiskId) list" bool "NodeId option"
  | OpTransition DiskId DiskState
  | OpTelemetry DiskId DiskTelemetry
  | OpQualify DiskId
  | OpBurnIn DiskId nat
  | OpBadRegion DiskId u64 u64
  | OpTakeDrain

datatype InventoryResp =
    RDisks "(DiskId list, StorageError) result"
  | RState "(DiskState, StorageError) result"
  | RUnit "(unit, StorageError) result"
  | RDrain "DiskId list"

fun inventory_step :: "InventoryOp \<Rightarrow> DiskWorld \<Rightarrow> (InventoryResp \<times> DiskWorld) option" where
  "inventory_step (OpDiscover ps q n) w = Some (map_prod RDisks id (discover_disks_for_node ps q n w))"
| "inventory_step (OpTransition d st) w = Some (map_prod RState id (transition_state d st w))"
| "inventory_step (OpTelemetry d t) w = Some (map_prod RUnit id (record_telemetry d t w))"
| "inventory_step (OpQualify d) w = Some (map_prod RUnit id (complete_qualification d w))"
| "inventory_step (OpBurnIn d now) w = Some (map_prod RUnit id (start_burn_in d now w))"
| "inventory_step (OpBadRegion d off len) w = Some (map_prod RUnit id (report_bad_region d off len w))"
| "inventory_step OpTakeDrain w = Some (map_prod RDrain id (take_drain_queue w))"

definition wear :: "DiskId \<Rightarrow> 'z DiskInventory_scheme \<Rightarrow> nat" where
  "wear d s = (case bt_get (iv_disks s) d of None \<Rightarrow> 0 | Some m \<Rightarrow> 3 - service_level (mg_state m))"

definition inventory_ok :: "'z DiskInventory_scheme \<Rightarrow> bool" where
  "inventory_ok s \<longleftrightarrow>
     (\<forall>d m. bt_get (iv_disks s) d = Some m \<longrightarrow> mg_disk_id m = d) \<and> bt_wf (iv_disks s)"

lemmas inventory_op_defs =
  transition_state_def record_telemetry_def complete_qualification_def start_burn_in_def
  report_bad_region_def take_drain_queue_def update_disk_def Let_def

lemma read_or_assign_disks:
  "read_or_assign_disk_id p n g w = (r, w') \<Longrightarrow> iv_disks w' = iv_disks w \<and> iv_drain_queue w' = iv_drain_queue w"
  by (auto simp: read_or_assign_disk_id_def split: IdFile.splits if_splits)

lemma discover_single_disks:
  assumes "discover_single_disk p q n g w = (r, w')"
  shows "iv_disks w' = iv_disks w \<or>
     (\<exists>d m. bt_get (iv_disks w) d = None \<and> iv_disks w' = bt_insert d m (iv_disks w) \<and> mg_disk_id m = d \<and>
        service_level (mg_state m) = 3)"
proof -
  obtain r1 w1 where ra: "read_or_assign_disk_id p n g w = (r1, w1)" by fastforce
  have w1: "iv_disks w1 = iv_disks w" using read_or_assign_disks[OF ra] by simp
  let ?m = "\<lambda>d. if q then managed_new_qualifying d p else managed_new d p"
  have m: "mg_disk_id (?m d) = d" "service_level (mg_state (?m d)) = 3" for d
    by (auto simp: managed_new_def managed_new_qualifying_def)
  show ?thesis
  proof (cases "\<exists>d. r1 = Inr d \<and> bt_get (iv_disks w) d = None \<and> iv_disks w' = bt_insert d (?m d) (iv_disks w)")
    case True
    with m show ?thesis by blast
  next
    case False
    with assms have "iv_disks w' = iv_disks w"
      using w1 by (auto simp: discover_single_disk_def Let_def ra split: if_splits sum.splits)
    then show ?thesis by blast
  qed
qed

lemma discover_keeps:
  assumes "inventory_ok w" "discover_disks_for_node ps q n w = (r, w')"
  shows "inventory_ok w' \<and> wear d w' \<ge> wear d w \<and> (\<forall>m. bt_get (iv_disks w) d = Some m \<longrightarrow> bt_get (iv_disks w') d = Some m)"
  using assms
proof (induction ps arbitrary: w r w')
  case (Cons pg ps)
  obtain p g where [simp]: "pg = (p, g)" by fastforce
  obtain r1 w1 where s1: "discover_single_disk p q n g w = (r1, w1)" by fastforce
  have step: "inventory_ok w1 \<and> wear d w \<le> wear d w1 \<and> (\<forall>m. bt_get (iv_disks w) d = Some m \<longrightarrow> bt_get (iv_disks w1) d = Some m)"
    using discover_single_disks[OF s1]
  proof (elim disjE exE conjE)
    assume "iv_disks w1 = iv_disks w"
    with Cons.prems(1) show ?thesis by (simp add: inventory_ok_def wear_def)
  next
    fix d1 m assume "bt_get (iv_disks w) d1 = None" "iv_disks w1 = bt_insert d1 m (iv_disks w)"
      "mg_disk_id m = d1" "service_level (mg_state m) = 3"
    with Cons.prems(1) show ?thesis
      by (cases "d = d1") (simp_all add: inventory_ok_def wear_def)
  qed
  show ?case
  proof (cases r1)
    case (Inl e)
    with step Cons.prems(2) s1 show ?thesis by simp
  next
    case (Inr d1)
    obtain r2 w2 where s2: "discover_disks_for_node ps q n w1 = (r2, w2)" by fastforce
    from Cons.IH[OF _ s2] step have "inventory_ok w2 \<and> wear d w1 \<le> wear d w2 \<and>
        (\<forall>m. bt_get (iv_disks w1) d = Some m \<longrightarrow> bt_get (iv_disks w2) d = Some m)" by blast
    moreover have "w' = w2" using Cons.prems(2) s1 s2 Inr by (auto split: sum.splits)
    ultimately show ?thesis using step by auto
  qed
qed simp

lemma validate_level:
  "validate_transition a b = Inr () \<Longrightarrow> 3 - service_level a \<le> 3 - service_level b"
  using validate_transition_level by (simp add: diff_le_mono2)

lemma wear_update: "wear d (update_disk d' m s) = (if d = d' then 3 - service_level (mg_state m) else wear d s)"
  by (simp add: wear_def update_disk_def)

lemma inventory_ok_update: "inventory_ok s \<Longrightarrow> mg_disk_id m = d \<Longrightarrow> inventory_ok (update_disk d m s)"
  by (simp add: inventory_ok_def update_disk_def)

lemma inventory_ok_queue [simp]: "inventory_ok (s\<lparr> iv_drain_queue := q \<rparr>) = inventory_ok s"
  and wear_queue [simp]: "wear d (s\<lparr> iv_drain_queue := q \<rparr>) = wear d s"
  by (simp_all add: inventory_ok_def wear_def)

lemma transition_keeps:
  assumes "inventory_ok s" "transition_state d' st s = (r, s')"
  shows "inventory_ok s' \<and> wear d s \<le> wear d s'"
proof (cases "\<exists>m. bt_get (iv_disks s) d' = Some m \<and> validate_transition (mg_state m) st = Inr ()")
  case False
  then have "s' = s" using assms(2) by (auto simp: transition_state_def Let_def split: option.splits sum.splits)
  with assms show ?thesis by simp
next
  case True
  then obtain m where m: "bt_get (iv_disks s) d' = Some m" "validate_transition (mg_state m) st = Inr ()" by blast
  have id: "mg_disk_id m = d'" using assms(1) m(1) by (simp add: inventory_ok_def)
  have w: "wear d' s = 3 - service_level (mg_state m)" using m(1) by (simp add: wear_def)
  from validate_level[OF m(2)] have lv: "3 - service_level (mg_state m) \<le> 3 - service_level st" .
  show ?thesis
    using assms m id w lv
    by (auto simp: transition_state_def Let_def wear_update inventory_ok_update split: if_splits)
qed

lemma update_keeps:
  assumes "inventory_ok s" "bt_get (iv_disks s) d' = Some m" "mg_disk_id m' = mg_disk_id m"
    and "service_level (mg_state m') \<le> service_level (mg_state m)"
  shows "inventory_ok (update_disk d' m' s) \<and> wear d s \<le> wear d (update_disk d' m' s)"
proof -
  have "mg_disk_id m = d'" using assms(1,2) by (simp add: inventory_ok_def)
  moreover have "wear d' s = 3 - service_level (mg_state m)" using assms(2) by (simp add: wear_def)
  ultimately show ?thesis using assms by (simp add: wear_update inventory_ok_update diff_le_mono2)
qed

lemma telemetry_keeps:
  assumes "inventory_ok s" "record_telemetry d' t s = (r, s')"
  shows "inventory_ok s' \<and> wear d s \<le> wear d s'"
proof (cases "bt_get (iv_disks s) d'")
  case None
  with assms show ?thesis by (simp add: record_telemetry_def)
next
  case (Some m)
  obtain m' where "s' = update_disk d' m' s" "mg_disk_id m' = mg_disk_id m"
    "service_level (mg_state m') \<le> service_level (mg_state m)"
    using assms(2) Some
    by (auto simp: record_telemetry_def Let_def validate_transition_level split: option.splits if_splits)
  with update_keeps[OF assms(1) Some] show ?thesis by simp
qed

lemma qualification_keeps:
  assumes "inventory_ok s" "complete_qualification d' s = (r, s')"
  shows "inventory_ok s' \<and> wear d s \<le> wear d s'"
proof (cases "bt_get (iv_disks s) d'")
  case None
  with assms show ?thesis by (simp add: complete_qualification_def)
next
  case (Some m)
  show ?thesis
  proof (cases "mg_qualification m = Qualified")
    case True
    with assms Some show ?thesis by (simp add: complete_qualification_def)
  next
    case False
    obtain m' where "s' = update_disk d' m' s" "mg_disk_id m' = mg_disk_id m"
      "service_level (mg_state m') \<le> service_level (mg_state m)"
      using assms(2) Some False by (auto simp: complete_qualification_def Let_def split: if_splits)
    with update_keeps[OF assms(1) Some] show ?thesis by simp
  qed
qed

lemma others_keep:
  assumes "inventory_ok s"
  shows "start_burn_in d' now s = (r, s') \<Longrightarrow> inventory_ok s' \<and> wear d s \<le> wear d s'"
    and "report_bad_region d' off len s = (r, s') \<Longrightarrow> inventory_ok s' \<and> wear d s \<le> wear d s'"
  using assms
  by (auto simp: start_burn_in_def report_bad_region_def split: option.splits if_splits
      intro!: update_keeps[THEN conjunct1] update_keeps[THEN conjunct2])

lemma inventory_step_keeps:
  assumes ok: "inventory_ok w" and st: "inventory_step c w = Some (r, w')"
  shows "inventory_ok w' \<and> wear d w \<le> wear d w'"
proof (cases c)
  case (OpDiscover ps q n)
  with st obtain r' where "discover_disks_for_node ps q n w = (r', w')"
    by (cases "discover_disks_for_node ps q n w") auto
  with discover_keeps[OF ok] show ?thesis by blast
next
  case (OpTransition d' s)
  with st obtain r' where "transition_state d' s w = (r', w')" by (cases "transition_state d' s w") auto
  with transition_keeps[OF ok] show ?thesis by blast
next
  case (OpTelemetry d' t)
  with st obtain r' where "record_telemetry d' t w = (r', w')" by (cases "record_telemetry d' t w") auto
  with telemetry_keeps[OF ok] show ?thesis by blast
next
  case (OpQualify d')
  with st obtain r' where "complete_qualification d' w = (r', w')" by (cases "complete_qualification d' w") auto
  with qualification_keeps[OF ok] show ?thesis by blast
next
  case (OpBurnIn d' now)
  with st obtain r' where "start_burn_in d' now w = (r', w')" by (cases "start_burn_in d' now w") auto
  with others_keep(1)[OF ok] show ?thesis by blast
next
  case (OpBadRegion d' off len)
  with st obtain r' where "report_bad_region d' off len w = (r', w')" by (cases "report_bad_region d' off len w") auto
  with others_keep(2)[OF ok] show ?thesis by blast
next
  case OpTakeDrain
  with st ok show ?thesis by (auto simp: take_drain_queue_def)
qed

interpretation inventory: monotone_machine inventory_step inventory_ok "wear d" for d
proof
  fix w :: DiskWorld and c assume ok: "inventory_ok w"
  have "inventory_step c w \<noteq> None" by (cases c) simp_all
  then obtain r w' where "inventory_step c w = Some (r, w')" by auto
  with inventory_step_keeps[OF ok this] show "\<exists>r w'. inventory_step c w = Some (r, w') \<and> inventory_ok w'" by blast
qed (use inventory_step_keeps in blast)

definition registered :: "'z DiskInventory_scheme \<Rightarrow> DiskId set" where
  "registered s = dom (map_of (iv_disks s))"

definition quarantine :: "DiskId \<Rightarrow> 'z DiskInventory_scheme \<Rightarrow> BadRegion set" where
  "quarantine d s = (case bt_get (iv_disks s) d of None \<Rightarrow> {} | Some m \<Rightarrow> set (mg_bad_regions m))"

lemma inventory_step_grows:
  assumes ok: "inventory_ok w" and st: "inventory_step c w = Some (r, w')"
  shows "registered w \<subseteq> registered w' \<and> quarantine d w \<subseteq> quarantine d w'"
proof (cases c)
  case (OpDiscover ps q n)
  with st obtain r' where disc: "discover_disks_for_node ps q n w = (r', w')"
    by (cases "discover_disks_for_node ps q n w") auto
  have keep: "bt_get (iv_disks w') d = Some m" if "bt_get (iv_disks w) d = Some m" for d m
    using discover_keeps[OF ok disc, of d] that by blast
  then have "registered w \<subseteq> registered w'" by (auto simp: registered_def)
  moreover have "quarantine d w \<subseteq> quarantine d w'"
    using keep[of d] by (cases "bt_get (iv_disks w) d") (auto simp: quarantine_def)
  ultimately show ?thesis by simp
qed (use st in \<open>auto simp: inventory_op_defs registered_def quarantine_def add_region_def
        split: option.splits sum.splits if_splits\<close>)

interpretation inventory_registered: monotone_machine inventory_step inventory_ok registered
  by unfold_locales (use inventory_step_grows in blast)

interpretation inventory_quarantine: monotone_machine inventory_step inventory_ok "quarantine d" for d
  by unfold_locales (use inventory_step_grows in blast)

lemma br_overlaps_iff:
  assumes "unat (br_offset r) + unat (br_length r) < 2 ^ 64" "unat off + unat len < 2 ^ 64"
    and "0 < br_length r" "0 < len"
  shows "br_overlaps r off len \<longleftrightarrow>
    {unat (br_offset r) ..< unat (br_offset r) + unat (br_length r)} \<inter> {unat off ..< unat off + unat len} \<noteq> {}"
proof -
  have pos: "0 < unat (br_length r)" "0 < unat len" using assms(3,4) by (simp_all add: unat_gt_0)
  have "br_overlaps r off len \<longleftrightarrow>
      unat (br_offset r) < unat off + unat len \<and> unat off < unat (br_offset r) + unat (br_length r)"
    using assms(1,2) by (simp add: br_overlaps_def br_end_def Let_def word_less_nat_alt unat_saturating_add)
  also have "\<dots> \<longleftrightarrow> max (unat (br_offset r)) (unat off) \<in>
    {unat (br_offset r) ..< unat (br_offset r) + unat (br_length r)} \<inter> {unat off ..< unat off + unat len}"
    using pos by auto
  also have "\<dots> \<longleftrightarrow>
    {unat (br_offset r) ..< unat (br_offset r) + unat (br_length r)} \<inter> {unat off ..< unat off + unat len} \<noteq> {}"
    by auto
  finally show ?thesis .
qed

fun severity :: "DiskState option \<Rightarrow> nat" where
  "severity None = 0"
| "severity (Some Suspect) = 1"
| "severity (Some Degraded) = 2"
| "severity (Some Failed) = 3"
| "severity (Some _) = 0"

definition error_total :: "DiskTelemetry \<Rightarrow> nat" where
  "error_total t = unat (dt_read_errors t) + unat (dt_write_errors t) +
     unat (dt_checksum_mismatches t) + unat (dt_media_errors t)"

lemma unat_state_errors: "error_total c < 2 ^ 64 \<Longrightarrow> unat (state_errors c) = error_total c"
  by (simp add: state_errors_def error_total_def unat_word_ariths)

lemma record_errors:
  "error_total (ht_cumulative h) + error_total t < 2 ^ 64 \<Longrightarrow>
   error_total (ht_cumulative (health_record t h)) = error_total (ht_cumulative h) + error_total t"
  by (simp add: health_record_def Let_def error_total_def unat_word_ariths)

section \<open>Properties\<close>

text \<open>
  C19: Service is only ever lost. Whatever sequence of discoveries, transitions, telemetry reports,
  qualifications and region reports is applied, a registered disk stays registered; once its state
  forbids new allocations the inventory never allows one on it again, once it forbids reads no read
  is allowed again, and a removed disk stays removed.
\<close>

theorem disk_service_never_returns:
  assumes "inventory_ok w" "bt_get (iv_disks w) d = Some m"
    and "run_steps inventory_step cs w = Some (rs, w')"
  shows "\<exists>m'. bt_get (iv_disks w') d = Some m' \<and>
    (\<not> allows_allocation (mg_state m) \<longrightarrow> inv_allows_allocation w' d = Inr False) \<and>
    (\<not> allows_reads (mg_state m) \<longrightarrow> inv_allows_reads w' d = Inr False) \<and>
    (mg_state m = Removed \<longrightarrow> mg_state m' = Removed)"
proof -
  have "d \<in> registered w'"
    using inventory_registered.run_level[OF assms(1,3)] assms(2) by (auto simp: registered_def)
  then obtain m' where m': "bt_get (iv_disks w') d = Some m'" by (auto simp: registered_def)
  have lv: "service_level (mg_state m') \<le> service_level (mg_state m)"
    using inventory.run_level[OF assms(1,3), of d] assms(2) m'
    by (cases "mg_state m"; cases "mg_state m'") (simp_all add: wear_def)
  have "mg_state m' = Removed" if "mg_state m = Removed"
    using lv that by (cases "mg_state m'") auto
  with lv m' show ?thesis
    by (cases "mg_state m"; cases "mg_state m'") (simp_all add: inv_allows_allocation_def inv_allows_reads_def)
qed

text \<open>
  Marking a disk degraded evacuates it: an accepted transition to the degraded state leaves the
  disk draining and puts it on the drain queue that the drain task takes next; every other disk is
  untouched.
\<close>

theorem degraded_transition_drains:
  assumes "transition_state d Degraded s = (Inr old, s')"
  shows "get_state s' d = Inr Draining \<and> fst (take_drain_queue s') = iv_drain_queue s @ [d] \<and>
    (\<forall>d'. d' \<noteq> d \<longrightarrow> bt_get (iv_disks s') d' = bt_get (iv_disks s) d')"
  using assms
  by (auto simp: transition_state_def Let_def get_state_def update_disk_def take_drain_queue_def
      validate_transition_iff transition_valid_def split: option.splits sum.splits)

text \<open>
  Telemetry degrades a disk without evacuating it: when a report pushes a healthy or suspect
  disk over the degraded threshold, the disk is left in the degraded state and the drain queue is
  unchanged.
\<close>

theorem telemetry_degrades_without_draining:
  assumes "bt_get (iv_disks s) d = Some m" "mg_state m \<in> {Healthy, Suspect}"
    and "derive_state (health_record t (mg_health m)) = Some Degraded"
    and "record_telemetry d t s = (r, s')"
  shows "get_state s' d = Inr Degraded \<and> iv_drain_queue s' = iv_drain_queue s"
  using assms
  by (auto simp: record_telemetry_def Let_def get_state_def update_disk_def validate_transition_iff
      transition_valid_def)

text \<open>
  C20: A reported bad region stays quarantined: after the report and any further commands, every
  non-empty byte range that shares a byte with the region is reported as quarantined (for ranges
  that end within the 64-bit address space).
\<close>

theorem bad_region_quarantined_forever:
  assumes "inventory_ok w" "report_bad_region d off len w = (Inr (), w1)" "0 < len"
    and "run_steps inventory_step cs w1 = Some (rs, w')"
    and "unat off + unat len < 2 ^ 64" "unat off' + unat len' < 2 ^ 64"
    and "{unat off ..< unat off + unat len} \<inter> {unat off' ..< unat off' + unat len'} \<noteq> {}"
  shows "is_region_quarantined w' d off' len' = Inr True"
proof -
  let ?r = "\<lparr> br_offset = off, br_length = len \<rparr>"
  from assms(2,3) have r: "?r \<in> quarantine d w1"
    by (auto simp: report_bad_region_def quarantine_def add_region_def update_disk_def split: option.splits)
  have "inventory_ok w1" using others_keep(2)[OF assms(1,2)] by simp
  then have "?r \<in> quarantine d w'"
    using inventory_quarantine.run_level[OF _ assms(4), of d] r by auto
  then obtain m where m: "bt_get (iv_disks w') d = Some m" "?r \<in> set (mg_bad_regions m)"
    by (auto simp: quarantine_def split: option.splits)
  have "0 < unat len'" using assms(7) by (cases "unat len'") auto
  then have "0 < len'" by (simp add: word_less_nat_alt)
  then have "br_overlaps ?r off' len'"
    using br_overlaps_iff[of ?r off' len'] assms(3,5,6,7) by simp
  with m show ?thesis
    by (auto simp: is_region_quarantined_def brm_overlaps_def list_ex_iff)
qed

text \<open>
  Health never improves by reporting more errors: with the default thresholds, and as long as
  the counters do not overflow and the report carries no temperature, the derived state after a report
  is at least as severe as before.
\<close>

theorem derived_state_monotone:
  assumes "ht_policy h = policy_default" "dt_temperature_celsius t = None"
    and "error_total (ht_cumulative h) + error_total t < 2 ^ 64"
  shows "severity (derive_state h) \<le> severity (derive_state (health_record t h))"
proof -
  let ?h = "health_record t h"
  have e: "state_errors (ht_cumulative h) \<le> state_errors (ht_cumulative ?h)"
    using assms(3) record_errors[OF assms(3)] by (simp add: word_le_nat_alt unat_state_errors)
  have t: "temp_at_least (ht_cumulative ?h) = temp_at_least (ht_cumulative h)"
    using assms(2) by (simp add: health_record_def Let_def temp_at_least_def fun_eq_iff)
  have p: "ht_policy ?h = policy_default" using assms(1) by (simp add: health_record_def Let_def)
  have le: "n \<le> state_errors (ht_cumulative ?h)" if "n \<le> state_errors (ht_cumulative h)" for n
    using that e by (rule order_trans)
  show ?thesis
    by (auto simp: derive_state_def Let_def t p assms(1) policy_default_def intro: le)
qed

section \<open>Concrete instances\<close>

definition demo_world :: DiskWorld where
  "demo_world =
     \<lparr> iv_disks = [(1, (managed_new 1 ''/d1'')\<lparr> mg_state := Failed \<rparr>), (2, managed_new 2 ''/d2'')],
       iv_drain_queue = [], iv_skip_xfs_check = True,
       iv_mounts = (\<lambda>_. \<lparr> mp_is_dir = True, mp_xfs_marker = False, mp_stat_ok = True,
                          mp_fs_type = Some ''xfs'', mp_id_file = IdAbsent True \<rparr>) \<rparr>"

definition demo_errors :: DiskTelemetry where
  "demo_errors = telemetry_default\<lparr> dt_read_errors := 25 \<rparr>"

lemma demo_world_ok: "inventory_ok demo_world"
  by (auto simp: inventory_ok_def demo_world_def managed_new_def split: if_splits)

theorem disk_service_never_returns_witness:
  "\<exists>rs w'. run_steps inventory_step [OpQualify 1, OpTransition 1 Healthy, OpTelemetry 1 demo_errors] demo_world = Some (rs, w') \<and>
     inv_allows_allocation w' 1 = Inr False \<and> inv_allows_reads w' 1 = Inr False"
proof -
  obtain rs w' where r: "run_steps inventory_step [OpQualify 1, OpTransition 1 Healthy, OpTelemetry 1 demo_errors] demo_world = Some (rs, w')"
    using inventory.run_inv[OF demo_world_ok] by blast
  have "bt_get (iv_disks demo_world) 1 = Some ((managed_new 1 ''/d1'')\<lparr> mg_state := Failed \<rparr>)"
    by (simp add: demo_world_def)
  from disk_service_never_returns[OF demo_world_ok this r] r show ?thesis by auto
qed

theorem degraded_transition_drains_witness:
  "\<exists>s'. transition_state 2 Degraded demo_world = (Inr Healthy, s') \<and> get_state s' 2 = Inr Draining"
proof -
  obtain s' where t: "transition_state 2 Degraded demo_world = (Inr Healthy, s')"
    by (simp add: transition_state_def demo_world_def managed_new_def Let_def validate_transition_def transition_valid_def)
  from degraded_transition_drains[OF t] t show ?thesis by auto
qed

theorem telemetry_degrades_without_draining_witness:
  "\<exists>r s'. record_telemetry 2 demo_errors demo_world = (r, s') \<and> get_state s' 2 = Inr Degraded \<and> iv_drain_queue s' = []"
proof -
  obtain r s' where t: "record_telemetry 2 demo_errors demo_world = (r, s')" by fastforce
  have m: "bt_get (iv_disks demo_world) 2 = Some (managed_new 2 ''/d2'')" by (simp add: demo_world_def)
  have "derive_state (health_record demo_errors (mg_health (managed_new 2 ''/d2''))) = Some Degraded" by code_simp
  from telemetry_degrades_without_draining[OF m _ this t] t show ?thesis
    by (auto simp: managed_new_def demo_world_def)
qed

theorem bad_region_quarantined_forever_witness:
  "\<exists>w1 rs w'. report_bad_region 2 4096 512 demo_world = (Inr (), w1) \<and>
     run_steps inventory_step [OpTakeDrain] w1 = Some (rs, w') \<and> is_region_quarantined w' 2 4600 100 = Inr True"
proof -
  obtain w1 where b: "report_bad_region 2 4096 512 demo_world = (Inr (), w1)"
    by (simp add: report_bad_region_def demo_world_def)
  obtain rs w' where r: "run_steps inventory_step [OpTakeDrain] w1 = Some (rs, w')"
    by (simp add: take_drain_queue_def)
  have "(4600::nat) \<in> {unat (4096::u64) ..< unat (4096::u64) + unat (512::u64)} \<inter> {unat (4600::u64) ..< unat (4600::u64) + unat (100::u64)}"
    by simp
  then have ne: "{unat (4096::u64) ..< unat (4096::u64) + unat (512::u64)} \<inter> {unat (4600::u64) ..< unat (4600::u64) + unat (100::u64)} \<noteq> {}"
    by blast
  have "is_region_quarantined w' 2 4600 100 = Inr True"
    by (rule bad_region_quarantined_forever[OF demo_world_ok b _ r _ _ ne]) simp_all
  with b r show ?thesis by blast
qed

theorem derived_state_monotone_witness:
  "severity (derive_state tracker_new) \<le> severity (derive_state (health_record demo_errors tracker_new))"
  by (rule derived_state_monotone)
     (simp_all add: tracker_new_def demo_errors_def telemetry_default_def error_total_def)

end
