(* ===== verification/Extent.thy ===== *)
theory Extent
  imports Disk "HOL-Library.Product_Lexorder"
begin

text \<open>
  Extent files of one disk (\<^verbatim>\<open>blockyard-storage/src/extent.rs\<close>): paths, staging, the commit sequence, verified
  reads, clean-up of staged files and recovery of the index. Every system call can fail: staging and
  commit take an argument that says how far they get, which is also where a crash can stop them. The
  checksum function (blake3) is an argument. The storage contract that the data node relies on is the
  locale \<^verbatim>\<open>extent_storage\<close>, interpreted here on stage-commit and verified read.
\<close>

section \<open>Types\<close>

type_synonym ExtentVersion = u64
type_synonym ExtentKey = "ExtentId \<times> ExtentVersion"
type_synonym checksum = string

datatype StorageClass = DefaultClass | HighPerformance | Archive

record ExtentMeta =
  xm_extent_id :: ExtentId
  xm_disk_id :: DiskId
  xm_version :: ExtentVersion
  xm_checksum :: checksum
  xm_size :: u64
  xm_storage_class :: StorageClass
  xm_committed_at :: u64

record LocalExtentEntry =
  le_extent_id :: ExtentId
  le_disk_id :: DiskId
  le_key :: ExtentKey
  le_version :: ExtentVersion
  le_checksum :: checksum
  le_size :: u64
  le_storage_class :: StorageClass

type_synonym ExtentIndex = "(ExtentId, LocalExtentEntry) btree"

definition index_insert :: "LocalExtentEntry \<Rightarrow> ExtentIndex \<Rightarrow> ExtentIndex" where
  "index_insert e ix = bt_insert (le_extent_id e) e ix"

definition index_get :: "ExtentIndex \<Rightarrow> ExtentId \<Rightarrow> LocalExtentEntry option" where
  "index_get ix x = bt_get ix x"

definition index_remove :: "ExtentId \<Rightarrow> ExtentIndex \<Rightarrow> LocalExtentEntry option \<times> ExtentIndex" where
  "index_remove x ix = (bt_get ix x, bt_remove x ix)"

definition list_for_disk :: "ExtentIndex \<Rightarrow> DiskId \<Rightarrow> LocalExtentEntry list" where
  "list_for_disk ix d = filter (\<lambda>e. le_disk_id e = d) (bt_values ix)"

section \<open>Paths\<close>

fun decimal :: "nat \<Rightarrow> string" where
  "decimal n = (if n < 10 then [char_of (48 + n)] else decimal (n div 10) @ [char_of (48 + n mod 10)])"

declare decimal.simps [simp del]

definition extent_file_name :: "(uuid \<Rightarrow> string) \<Rightarrow> ExtentId \<Rightarrow> ExtentVersion \<Rightarrow> string" where
  "extent_file_name fmt x v = fmt x @ ''_v'' @ decimal (unat v)"

definition committed_extent_path :: "(uuid \<Rightarrow> string) \<Rightarrow> path \<Rightarrow> ExtentId \<Rightarrow> ExtentVersion \<Rightarrow> path list" where
  "committed_extent_path fmt mount x v =
     [mount, ''committed'', take (min 8 (length (fmt x))) (fmt x), extent_file_name fmt x v]"

definition staged_extent_path :: "(uuid \<Rightarrow> string) \<Rightarrow> path \<Rightarrow> ExtentId \<Rightarrow> ExtentVersion \<Rightarrow> path list" where
  "staged_extent_path fmt mount x v = [mount, ''staged'', extent_file_name fmt x v @ ''.staging'']"

definition extent_meta_path :: "(uuid \<Rightarrow> string) \<Rightarrow> path \<Rightarrow> ExtentId \<Rightarrow> ExtentVersion \<Rightarrow> path list" where
  "extent_meta_path fmt mount x v =
     (let p = committed_extent_path fmt mount x v in butlast p @ [last p @ ''.meta''])"

section \<open>Files of a disk\<close>

text \<open>
  The three kinds of file of one disk, each keyed by extent and version; the paths above are
  injective in them. A metadata file that was created but not completely written does not parse.
\<close>

datatype MetaFile = MetaIncomplete | MetaJson ExtentMeta

record DiskFs =
  fs_staged :: "(ExtentKey, bytes \<times> u64) btree"
  fs_committed :: "(ExtentKey, bytes) btree"
  fs_meta :: "(ExtentKey, MetaFile) btree"

record ExtentStore =
  es_disk_id :: DiskId
  es_fs :: DiskFs

definition store_new :: "DiskId \<Rightarrow> ExtentStore" where
  "store_new d = \<lparr> es_disk_id = d, es_fs = \<lparr> fs_staged = [], fs_committed = [], fs_meta = [] \<rparr> \<rparr>"

text \<open>
  \<^verbatim>\<open>io\<close> says how far the system calls of staging get: the directory, the file, its content (a prefix
  of the data when the write fails), the flush.
\<close>

datatype StageIo = StageOk | StageDirFails | StageCreateFails | StageWriteFails nat | StageSyncFails

definition put_staged :: "ExtentKey \<Rightarrow> bytes \<Rightarrow> u64 \<Rightarrow> ExtentStore \<Rightarrow> ExtentStore" where
  "put_staged k data now st =
     st\<lparr> es_fs := (es_fs st)\<lparr> fs_staged := bt_insert k (data, now) (fs_staged (es_fs st)) \<rparr> \<rparr>"

definition stage_extent ::
  "(bytes \<Rightarrow> checksum) \<Rightarrow> StageIo \<Rightarrow> u64 \<Rightarrow> ExtentId \<Rightarrow> ExtentVersion \<Rightarrow> bytes \<Rightarrow> ExtentStore \<Rightarrow>
   (checksum, StorageError) result \<times> ExtentStore" where
  "stage_extent hash io now x v data st =
     (case io of
        StageDirFails \<Rightarrow> (Inl SeIo, st)
      | StageCreateFails \<Rightarrow> (Inl (SeStaging x v), st)
      | StageWriteFails n \<Rightarrow> (Inl (SeStaging x v), put_staged (x, v) (take n data) now st)
      | StageSyncFails \<Rightarrow> (Inl (SeStaging x v), put_staged (x, v) data now st)
      | StageOk \<Rightarrow> (Inr (hash data), put_staged (x, v) data now st))"

text \<open>
  Committing is a sequence of steps on the files: the directory is made, the metadata file is
  created, written and flushed, the staged file is renamed over the committed one, the directory is
  flushed.
\<close>

datatype CommitStep = CreateDir | CreateMeta | WriteMeta | RenameData | SyncDir

definition commit_steps :: "CommitStep list" where
  "commit_steps = [CreateDir, CreateMeta, WriteMeta, RenameData, SyncDir]"

fun commit_step :: "ExtentKey \<Rightarrow> ExtentMeta \<Rightarrow> CommitStep \<Rightarrow> DiskFs \<Rightarrow> DiskFs" where
  "commit_step k meta CreateDir fs = fs"
| "commit_step k meta CreateMeta fs = fs\<lparr> fs_meta := bt_insert k MetaIncomplete (fs_meta fs) \<rparr>"
| "commit_step k meta WriteMeta fs = fs\<lparr> fs_meta := bt_insert k (MetaJson meta) (fs_meta fs) \<rparr>"
| "commit_step k meta RenameData fs =
     (case bt_get (fs_staged fs) k of
        None \<Rightarrow> fs
      | Some (data, _) \<Rightarrow>
          fs\<lparr> fs_staged := bt_remove k (fs_staged fs), fs_committed := bt_insert k data (fs_committed fs) \<rparr>)"
| "commit_step k meta SyncDir fs = fs"

definition commit_meta ::
  "DiskId \<Rightarrow> u64 \<Rightarrow> ExtentId \<Rightarrow> ExtentVersion \<Rightarrow> checksum \<Rightarrow> u64 \<Rightarrow> StorageClass \<Rightarrow> ExtentMeta" where
  "commit_meta d now x v checksum sz cls =
     \<lparr> xm_extent_id = x, xm_disk_id = d, xm_version = v, xm_checksum = checksum, xm_size = sz,
       xm_storage_class = cls, xm_committed_at = now \<rparr>"

text \<open>
  \<^verbatim>\<open>steps\<close> is the number of steps that take effect before a system call fails or the machine stops;
  all five is success. A missing staged file is reported before anything is touched.
\<close>

definition commit_extent ::
  "nat \<Rightarrow> u64 \<Rightarrow> ExtentId \<Rightarrow> ExtentVersion \<Rightarrow> checksum \<Rightarrow> u64 \<Rightarrow> StorageClass \<Rightarrow> ExtentStore \<Rightarrow>
   (LocalExtentEntry, StorageError) result \<times> ExtentStore" where
  "commit_extent steps now x v checksum sz cls st =
     (if bt_get (fs_staged (es_fs st)) (x, v) = None then (Inl (SeStaging x v), st)
      else
        (let meta = commit_meta (es_disk_id st) now x v checksum sz cls;
             st1 = st\<lparr> es_fs := fold (commit_step (x, v) meta) (take steps commit_steps) (es_fs st) \<rparr>
         in if steps = 0 then (Inl SeIo, st1)
            else if steps < length commit_steps then (Inl (SeStaging x v), st1)
            else (Inr \<lparr> le_extent_id = x, le_disk_id = es_disk_id st, le_key = (x, v), le_version = v,
                        le_checksum = checksum, le_size = sz, le_storage_class = cls \<rparr>, st1)))"

text \<open>\<^verbatim>\<open>io_ok\<close> says whether the file reads that are attempted succeed.\<close>

definition read_extent_io ::
  "(bytes \<Rightarrow> checksum) \<Rightarrow> bool \<Rightarrow> ExtentStore \<Rightarrow> ExtentId \<Rightarrow> ExtentVersion \<Rightarrow> (bytes \<times> checksum, StorageError) result" where
  "read_extent_io hash io_ok st x v =
     (case bt_get (fs_committed (es_fs st)) (x, v) of
        None \<Rightarrow> Inl (SeExtentNotFound x v)
      | Some data \<Rightarrow>
          if \<not> io_ok then Inl SeIo
          else
            (let checksum = hash data in
             case bt_get (fs_meta (es_fs st)) (x, v) of
               Some (MetaJson meta) \<Rightarrow>
                 if xm_checksum meta \<noteq> checksum then Inl (SeChecksumMismatch x v) else Inr (data, checksum)
             | _ \<Rightarrow> Inr (data, checksum)))"

abbreviation read_extent ::
  "(bytes \<Rightarrow> checksum) \<Rightarrow> ExtentStore \<Rightarrow> ExtentId \<Rightarrow> ExtentVersion \<Rightarrow> (bytes \<times> checksum, StorageError) result" where
  "read_extent hash \<equiv> read_extent_io hash True"

definition extent_exists :: "ExtentStore \<Rightarrow> ExtentId \<Rightarrow> ExtentVersion \<Rightarrow> bool" where
  "extent_exists st x v \<longleftrightarrow> bt_get (fs_committed (es_fs st)) (x, v) \<noteq> None"

text \<open>\<^verbatim>\<open>stuck\<close> lists the staged files whose age cannot be read or whose removal fails; they are passed over.\<close>

definition cleanup_orphaned_staged :: "ExtentKey list \<Rightarrow> u64 \<Rightarrow> u64 \<Rightarrow> ExtentStore \<Rightarrow> ExtentKey list \<times> ExtentStore" where
  "cleanup_orphaned_staged stuck now retention_secs st =
     (let old = (\<lambda>(k, data :: bytes, modified). modified \<le> now \<and> now - modified \<ge> retention_secs \<and> k \<notin> set stuck);
          staged = fs_staged (es_fs st)
      in (map fst (filter old staged), st\<lparr> es_fs := (es_fs st)\<lparr> fs_staged := filter (\<lambda>f. \<not> old f) staged \<rparr> \<rparr>))"

record RecoveryReport =
  rr_committed_recovered :: nat
  rr_staged_discarded :: nat
  rr_errors :: nat

definition recover_extent_from_file :: "ExtentStore \<Rightarrow> ExtentKey \<Rightarrow> (LocalExtentEntry, StorageError) result" where
  "recover_extent_from_file st k =
     (case bt_get (fs_meta (es_fs st)) k of
        Some (MetaJson meta) \<Rightarrow>
          Inr \<lparr> le_extent_id = xm_extent_id meta, le_disk_id = xm_disk_id meta, le_key = k,
                le_version = xm_version meta, le_checksum = xm_checksum meta, le_size = xm_size meta,
                le_storage_class = xm_storage_class meta \<rparr>
      | _ \<Rightarrow> Inl (SeExtentNotFound (fst k) (snd k)))"

text \<open>The committed files are visited in the order the directory listing gives them.\<close>

fun scan_committed_dir ::
  "ExtentStore \<Rightarrow> ExtentKey list \<Rightarrow> ExtentIndex \<times> RecoveryReport \<Rightarrow> ExtentIndex \<times> RecoveryReport" where
  "scan_committed_dir st [] (ix, rep) = (ix, rep)"
| "scan_committed_dir st (k # ks) (ix, rep) =
     (case recover_extent_from_file st k of
        Inr entry \<Rightarrow>
          scan_committed_dir st ks (index_insert entry ix,
            rep\<lparr> rr_committed_recovered := rr_committed_recovered rep + 1 \<rparr>)
      | Inl _ \<Rightarrow> scan_committed_dir st ks (ix, rep\<lparr> rr_errors := rr_errors rep + 1 \<rparr>))"

definition recover :: "ExtentKey list \<Rightarrow> ExtentIndex \<Rightarrow> ExtentStore \<Rightarrow> ExtentIndex \<times> RecoveryReport \<times> ExtentStore" where
  "recover listing ix st =
     (let (ix1, rep) = scan_committed_dir st listing
            (ix, \<lparr> rr_committed_recovered = 0, rr_staged_discarded = 0, rr_errors = 0 \<rparr>)
      in (ix1, rep\<lparr> rr_staged_discarded := length (fs_staged (es_fs st)) \<rparr>,
          st\<lparr> es_fs := (es_fs st)\<lparr> fs_staged := [] \<rparr> \<rparr>))"

section \<open>Paths identify extents\<close>

fun parse_decimal :: "nat \<Rightarrow> string \<Rightarrow> nat" where
  "parse_decimal acc [] = acc"
| "parse_decimal acc (c # cs) = parse_decimal (10 * acc + (of_char c - 48)) cs"

lemma parse_decimal_append: "parse_decimal acc (xs @ ys) = parse_decimal (parse_decimal acc xs) ys"
  by (induction xs arbitrary: acc) auto

lemma parse_decimal_decimal: "parse_decimal 0 (decimal n) = n"
proof (induction n rule: decimal.induct)
  case (1 n)
  show ?case
  proof (cases "n < 10")
    case True
    then show ?thesis by (subst decimal.simps) simp
  next
    case False
    then have "parse_decimal 0 (decimal n) = 10 * (n div 10) + n mod 10"
      using 1 by (subst decimal.simps) (simp add: parse_decimal_append)
    then show ?thesis by simp
  qed
qed

lemma inj_decimal: "decimal m = decimal n \<Longrightarrow> m = n"
  by (metis parse_decimal_decimal)

lemma extent_file_name_inj:
  assumes "inj fmt" "\<And>u u'. length (fmt u) = length (fmt u')"
    and "extent_file_name fmt x v = extent_file_name fmt x' v'"
  shows "x = x' \<and> v = v'"
proof -
  from assms(2,3) have "fmt x = fmt x'" "decimal (unat v) = decimal (unat v')"
    by (simp_all add: extent_file_name_def append_eq_append_conv)
  with assms(1) show ?thesis by (auto dest!: injD inj_decimal simp: word_unat_eq_iff)
qed

section \<open>Storing and reading\<close>

definition fs_ok :: "(bytes \<Rightarrow> checksum) \<Rightarrow> ExtentStore \<Rightarrow> bool" where
  "fs_ok hash st \<longleftrightarrow>
     (\<forall>k data. bt_get (fs_committed (es_fs st)) k = Some data \<longrightarrow>
        (\<exists>meta. bt_get (fs_meta (es_fs st)) k = Some (MetaJson meta) \<and> xm_checksum meta = hash data \<and>
           xm_extent_id meta = fst k \<and> xm_version meta = snd k \<and> xm_disk_id meta = es_disk_id st))"

lemma commit_steps_full:
  assumes "bt_get (fs_staged fs) k = Some (data, t)"
  shows "fold (commit_step k meta) (take (length commit_steps) commit_steps) fs =
    fs\<lparr> fs_staged := bt_remove k (fs_staged fs), fs_committed := bt_insert k data (fs_committed fs),
        fs_meta := bt_insert k (MetaJson meta) (bt_insert k MetaIncomplete (fs_meta fs)) \<rparr>"
  using assms by (simp add: commit_steps_def)

definition store_put ::
  "(bytes \<Rightarrow> checksum) \<Rightarrow> u64 \<Rightarrow> StorageClass \<Rightarrow> ExtentKey \<Rightarrow> bytes \<Rightarrow> ExtentStore \<Rightarrow> ExtentStore" where
  "store_put hash now cls k data st =
     (case stage_extent hash StageOk now (fst k) (snd k) data st of
        (Inl _, st1) \<Rightarrow> st1
      | (Inr checksum, st1) \<Rightarrow>
          snd (commit_extent (length commit_steps) now (fst k) (snd k) checksum (of_nat (length data)) cls st1))"

definition store_get :: "(bytes \<Rightarrow> checksum) \<Rightarrow> ExtentStore \<Rightarrow> ExtentKey \<Rightarrow> bytes option" where
  "store_get hash st k = (case read_extent hash st (fst k) (snd k) of Inl _ \<Rightarrow> None | Inr (data, _) \<Rightarrow> Some data)"

text \<open>What a client of a disk relies on: a stored extent reads back, and nothing else changes.\<close>

locale extent_storage =
  fixes put :: "'k \<Rightarrow> 'd \<Rightarrow> 's \<Rightarrow> 's"
    and get :: "'s \<Rightarrow> 'k \<Rightarrow> 'd option"
    and ok :: "'s \<Rightarrow> bool"
  assumes get_put: "ok s \<Longrightarrow> get (put k d s) k = Some d"
    and get_put_other: "ok s \<Longrightarrow> k' \<noteq> k \<Longrightarrow> get (put k d s) k' = get s k'"
    and ok_put: "ok s \<Longrightarrow> ok (put k d s)"
begin

lemma ok_writes: "ok s \<Longrightarrow> ok (fold (\<lambda>(k, d). put k d) ws s)"
  by (induction ws arbitrary: s) (auto simp: ok_put)

lemma last_write_wins:
  "ok s \<Longrightarrow> get (fold (\<lambda>(k, d). put k d) ws s) k =
     (case map_of (rev ws) k of Some d \<Rightarrow> Some d | None \<Rightarrow> get s k)"
proof (induction ws arbitrary: s)
  case (Cons w ws)
  obtain k' d where w: "w = (k', d)" by fastforce
  have "ok (put k' d s)" using Cons.prems by (rule ok_put)
  from Cons.IH[OF this] show ?case
    by (cases "k = k'") (auto simp: w map_add_def get_put[OF Cons.prems] get_put_other[OF Cons.prems]
        split: option.split)
qed simp

end

lemma store_put_fs:
  "es_fs (store_put hash now cls k data st) =
     (es_fs st)\<lparr> fs_staged := bt_remove k (bt_insert k (data, now) (fs_staged (es_fs st))),
        fs_committed := bt_insert k data (fs_committed (es_fs st)),
        fs_meta := bt_insert k (MetaJson (commit_meta (es_disk_id st) now (fst k) (snd k) (hash data) (of_nat (length data)) cls))
          (bt_insert k MetaIncomplete (fs_meta (es_fs st))) \<rparr>"
  "es_disk_id (store_put hash now cls k data st) = es_disk_id st"
  by (simp_all add: store_put_def stage_extent_def put_staged_def commit_extent_def Let_def commit_steps_def)

lemma store_get_eq:
  "store_get hash st k =
     (case bt_get (fs_committed (es_fs st)) k of
        None \<Rightarrow> None
      | Some data \<Rightarrow>
          (case bt_get (fs_meta (es_fs st)) k of
             Some (MetaJson meta) \<Rightarrow> if xm_checksum meta \<noteq> hash data then None else Some data
           | _ \<Rightarrow> Some data))"
  by (auto simp: store_get_def read_extent_io_def Let_def split: option.split MetaFile.split)

interpretation disk_store: extent_storage "store_put hash now cls" "store_get hash" "fs_ok hash" for hash now cls
proof
  fix s k k' d
  show "store_get hash (store_put hash now cls k d s) k = Some d"
    by (simp add: store_get_eq store_put_fs commit_meta_def)
  show "k' \<noteq> k \<Longrightarrow> store_get hash (store_put hash now cls k d s) k' = store_get hash s k'"
    by (auto simp: store_get_eq store_put_fs split: option.split)
  show "fs_ok hash s \<Longrightarrow> fs_ok hash (store_put hash now cls k d s)"
    by (auto simp: fs_ok_def store_put_fs commit_meta_def)
qed

section \<open>Crashes during a commit\<close>

lemma nat_lt5_cases: "n < length commit_steps \<Longrightarrow> n = 0 \<or> n = 1 \<or> n = 2 \<or> n = 3 \<or> n = 4"
  by (auto simp: commit_steps_def)

lemma commit_partial:
  assumes "bt_get (fs_staged (es_fs st)) (x, v) = Some (new, t)"
    and "commit_extent steps now x v checksum sz cls st = (r, st')"
  defines "meta \<equiv> commit_meta (es_disk_id st) now x v checksum sz cls"
  shows "map_of (fs_committed (es_fs st')) =
      (if steps \<ge> 4 then (map_of (fs_committed (es_fs st)))((x, v) \<mapsto> new) else map_of (fs_committed (es_fs st)))"
    and "map_of (fs_meta (es_fs st')) =
      (if steps \<le> 1 then map_of (fs_meta (es_fs st))
       else if steps = 2 then (map_of (fs_meta (es_fs st)))((x, v) \<mapsto> MetaIncomplete)
       else (map_of (fs_meta (es_fs st)))((x, v) \<mapsto> MetaJson meta))"
    and "es_disk_id st' = es_disk_id st"
proof -
  consider "steps = 0" | "steps = 1" | "steps = 2" | "steps = 3" | "steps = 4" | "steps \<ge> 5" by linarith
  note c = this
  show "map_of (fs_committed (es_fs st')) =
      (if steps \<ge> 4 then (map_of (fs_committed (es_fs st)))((x, v) \<mapsto> new) else map_of (fs_committed (es_fs st)))"
    using c assms(1,2) by cases (auto simp: commit_extent_def Let_def commit_steps_def numeral_eq_Suc take_Cons')
  show "map_of (fs_meta (es_fs st')) =
      (if steps \<le> 1 then map_of (fs_meta (es_fs st))
       else if steps = 2 then (map_of (fs_meta (es_fs st)))((x, v) \<mapsto> MetaIncomplete)
       else (map_of (fs_meta (es_fs st)))((x, v) \<mapsto> MetaJson meta))"
    using c assms(1,2) unfolding meta_def
    by cases (auto simp: commit_extent_def Let_def commit_steps_def numeral_eq_Suc take_Cons')
  show "es_disk_id st' = es_disk_id st"
    using assms(1,2) by (auto simp: commit_extent_def Let_def split: if_splits)
qed

lemma scan_committed_ok:
  assumes "fs_ok hash st"
    and "\<forall>k \<in> set ks. bt_get (fs_committed (es_fs st)) k \<noteq> None"
    and "scan_committed_dir st ks (ix, rep) = (ix', rep')"
  shows "rr_committed_recovered rep' = rr_committed_recovered rep + length ks \<and> rr_errors rep' = rr_errors rep \<and>
    (\<forall>x. (x \<notin> fst ` set ks \<longrightarrow> index_get ix' x = index_get ix x) \<and>
         (x \<in> fst ` set ks \<longrightarrow> (\<exists>v e data. (x, v) \<in> set ks \<and> index_get ix' x = Some e \<and> le_version e = v \<and>
            le_disk_id e = es_disk_id st \<and> bt_get (fs_committed (es_fs st)) (x, v) = Some data \<and> le_checksum e = hash data)))"
  using assms(2,3)
proof (induction ks arbitrary: ix rep)
  case (Cons k ks)
  obtain data where data: "bt_get (fs_committed (es_fs st)) k = Some data" using Cons.prems(1) by auto
  then obtain meta where meta: "bt_get (fs_meta (es_fs st)) k = Some (MetaJson meta)" "xm_checksum meta = hash data"
    "xm_extent_id meta = fst k" "xm_version meta = snd k" "xm_disk_id meta = es_disk_id st"
    using assms(1) unfolding fs_ok_def by blast
  obtain e where e: "recover_extent_from_file st k = Inr e" "le_extent_id e = fst k" "le_version e = snd k"
    "le_disk_id e = es_disk_id st" "le_checksum e = hash data"
    using meta by (simp add: recover_extent_from_file_def)
  let ?ix = "index_insert e ix" and ?rep = "rep\<lparr> rr_committed_recovered := rr_committed_recovered rep + 1 \<rparr>"
  have rec: "scan_committed_dir st ks (?ix, ?rep) = (ix', rep')" using Cons.prems(2) e(1) by simp
  have same: "index_get ?ix x = (if x = fst k then Some e else index_get ix x)" for x
    by (simp add: index_insert_def index_get_def e(2))
  from Cons.IH[OF _ rec] Cons.prems(1)
  have ih: "rr_committed_recovered rep' = rr_committed_recovered rep + 1 + length ks \<and> rr_errors rep' = rr_errors rep"
    and out: "\<And>x. x \<notin> fst ` set ks \<Longrightarrow> index_get ix' x = index_get ?ix x"
    and inn: "\<And>x. x \<in> fst ` set ks \<Longrightarrow> \<exists>v e data. (x, v) \<in> set ks \<and> index_get ix' x = Some e \<and> le_version e = v \<and>
            le_disk_id e = es_disk_id st \<and> bt_get (fs_committed (es_fs st)) (x, v) = Some data \<and> le_checksum e = hash data"
    by auto
  have "\<exists>v e data. (x, v) \<in> set (k # ks) \<and> index_get ix' x = Some e \<and> le_version e = v \<and>
            le_disk_id e = es_disk_id st \<and> bt_get (fs_committed (es_fs st)) (x, v) = Some data \<and> le_checksum e = hash data"
    if "x \<in> fst ` set (k # ks)" for x
  proof (cases "x \<in> fst ` set ks")
    case True
    from inn[OF this] show ?thesis by auto
  next
    case False
    with that have x: "x = fst k" by simp
    with out[OF False] same e data show ?thesis
      by (intro exI[of _ "snd k"] exI[of _ e] exI[of _ data]) simp
  qed
  with ih out same show ?case by auto
qed simp

section \<open>Properties\<close>

text \<open>
  Different extents or versions never share a file: given that UUIDs print injectively and with
  a fixed width, committed, staged and metadata paths on a mount determine extent and version, and
  a path of one kind is never a path of another.
\<close>

theorem extent_paths_distinct:
  assumes "inj fmt" "\<And>u u'. length (fmt u) = length (fmt u')"
  shows "(committed_extent_path fmt m x v = committed_extent_path fmt m x' v' \<longrightarrow> x = x' \<and> v = v') \<and>
    (staged_extent_path fmt m x v = staged_extent_path fmt m x' v' \<longrightarrow> x = x' \<and> v = v') \<and>
    (extent_meta_path fmt m x v = extent_meta_path fmt m x' v' \<longrightarrow> x = x' \<and> v = v') \<and>
    staged_extent_path fmt m x v \<noteq> committed_extent_path fmt m x' v' \<and>
    staged_extent_path fmt m x v \<noteq> extent_meta_path fmt m x' v'"
  using extent_file_name_inj[OF assms, of x v x' v']
  by (auto simp: committed_extent_path_def staged_extent_path_def extent_meta_path_def Let_def)

text \<open>
  C22: The last write wins: after any sequence of staged and committed writes to a sound disk, a
  verified read of an extent version returns the data of the last write to it, or what was there
  before if it was not written.
\<close>

theorem extent_last_write_wins:
  assumes "fs_ok hash st"
  shows "store_get hash (fold (\<lambda>(k, d). store_put hash now cls k d) ws st) k =
     (case map_of (rev ws) k of Some d \<Rightarrow> Some d | None \<Rightarrow> store_get hash st k)"
  using assms by (rule disk_store.last_write_wins)

text \<open>
  C23: The first commit of an extent is atomic: wherever the commit stops, a later read either does
  not find the extent or returns exactly the staged data, a reported success means the latter, and
  every other extent reads as before.
\<close>

theorem first_commit_atomic:
  assumes "bt_get (fs_staged (es_fs st)) (x, v) = Some (new, t)"
    and "bt_get (fs_committed (es_fs st)) (x, v) = None"
    and "commit_extent steps now x v (hash new) sz cls st = (r, st')"
  shows "read_extent hash st' x v = (if steps \<ge> 4 then Inr (new, hash new) else Inl (SeExtentNotFound x v)) \<and>
    ((\<exists>e. r = Inr e) \<longrightarrow> read_extent hash st' x v = Inr (new, hash new)) \<and>
    (\<forall>x' v'. (x', v') \<noteq> (x, v) \<longrightarrow> read_extent hash st' x' v' = read_extent hash st x' v')"
proof -
  note p = commit_partial[OF assms(1,3)]
  have rd: "read_extent hash st' x v = (if steps \<ge> 4 then Inr (new, hash new) else Inl (SeExtentNotFound x v))"
    using assms(2) by (auto simp: read_extent_io_def p(1,2) commit_meta_def Let_def)
  moreover have "steps \<ge> 4" if "r = Inr e" for e
    using assms(3) that by (auto simp: commit_extent_def Let_def commit_steps_def split: if_splits)
  moreover have "read_extent hash st' x' v' = read_extent hash st x' v'" if "(x', v') \<noteq> (x, v)" for x' v'
    using that by (auto simp: read_extent_io_def p(1,2) Let_def split: option.split)
  ultimately show ?thesis by auto
qed

text \<open>
  Overwriting a committed extent is not atomic: the metadata is replaced before the data. If the
  machine stops after the new metadata is written and before the rename, the old data is still there
  but every read of the extent fails its checksum; if it stops while the metadata is incomplete, the
  old data is returned without verification and recovery does not find the extent.
\<close>

theorem overwrite_crash_window:
  assumes "fs_ok hash st" "bt_get (fs_committed (es_fs st)) (x, v) = Some old"
    and "bt_get (fs_staged (es_fs st)) (x, v) = Some (new, t)" "hash old \<noteq> hash new"
    and "commit_extent steps now x v (hash new) sz cls st = (r, st')"
  shows "read_extent hash st' x v =
     (if steps \<le> 2 then Inr (old, hash old)
      else if steps = 3 then Inl (SeChecksumMismatch x v)
      else Inr (new, hash new)) \<and>
     (steps = 2 \<longrightarrow> recover_extent_from_file st' (x, v) = Inl (SeExtentNotFound x v))"
proof -
  note p = commit_partial[OF assms(3,5)]
  from assms(1,2) obtain meta where "bt_get (fs_meta (es_fs st)) (x, v) = Some (MetaJson meta)" "xm_checksum meta = hash old"
    unfolding fs_ok_def by blast
  then show ?thesis
    using assms(2,4) by (auto simp: read_extent_io_def recover_extent_from_file_def p(1,2) commit_meta_def Let_def)
qed

text \<open>
  C24: Recovery rebuilds the index from a sound disk: when each extent has one committed version,
  then in whatever order the directory lists the files every committed extent gets an entry with its
  version, disk and the checksum of its data, no file is counted as an error, all staged files are
  discarded, and all committed data reads as before.
\<close>

theorem recover_rebuilds_index:
  assumes "fs_ok hash st" "set listing = dom (map_of (fs_committed (es_fs st)))" "inj_on fst (set listing)"
    and "recover listing ix st = (ix', rep, st')"
    and "bt_get (fs_committed (es_fs st)) (x, v) = Some data"
  shows "(\<exists>e. index_get ix' x = Some e \<and> le_version e = v \<and> le_disk_id e = es_disk_id st \<and> le_checksum e = hash data) \<and>
    rr_committed_recovered rep = length listing \<and> rr_errors rep = 0 \<and> fs_staged (es_fs st') = [] \<and>
    read_extent hash st' x v = Inr (data, hash data)"
proof -
  let ?rep0 = "\<lparr> rr_committed_recovered = 0, rr_staged_discarded = 0, rr_errors = 0 \<rparr>"
  obtain rep1 where sc: "scan_committed_dir st listing (ix, ?rep0) = (ix', rep1)"
    and rep: "rep = rep1\<lparr> rr_staged_discarded := length (fs_staged (es_fs st)) \<rparr>"
    and st': "st' = st\<lparr> es_fs := (es_fs st)\<lparr> fs_staged := [] \<rparr> \<rparr>"
    using assms(4) by (auto simp: recover_def split: prod.splits)
  have all: "\<forall>k \<in> set listing. bt_get (fs_committed (es_fs st)) k \<noteq> None" using assms(2) by auto
  have xv: "(x, v) \<in> set listing" using assms(2,5) by auto
  note sk = scan_committed_ok[OF assms(1) all sc]
  from sk xv obtain v' e data' where "(x, v') \<in> set listing" "index_get ix' x = Some e" "le_version e = v'"
    "le_disk_id e = es_disk_id st" "bt_get (fs_committed (es_fs st)) (x, v') = Some data'" "le_checksum e = hash data'"
    by force
  moreover from this(1) xv assms(3) have "v' = v" by (metis fst_conv inj_onD snd_conv)
  ultimately have "\<exists>e. index_get ix' x = Some e \<and> le_version e = v \<and> le_disk_id e = es_disk_id st \<and> le_checksum e = hash data"
    using assms(5) by auto
  moreover have "read_extent hash st' x v = Inr (data, hash data)"
    using assms(1,5) unfolding fs_ok_def by (fastforce simp: read_extent_io_def st' Let_def)
  ultimately show ?thesis using sk by (simp add: rep st')
qed

section \<open>Concrete instances\<close>

text \<open>A fixed-width injective text of identifiers: their bits.\<close>

definition bit_text :: "uuid \<Rightarrow> string" where
  "bit_text u = map (\<lambda>i. if bit u i then CHR ''1'' else CHR ''0'') [0..<128]"

lemma inj_bit_text: "inj bit_text"
proof (rule injI)
  fix u w assume "bit_text u = bit_text w"
  then have "\<forall>i \<in> set [0..<128]. (if bit u i then CHR ''1'' else CHR ''0'') = (if bit w i then CHR ''1'' else CHR ''0'')"
    unfolding bit_text_def map_eq_conv .
  then have "bit u i = bit w i" if "i < 128" for i using that by (auto split: if_splits)
  then show "u = w" by (intro bit_word_eqI) simp
qed

theorem extent_paths_distinct_witness:
  "committed_extent_path bit_text ''/d1'' 1 1 \<noteq> committed_extent_path bit_text ''/d1'' 1 11 \<and>
   staged_extent_path bit_text ''/d1'' 1 1 \<noteq> committed_extent_path bit_text ''/d1'' 1 11"
proof -
  have "length (bit_text u) = length (bit_text u')" for u u' by (simp add: bit_text_def)
  from extent_paths_distinct[OF inj_bit_text this, of "''/d1''" 1 1 1 11] show ?thesis by auto
qed

definition sum_hash :: "bytes \<Rightarrow> checksum" where
  "sum_hash data = decimal (sum_list (map unat data))"

definition demo_store :: ExtentStore where
  "demo_store = store_put sum_hash 0 DefaultClass (7, 1) [1, 2, 3] (store_new 4)"

definition demo_staged :: ExtentStore where
  "demo_staged = put_staged (7, 1) [9, 9] 1 demo_store"

lemma fs_ok_new: "fs_ok hash (store_new d)"
  by (simp add: fs_ok_def store_new_def)

lemma fs_ok_demo: "fs_ok sum_hash demo_store"
  unfolding demo_store_def by (rule disk_store.ok_put[OF fs_ok_new])

lemma fs_ok_demo_staged: "fs_ok sum_hash demo_staged"
  using fs_ok_demo by (simp add: fs_ok_def demo_staged_def put_staged_def)

lemma demo_files:
  "bt_get (fs_committed (es_fs demo_staged)) (7, 1) = Some [1, 2, 3]"
  "bt_get (fs_staged (es_fs demo_staged)) (7, 1) = Some ([9, 9], 1)"
  "bt_get (fs_committed (es_fs demo_store)) (7, 1) = Some [1, 2, 3]"
  by (simp_all add: demo_staged_def demo_store_def put_staged_def store_put_fs store_new_def)

theorem extent_last_write_wins_witness:
  "store_get sum_hash (fold (\<lambda>(k, d). store_put sum_hash 5 Archive k d) [((7, 1), [4]), ((8, 1), [5]), ((7, 1), [6])] demo_store) (7, 1) = Some [6]"
  using extent_last_write_wins[OF fs_ok_demo, of 5 Archive "[((7, 1), [4]), ((8, 1), [5]), ((7, 1), [6])]" "(7, 1)"] by simp

theorem first_commit_atomic_witness:
  "\<exists>r st'. commit_extent 3 0 7 1 (sum_hash [9]) 1 DefaultClass (put_staged (7, 1) [9] 0 (store_new 4)) = (r, st') \<and>
     read_extent sum_hash st' 7 1 = Inl (SeExtentNotFound 7 1)"
proof -
  obtain r st' where c: "commit_extent 3 0 7 1 (sum_hash [9]) 1 DefaultClass (put_staged (7, 1) [9] 0 (store_new 4)) = (r, st')"
    by fastforce
  from first_commit_atomic[where hash = sum_hash and new = "[9]" and t = 0, OF _ _ c] c show ?thesis by (simp add: put_staged_def store_new_def)
qed

theorem overwrite_crash_window_witness:
  "\<exists>r st'. commit_extent 3 1 7 1 (sum_hash [9, 9]) 2 DefaultClass demo_staged = (r, st') \<and>
     read_extent sum_hash st' 7 1 = Inl (SeChecksumMismatch 7 1)"
proof -
  obtain r st' where c: "commit_extent 3 1 7 1 (sum_hash [9, 9]) 2 DefaultClass demo_staged = (r, st')" by fastforce
  have "sum_hash [1, 2, 3] \<noteq> sum_hash [9, 9]" by (auto simp: sum_hash_def dest!: inj_decimal)
  from overwrite_crash_window[OF fs_ok_demo_staged demo_files(1,2) this c] c show ?thesis by simp
qed

theorem recover_rebuilds_index_witness:
  "\<exists>ix' rep st'. recover [(7, 1)] [] demo_store = (ix', rep, st') \<and> rr_errors rep = 0 \<and>
     read_extent sum_hash st' 7 1 = Inr ([1, 2, 3], sum_hash [1, 2, 3])"
proof -
  obtain ix' rep st' where r: "recover [(7, 1)] [] demo_store = (ix', rep, st')" using prod_cases3 by blast
  have "set [(7, 1)] = dom (map_of (fs_committed (es_fs demo_store)))"
    by (simp add: demo_store_def store_put_fs store_new_def)
  from recover_rebuilds_index[OF fs_ok_demo this _ r demo_files(3)] r show ?thesis by simp
qed

end
