(* ===== verification/Auth.thy ===== *)
theory Auth
  imports Common
begin

text \<open>
  Authentication and access control (\<^verbatim>\<open>blockyard-common/src/auth.rs\<close>): peer identities, per-volume
  permissions, and shared-secret tokens. The keyed hash (HMAC-SHA256), the text of a UUID and its
  parser are arguments. Access control refines a table of permissions.
\<close>

section \<open>Bytes\<close>

definition str_bytes :: "string \<Rightarrow> bytes" where
  "str_bytes s = map (\<lambda>c. word_of_nat (of_char c)) s"

definition u64_le_bytes :: "u64 \<Rightarrow> bytes" where
  "u64_le_bytes w = map (\<lambda>i. ucast (drop_bit (8 * i) w)) [0..<8]"

lemma length_u64_le_bytes [simp]: "length (u64_le_bytes w) = 8"
  by (simp add: u64_le_bytes_def)

lemma inj_u64_le_bytes: "u64_le_bytes a = u64_le_bytes b \<Longrightarrow> a = b"
proof -
  assume eq: "u64_le_bytes a = u64_le_bytes b"
  have byte: "(ucast (drop_bit (8 * i) a) :: u8) = ucast (drop_bit (8 * i) b)" if "i < 8" for i
    using eq that unfolding u64_le_bytes_def map_eq_conv by simp
  show "a = b"
  proof (rule bit_word_eqI)
    fix n assume n: "n < LENGTH(64)"
    then have "bit (ucast (drop_bit (8 * (n div 8)) a) :: u8) (n mod 8) = bit (ucast (drop_bit (8 * (n div 8)) b) :: u8) (n mod 8)"
      using byte[of "n div 8"] by simp
    with n show "bit a n = bit b n" by (simp add: bit_ucast_iff bit_drop_bit_eq)
  qed
qed

lemma of_char_nat_less: "(of_char c :: nat) < 256"
  by (metis mod_less_divisor zero_less_numeral of_char_mod_256)

lemma inj_char_byte: "(word_of_nat (of_char c) :: u8) = word_of_nat (of_char d) \<Longrightarrow> c = d"
  using of_char_nat_less[of c] of_char_nat_less[of d]
  by (drule_tac arg_cong[where f = unat]) (simp add: unsigned_of_nat take_bit_eq_mod of_char_eqI)

lemma inj_str_bytes: "str_bytes s = str_bytes t \<Longrightarrow> s = t"
  unfolding str_bytes_def by (rule map_injective) (auto intro: injI inj_char_byte)

section \<open>Identities and access control\<close>

datatype PeerIdentity = Client SessionId | Node NodeId

fun identity_display :: "(uuid \<Rightarrow> string) \<Rightarrow> PeerIdentity \<Rightarrow> string" where
  "identity_display fmt (Client sid) = ''client:'' @ fmt sid"
| "identity_display fmt (Node nid) = ''node:'' @ fmt nid"

record VolumePermission =
  vp_read :: bool
  vp_write :: bool

definition perm_read_only :: VolumePermission where
  "perm_read_only = \<lparr> vp_read = True, vp_write = False \<rparr>"

definition perm_read_write :: VolumePermission where
  "perm_read_write = \<lparr> vp_read = True, vp_write = True \<rparr>"

definition perm_none :: VolumePermission where
  "perm_none = \<lparr> vp_read = False, vp_write = False \<rparr>"

type_synonym VolumeAcl = "(VolumeId, (string, VolumePermission) btree) btree"

definition acl_grant :: "VolumeId \<Rightarrow> string \<Rightarrow> VolumePermission \<Rightarrow> VolumeAcl \<Rightarrow> VolumeAcl" where
  "acl_grant v identity permission acls =
     bt_insert v (bt_insert identity permission (case bt_get acls v of None \<Rightarrow> [] | Some a \<Rightarrow> a)) acls"

definition acl_revoke :: "VolumeId \<Rightarrow> string \<Rightarrow> VolumeAcl \<Rightarrow> VolumeAcl" where
  "acl_revoke v identity acls =
     (case bt_get acls v of
        None \<Rightarrow> acls
      | Some vol_acl \<Rightarrow>
          (let vol_acl' = bt_remove identity vol_acl
           in if vol_acl' = [] then bt_remove v acls else bt_insert v vol_acl' acls))"

definition acl_lookup :: "VolumeAcl \<Rightarrow> VolumeId \<Rightarrow> string \<Rightarrow> VolumePermission option" where
  "acl_lookup acls v identity = Option.bind (bt_get acls v) (\<lambda>a. bt_get a identity)"

definition check_read :: "(uuid \<Rightarrow> string) \<Rightarrow> VolumeAcl \<Rightarrow> VolumeId \<Rightarrow> PeerIdentity \<Rightarrow> bool" where
  "check_read fmt acls v identity =
     (case identity of
        Node _ \<Rightarrow> True
      | Client _ \<Rightarrow>
          (case acl_lookup acls v (identity_display fmt identity) of None \<Rightarrow> False | Some perm \<Rightarrow> vp_read perm))"

definition check_write :: "(uuid \<Rightarrow> string) \<Rightarrow> VolumeAcl \<Rightarrow> VolumeId \<Rightarrow> PeerIdentity \<Rightarrow> bool" where
  "check_write fmt acls v identity =
     (case identity of
        Node _ \<Rightarrow> True
      | Client _ \<Rightarrow>
          (case acl_lookup acls v (identity_display fmt identity) of None \<Rightarrow> False | Some perm \<Rightarrow> vp_write perm))"

definition list_permissions :: "VolumeAcl \<Rightarrow> VolumeId \<Rightarrow> (string, VolumePermission) btree" where
  "list_permissions acls v = (case bt_get acls v of None \<Rightarrow> [] | Some a \<Rightarrow> a)"

definition acl_remove_volume :: "VolumeId \<Rightarrow> VolumeAcl \<Rightarrow> VolumeAcl" where
  "acl_remove_volume v acls = bt_remove v acls"

section \<open>Tokens\<close>

record AuthToken =
  tk_identity :: string
  tk_issued_at_ms :: u64
  tk_expires_at_ms :: u64
  tk_signature :: string

definition token_is_expired :: "AuthToken \<Rightarrow> u64 \<Rightarrow> bool" where
  "token_is_expired t now_ms \<longleftrightarrow> now_ms \<ge> tk_expires_at_ms t"

definition auth_new :: "string \<Rightarrow> (bytes, Error) result" where
  "auth_new secret =
     (if length secret < 8 then Inl (AuthError ''shared secret must be at least 8 characters'')
      else Inr (str_bytes secret))"

text \<open>\<^verbatim>\<open>hmac\<close> is HMAC-SHA256 followed by hexadecimal encoding.\<close>

definition compute_signature :: "(bytes \<Rightarrow> bytes \<Rightarrow> string) \<Rightarrow> bytes \<Rightarrow> string \<Rightarrow> u64 \<Rightarrow> u64 \<Rightarrow> string" where
  "compute_signature hmac secret identity issued_at_ms expires_at_ms =
     hmac secret (str_bytes identity @ u64_le_bytes issued_at_ms @ u64_le_bytes expires_at_ms)"

definition create_token ::
  "(bytes \<Rightarrow> bytes \<Rightarrow> string) \<Rightarrow> (uuid \<Rightarrow> string) \<Rightarrow> bytes \<Rightarrow> PeerIdentity \<Rightarrow> u64 \<Rightarrow> u64 \<Rightarrow> AuthToken" where
  "create_token hmac fmt secret identity now ttl_ms =
     (let expires = saturating_add now ttl_ms;
          identity_str = identity_display fmt identity
      in \<lparr> tk_identity = identity_str, tk_issued_at_ms = now, tk_expires_at_ms = expires,
           tk_signature = compute_signature hmac secret identity_str now expires \<rparr>)"

fun strip_prefix :: "string \<Rightarrow> string \<Rightarrow> string option" where
  "strip_prefix [] s = Some s"
| "strip_prefix (p # ps) (c # cs) = (if p = c then strip_prefix ps cs else None)"
| "strip_prefix (p # ps) [] = None"

datatype AuthFailure =
    TokenExpired u64 u64
  | BadSignature
  | BadSessionId
  | BadNodeId
  | UnrecognizedIdentity string

definition parse_identity :: "(string \<Rightarrow> uuid option) \<Rightarrow> string \<Rightarrow> (PeerIdentity, AuthFailure) result" where
  "parse_identity parse s =
     (case strip_prefix ''client:'' s of
        Some rest \<Rightarrow> (case parse rest of None \<Rightarrow> Inl BadSessionId | Some sid \<Rightarrow> Inr (Client sid))
      | None \<Rightarrow>
          (case strip_prefix ''node:'' s of
             Some rest \<Rightarrow> (case parse rest of None \<Rightarrow> Inl BadNodeId | Some nid \<Rightarrow> Inr (Node nid))
           | None \<Rightarrow> Inl (UnrecognizedIdentity s)))"

definition validate_token ::
  "(bytes \<Rightarrow> bytes \<Rightarrow> string) \<Rightarrow> (string \<Rightarrow> uuid option) \<Rightarrow> bytes \<Rightarrow> AuthToken \<Rightarrow> u64 \<Rightarrow> (PeerIdentity, AuthFailure) result" where
  "validate_token hmac parse secret token now =
     (if token_is_expired token now then Inl (TokenExpired (tk_expires_at_ms token) now)
      else if tk_signature token \<noteq>
          compute_signature hmac secret (tk_identity token) (tk_issued_at_ms token) (tk_expires_at_ms token)
        then Inl BadSignature
      else parse_identity parse (tk_identity token))"

section \<open>Access control as a table\<close>

datatype AclOp = OpGrant VolumeId string VolumePermission | OpRevoke VolumeId string | OpRemoveVolume VolumeId

fun acl_op :: "AclOp \<Rightarrow> VolumeAcl \<Rightarrow> VolumeAcl" where
  "acl_op (OpGrant v i p) = acl_grant v i p"
| "acl_op (OpRevoke v i) = acl_revoke v i"
| "acl_op (OpRemoveVolume v) = acl_remove_volume v"

fun table_op :: "AclOp \<Rightarrow> (VolumeId \<times> string \<rightharpoonup> VolumePermission) \<Rightarrow> (VolumeId \<times> string \<rightharpoonup> VolumePermission)" where
  "table_op (OpGrant v i p) t = t((v, i) \<mapsto> p)"
| "table_op (OpRevoke v i) t = t((v, i) := None)"
| "table_op (OpRemoveVolume v) t = (\<lambda>(w, i). if w = v then None else t (w, i))"

lemma acl_op_table: "(\<lambda>(v, i). acl_lookup (acl_op c acls) v i) = table_op c (\<lambda>(v, i). acl_lookup acls v i)"
proof (cases c)
  case (OpRevoke v i)
  have "bt_remove i a = [] \<Longrightarrow> j \<noteq> i \<Longrightarrow> map_of a j = None" for a :: "(string, VolumePermission) btree" and j
    by (metis bt_get_remove fun_upd_other map_of.simps(1))
  then show ?thesis
    by (auto simp: OpRevoke acl_lookup_def acl_revoke_def Let_def fun_eq_iff split: option.splits)
qed (auto simp: acl_lookup_def acl_grant_def acl_remove_volume_def fun_eq_iff split: option.splits)

lemma acl_ops_table:
  "(\<lambda>(v, i). acl_lookup (fold acl_op cs acls) v i) = fold table_op cs (\<lambda>(v, i). acl_lookup acls v i)"
  by (induction cs arbitrary: acls) (simp_all add: acl_op_table)

lemma strip_prefix_append [simp]: "strip_prefix p (p @ s) = Some s"
  by (induction p) auto

lemma parse_identity_display:
  "(\<And>u. parse (fmt u) = Some u) \<Longrightarrow> parse_identity parse (identity_display fmt i) = Inr i"
  by (cases i) (simp_all add: parse_identity_def del: append.simps, simp)

lemma signed_content_inj:
  assumes "str_bytes a @ u64_le_bytes b @ u64_le_bytes c = str_bytes a' @ u64_le_bytes b' @ u64_le_bytes c'"
  shows "a = a' \<and> b = b' \<and> c = c'"
proof -
  have "length (u64_le_bytes b @ u64_le_bytes c) = length (u64_le_bytes b' @ u64_le_bytes c')" by simp
  with assms have "str_bytes a = str_bytes a'" "u64_le_bytes b @ u64_le_bytes c = u64_le_bytes b' @ u64_le_bytes c'"
    by (metis append_eq_append_conv)+
  then show ?thesis by (auto dest: inj_str_bytes inj_u64_le_bytes)
qed

section \<open>Properties\<close>

text \<open>
  C25: Access control is a table of permissions: after any sequence of grants, revocations and volume
  removals, a client may read or write a volume exactly if the last surviving grant for that volume
  and identity says so, whatever was granted for other volumes or identities; peer nodes always may.
\<close>

theorem acl_refines_table:
  "(check_write fmt (fold acl_op cs []) v (Client sid) \<longleftrightarrow>
      (\<exists>p. fold table_op cs Map.empty (v, identity_display fmt (Client sid)) = Some p \<and> vp_write p)) \<and>
   (check_read fmt (fold acl_op cs []) v (Client sid) \<longleftrightarrow>
      (\<exists>p. fold table_op cs Map.empty (v, identity_display fmt (Client sid)) = Some p \<and> vp_read p)) \<and>
   check_write fmt (fold acl_op cs []) v (Node nid) \<and> check_read fmt (fold acl_op cs []) v (Node nid)"
proof -
  have "(\<lambda>(v, i). acl_lookup [] v i) = Map.empty" by (auto simp: acl_lookup_def fun_eq_iff)
  then have "acl_lookup (fold acl_op cs []) v i = fold table_op cs Map.empty (v, i)" for i
    using acl_ops_table[of cs "[]"] by (metis (no_types, lifting) case_prod_conv)
  then show ?thesis by (auto simp: check_write_def check_read_def split: option.splits)
qed

text \<open>
  A token is accepted while it lives, and only then: a token created for an identity validates
  back to that identity at every time before its (saturating) expiry and is refused from then on.
\<close>

theorem token_roundtrip:
  assumes "\<And>u. parse (fmt u) = Some u"
  shows "validate_token hmac parse secret (create_token hmac fmt secret i now ttl) t =
    (if t < saturating_add now ttl then Inr i else Inl (TokenExpired (saturating_add now ttl) t))"
  using parse_identity_display[of parse fmt i, OF assms]
  by (auto simp: validate_token_def create_token_def token_is_expired_def Let_def)

definition signed_content :: "AuthToken \<Rightarrow> bytes" where
  "signed_content t = str_bytes (tk_identity t) @ u64_le_bytes (tk_issued_at_ms t) @ u64_le_bytes (tk_expires_at_ms t)"

lemma signature_of_content:
  "compute_signature hmac secret (tk_identity t) (tk_issued_at_ms t) (tk_expires_at_ms t) = hmac secret (signed_content t)"
  by (simp add: compute_signature_def signed_content_def)

text \<open>
  C26: Every accepted token is unexpired and carries a valid code for its content under the secret,
  and it either is, identity and validity included, one of the tokens issued so far, or its content
  is none that was ever signed: altering any part of an issued token, or accepting a new one, takes a
  valid code for a content the issuer never signed. Nothing is assumed of the keyed hash.
\<close>

theorem token_tamper_evident:
  assumes "\<And>u. parse (fmt u) = Some u" "validate_token hmac parse secret t time = Inr j"
  shows "time < tk_expires_at_ms t \<and> tk_signature t = hmac secret (signed_content t) \<and>
    ((\<exists>(i, now, ttl) \<in> issued. t = create_token hmac fmt secret i now ttl \<and> j = i) \<or>
     signed_content t \<notin> (\<lambda>(i, now, ttl). signed_content (create_token hmac fmt secret i now ttl)) ` issued)"
proof -
  from assms(2) have fresh: "time < tk_expires_at_ms t" and sig: "tk_signature t = hmac secret (signed_content t)"
    and id: "parse_identity parse (tk_identity t) = Inr j"
    by (auto simp: validate_token_def token_is_expired_def signature_of_content split: if_splits)
  have "t = create_token hmac fmt secret i now ttl \<and> j = i"
    if eq: "signed_content t = signed_content (create_token hmac fmt secret i now ttl)" for i now ttl
  proof -
    let ?c = "create_token hmac fmt secret i now ttl"
    have "tk_identity t = tk_identity ?c \<and> tk_issued_at_ms t = tk_issued_at_ms ?c \<and> tk_expires_at_ms t = tk_expires_at_ms ?c"
      using eq unfolding signed_content_def by (rule signed_content_inj)
    moreover have "tk_signature ?c = hmac secret (signed_content ?c)"
      by (simp add: create_token_def Let_def signed_content_def compute_signature_def)
    ultimately have t: "t = ?c" using sig eq by (cases t, cases ?c) simp
    with id parse_identity_display[of parse fmt i, OF assms(1)] show ?thesis
      by (simp add: create_token_def Let_def)
  qed
  with fresh sig show ?thesis by fastforce
qed

section \<open>Concrete instances\<close>

definition unary_parse :: "string \<Rightarrow> uuid option" where
  "unary_parse s = Some (word_of_nat (length s))"

lemma unary_parse_text: "unary_parse (unary_text u) = Some u"
  by (simp add: unary_parse_def unary_text_def)

definition plain_mac :: "bytes \<Rightarrow> bytes \<Rightarrow> string" where
  "plain_mac key content = map (char_of \<circ> unat) content"

theorem token_roundtrip_witness:
  "validate_token plain_mac unary_parse [1] (create_token plain_mac unary_text [1] (Client 3) 100 50) 149 = Inr (Client 3)"
  using token_roundtrip[of unary_parse unary_text plain_mac "[1]" "Client 3" 100 50 149, OF unary_parse_text]
  by (simp add: saturating_add_def)

theorem token_tamper_evident_witness:
  "149 < tk_expires_at_ms (create_token plain_mac unary_text [1] (Client 3) 100 50) \<and>
   (\<exists>(i, now, ttl) \<in> {(Client 3, 100, 50), (Node 4, 100, 60)}.
      create_token plain_mac unary_text [1] (Client 3) 100 50 = create_token plain_mac unary_text [1] i now ttl \<and> Client 3 = i)"
proof -
  let ?t = "create_token plain_mac unary_text [1] (Client 3) 100 50"
  have "validate_token plain_mac unary_parse [1] ?t 149 = Inr (Client 3)"
    using parse_identity_display[of unary_parse unary_text "Client 3", OF unary_parse_text]
    by (simp add: validate_token_def create_token_def token_is_expired_def Let_def saturating_add_def)
  from token_tamper_evident[where fmt = unary_text and issued = "{(Client 3, 100, 50), (Node 4, 100, 60)}",
      OF unary_parse_text this]
  show ?thesis by auto
qed

end
