(* ===== verification/DataNode.thy ===== *)
theory DataNode
  imports Extent Auth
begin

text \<open>
  The data node service (\<^verbatim>\<open>blockyard-storage/src/service.rs\<close>): writes and reads of extents against the disks of
  one node, duplicate suppression by operation id with its durable log, epoch and lease checks, disk
  selection and the reaction to I/O errors. The request and response types are those of
  \<^verbatim>\<open>blockyard-protocol/src/messages.rs\<close>; error texts are constructors that carry what the text prints.
\<close>

section \<open>Messages\<close>

record WriteExtentRequest =
  wq_operation_id :: OperationId
  wq_session_id :: SessionId
  wq_volume_id :: VolumeId
  wq_extent_id :: ExtentId
  wq_extent_version :: u64
  wq_epoch :: EpochId
  wq_target_disk_id :: "DiskId option"
  wq_checksum :: checksum
  wq_payload_size :: u64
  wq_lease_version :: "LeaseVersion option"

datatype WriteError =
    WeDenied PeerIdentity VolumeId
  | WePreviousFailed
  | WeStaleEpoch EpochId EpochId
  | WeLeaseMissing VolumeId
  | WeLeaseHeld VolumeId SessionId SessionId
  | WeLeaseStale VolumeId LeaseVersion LeaseVersion
  | WeAllocation StorageError
  | WePayloadChecksum checksum checksum
  | WeNoStore DiskId
  | WeStaging StorageError
  | WeCommit StorageError

record WriteExtentResponse =
  wr_operation_id :: OperationId
  wr_extent_id :: ExtentId
  wr_extent_version :: u64
  wr_disk_id :: DiskId
  wr_success :: bool
  wr_checksum :: checksum
  wr_error :: "WriteError option"

record ReadExtentRequest =
  rq_operation_id :: OperationId
  rq_session_id :: SessionId
  rq_volume_id :: VolumeId
  rq_extent_id :: ExtentId
  rq_extent_version :: u64
  rq_epoch :: EpochId
  rq_offset :: u64
  rq_length :: u64

datatype ReadError =
    ReDenied PeerIdentity VolumeId
  | ReStaleEpoch EpochId EpochId
  | ReNotFound ExtentId
  | ReVersion u64 u64
  | ReDiskNotReadable DiskId
  | ReNoStore DiskId
  | ReFailed StorageError
  | ReChecksum checksum checksum

record ReadExtentResponse =
  rr_operation_id :: OperationId
  rr_extent_id :: ExtentId
  rr_extent_version :: u64
  rr_success :: bool
  rr_checksum :: checksum
  rr_payload_size :: u64
  rr_error :: "ReadError option"

section \<open>State\<close>

record OperationRecord =
  or_operation_id :: OperationId
  or_extent_id :: ExtentId
  or_extent_version :: ExtentVersion
  or_disk_id :: DiskId
  or_checksum :: checksum
  or_success :: bool

record CachedLease =
  cl_session_id :: SessionId
  cl_lease_version :: LeaseVersion

text \<open>The durable operation log: the records of the current file, its size, and the rotated file.\<close>

record DurableOpLog =
  ol_records :: "OperationRecord list"
  ol_size :: nat
  ol_rotated :: "OperationRecord list"

record DataNodeService =
  dn_current_epoch :: EpochId
  dn_operation_log :: "(OperationId, OperationRecord) btree"
  dn_durable_oplog :: "DurableOpLog option"
  dn_stores :: "(DiskId, ExtentStore) btree"
  dn_inventory :: DiskInventory
  dn_index :: ExtentIndex
  dn_lease_cache :: "(VolumeId, CachedLease) btree"
  dn_volume_acl :: VolumeAcl

definition max_oplog_file_size :: nat where
  "max_oplog_file_size = 10 * 1024 * 1024"

definition max_operation_log_size :: nat where
  "max_operation_log_size = 10000"

definition oplog_open :: "DurableOpLog \<Rightarrow> (OperationId, OperationRecord) btree" where
  "oplog_open log = fold (\<lambda>r. bt_insert (or_operation_id r) r) (ol_records log) []"

definition maybe_rotate :: "DurableOpLog \<Rightarrow> DurableOpLog" where
  "maybe_rotate log =
     (if ol_size log > max_oplog_file_size
      then log\<lparr> ol_records := [], ol_size := 0, ol_rotated := ol_records log \<rparr> else log)"

definition oplog_append :: "bool \<Rightarrow> nat \<Rightarrow> OperationRecord \<Rightarrow> DurableOpLog \<Rightarrow> DurableOpLog" where
  "oplog_append io_ok line_len record log =
     maybe_rotate (if io_ok then log\<lparr> ol_records := ol_records log @ [record], ol_size := ol_size log + line_len \<rparr>
                   else log)"

definition service_new :: "DiskInventory \<Rightarrow> ExtentIndex \<Rightarrow> EpochId \<Rightarrow> DataNodeService" where
  "service_new inventory ix e =
     \<lparr> dn_current_epoch = e, dn_operation_log = [], dn_durable_oplog = None, dn_stores = [],
       dn_inventory = inventory, dn_index = ix, dn_lease_cache = [], dn_volume_acl = [] \<rparr>"

definition service_with_oplog :: "DiskInventory \<Rightarrow> ExtentIndex \<Rightarrow> EpochId \<Rightarrow> DurableOpLog \<Rightarrow> DataNodeService" where
  "service_with_oplog inventory ix e log =
     (service_new inventory ix e)\<lparr> dn_operation_log := oplog_open log, dn_durable_oplog := Some log \<rparr>"

definition register_store :: "DiskId \<Rightarrow> ExtentStore \<Rightarrow> DataNodeService \<Rightarrow> DataNodeService" where
  "register_store d store s = s\<lparr> dn_stores := bt_insert d store (dn_stores s) \<rparr>"

definition set_epoch :: "EpochId \<Rightarrow> DataNodeService \<Rightarrow> DataNodeService" where
  "set_epoch e s = s\<lparr> dn_current_epoch := e \<rparr>"

section \<open>Write path\<close>

text \<open>
  What a write depends on besides the request and the state: the clock, the iteration order of the
  hash maps, how far staging and commit get, what the operating system's error message says, a
  generated disk id, and whether the durable log can be written.
\<close>

datatype XfsFault = FsUnusable | FsInputOutput | FsOther

record WriteEnv =
  we_now :: u64
  we_disk_order :: "DiskId list"
  we_stage :: StageIo
  we_commit :: nat
  we_fault :: XfsFault
  we_generated :: DiskId
  we_log_order :: "OperationId list"
  we_append_ok :: bool
  we_line_len :: nat

definition validate_epoch :: "DataNodeService \<Rightarrow> EpochId \<Rightarrow> (unit, WriteError) result" where
  "validate_epoch s request_epoch =
     (if request_epoch < dn_current_epoch s then Inl (WeStaleEpoch request_epoch (dn_current_epoch s)) else Inr ())"

definition validate_epoch_for_read :: "DataNodeService \<Rightarrow> EpochId \<Rightarrow> (unit, ReadError) result" where
  "validate_epoch_for_read s request_epoch =
     (if saturating_add request_epoch 1 < dn_current_epoch s
      then Inl (ReStaleEpoch request_epoch (dn_current_epoch s)) else Inr ())"

definition check_duplicate :: "DataNodeService \<Rightarrow> OperationId \<Rightarrow> OperationRecord option" where
  "check_duplicate s op_id = bt_get (dn_operation_log s) op_id"

definition record_operation :: "WriteEnv \<Rightarrow> OperationRecord \<Rightarrow> DataNodeService \<Rightarrow> DataNodeService" where
  "record_operation env record s =
     (let durable = map_option (oplog_append (we_append_ok env) (we_line_len env) record) (dn_durable_oplog s);
          log = bt_insert (or_operation_id record) record (dn_operation_log s);
          log' = (if length log > max_operation_log_size
                  then (let evict_count = length log - max_operation_log_size + max_operation_log_size div 10
                        in fold bt_remove (take evict_count (we_log_order env)) log)
                  else log)
      in s\<lparr> dn_durable_oplog := durable, dn_operation_log := log' \<rparr>)"

definition write_error ::
  "WriteEnv \<Rightarrow> WriteExtentRequest \<Rightarrow> WriteError \<Rightarrow> DataNodeService \<Rightarrow> WriteExtentResponse \<times> DataNodeService" where
  "write_error env request message s =
     (let disk_id = (case wq_target_disk_id request of Some d \<Rightarrow> d | None \<Rightarrow> we_generated env);
          record = \<lparr> or_operation_id = wq_operation_id request, or_extent_id = wq_extent_id request,
                     or_extent_version = wq_extent_version request, or_disk_id = disk_id,
                     or_checksum = [], or_success = False \<rparr>
      in (\<lparr> wr_operation_id = wq_operation_id request, wr_extent_id = wq_extent_id request,
            wr_extent_version = wq_extent_version request, wr_disk_id = disk_id, wr_success = False,
            wr_checksum = [], wr_error = Some message \<rparr>,
          record_operation env record s))"

definition disk_usable :: "DiskInventory \<Rightarrow> DiskId \<Rightarrow> bool" where
  "disk_usable inventory d \<longleftrightarrow>
     inv_allows_allocation inventory d = Inr True \<and> has_bad_regions inventory d = Inr False"

definition select_write_disk ::
  "DiskInventory \<Rightarrow> DiskId list \<Rightarrow> DiskId option \<Rightarrow> (DiskId, StorageError) result" where
  "select_write_disk inventory order preferred =
     (case preferred of
        Some disk_id \<Rightarrow>
          (case inv_allows_allocation inventory disk_id of
             Inl e \<Rightarrow> Inl e
           | Inr True \<Rightarrow>
               if has_bad_regions inventory disk_id = Inr True then Inl (SeAllocBadRegions disk_id)
               else Inr disk_id
           | Inr False \<Rightarrow> Inl (SeAllocNotAllowed disk_id))
      | None \<Rightarrow>
          (let eligible = filter (disk_usable inventory) order in
           case find (\<lambda>d. get_state inventory d = Inr Healthy) eligible of
             Some d \<Rightarrow> Inr d
           | None \<Rightarrow>
               (case find (\<lambda>d. get_state inventory d = Inr Suspect) eligible of
                  Some d \<Rightarrow> Inr d
                | None \<Rightarrow> Inl SeAllocNoDisk)))"

definition validate_write_lease :: "DataNodeService \<Rightarrow> WriteExtentRequest \<Rightarrow> (unit, WriteError) result" where
  "validate_write_lease s request =
     (case bt_get (dn_lease_cache s) (wq_volume_id request) of
        None \<Rightarrow> Inr ()
      | Some cached \<Rightarrow>
          (case wq_lease_version request of
             None \<Rightarrow> Inl (WeLeaseMissing (wq_volume_id request))
           | Some request_version \<Rightarrow>
               if wq_session_id request \<noteq> cl_session_id cached then
                 Inl (WeLeaseHeld (wq_volume_id request) (cl_session_id cached) (wq_session_id request))
               else if request_version < cl_lease_version cached then
                 Inl (WeLeaseStale (wq_volume_id request) request_version (cl_lease_version cached))
               else Inr ()))"

definition transition_disk :: "DiskId \<Rightarrow> DiskState \<Rightarrow> DataNodeService \<Rightarrow> DataNodeService" where
  "transition_disk d st s = s\<lparr> dn_inventory := snd (transition_state d st (dn_inventory s)) \<rparr>"

definition handle_xfs_error :: "XfsFault \<Rightarrow> DiskId \<Rightarrow> DataNodeService \<Rightarrow> DataNodeService" where
  "handle_xfs_error fault d s =
     (case fault of
        FsUnusable \<Rightarrow> transition_disk d Failed s
      | FsInputOutput \<Rightarrow> transition_disk d Degraded s
      | FsOther \<Rightarrow> s)"

definition handle_read_error :: "DiskId \<Rightarrow> StorageError \<Rightarrow> DataNodeService \<Rightarrow> DataNodeService" where
  "handle_read_error d e s =
     (case e of
        SeChecksumMismatch _ _ \<Rightarrow> transition_disk d Suspect s
      | SeIo \<Rightarrow> transition_disk d Degraded s
      | _ \<Rightarrow> s)"

definition store_and_index ::
  "(bytes \<Rightarrow> checksum) \<Rightarrow> WriteEnv \<Rightarrow> WriteExtentRequest \<Rightarrow> bytes \<Rightarrow> DiskId \<Rightarrow> ExtentStore \<Rightarrow> DataNodeService \<Rightarrow>
   WriteExtentResponse \<times> DataNodeService" where
  "store_and_index hash env request payload disk_id store s =
     (case stage_extent hash (we_stage env) (we_now env) (wq_extent_id request) (wq_extent_version request) payload store of
        (Inl e, store1) \<Rightarrow>
          write_error env request (WeStaging e)
            (handle_xfs_error (we_fault env) disk_id (register_store disk_id store1 s))
      | (Inr checksum, store1) \<Rightarrow>
          (case commit_extent (we_commit env) (we_now env) (wq_extent_id request) (wq_extent_version request)
                  checksum (of_nat (length payload)) DefaultClass store1 of
             (Inl e, store2) \<Rightarrow>
               write_error env request (WeCommit e)
                 (handle_xfs_error (we_fault env) disk_id (register_store disk_id store2 s))
           | (Inr entry, store2) \<Rightarrow>
               (let s1 = register_store disk_id store2 s;
                    s2 = s1\<lparr> dn_index := index_insert entry (dn_index s1) \<rparr>;
                    record = \<lparr> or_operation_id = wq_operation_id request, or_extent_id = wq_extent_id request,
                               or_extent_version = wq_extent_version request, or_disk_id = disk_id,
                               or_checksum = checksum, or_success = True \<rparr>
                in (\<lparr> wr_operation_id = wq_operation_id request, wr_extent_id = wq_extent_id request,
                      wr_extent_version = wq_extent_version request, wr_disk_id = disk_id, wr_success = True,
                      wr_checksum = checksum, wr_error = None \<rparr>,
                    record_operation env record s2))))"

definition handle_write ::
  "(bytes \<Rightarrow> checksum) \<Rightarrow> (uuid \<Rightarrow> string) \<Rightarrow> WriteEnv \<Rightarrow> WriteExtentRequest \<Rightarrow> bytes \<Rightarrow> PeerIdentity \<Rightarrow>
   DataNodeService \<Rightarrow> WriteExtentResponse \<times> DataNodeService" where
  "handle_write hash fmt env request payload caller s =
     (if \<not> check_write fmt (dn_volume_acl s) (wq_volume_id request) caller then
        write_error env request (WeDenied caller (wq_volume_id request)) s
      else case check_duplicate s (wq_operation_id request) of
        Some record \<Rightarrow>
          (\<lparr> wr_operation_id = wq_operation_id request, wr_extent_id = or_extent_id record,
             wr_extent_version = or_extent_version record, wr_disk_id = or_disk_id record,
             wr_success = or_success record, wr_checksum = or_checksum record,
             wr_error = (if or_success record then None else Some WePreviousFailed) \<rparr>, s)
      | None \<Rightarrow>
      (case validate_epoch s (wq_epoch request) of
        Inl msg \<Rightarrow> write_error env request msg s
      | Inr _ \<Rightarrow>
      (case validate_write_lease s request of
        Inl msg \<Rightarrow> write_error env request msg s
      | Inr _ \<Rightarrow>
      (case select_write_disk (dn_inventory s) (we_disk_order env) (wq_target_disk_id request) of
        Inl e \<Rightarrow> write_error env request (WeAllocation e) s
      | Inr disk_id \<Rightarrow>
          if wq_checksum request \<noteq> hash payload then
            write_error env request (WePayloadChecksum (wq_checksum request) (hash payload)) s
          else case bt_get (dn_stores s) disk_id of
            None \<Rightarrow> write_error env request (WeNoStore disk_id) s
          | Some store \<Rightarrow> store_and_index hash env request payload disk_id store s))))"

section \<open>Read path\<close>

text \<open>
  The requested range, padded with zeros beyond the stored data. \<^const>\<open>None\<close> is a panic: slicing with
  an end below the start, which a wrapped end gives, or a vector longer than the largest signed
  machine integer.
\<close>

definition vec_len_ok :: "nat \<Rightarrow> bool" where
  "vec_len_ok n \<longleftrightarrow> int n < 2 ^ 63"

definition read_range :: "bytes \<Rightarrow> u64 \<Rightarrow> u64 \<Rightarrow> bytes option" where
  "read_range data off len =
     (if off = 0 \<and> len = 0 then Some data
      else
        (let start = unat off; e = unat (off + len) in
         if start \<ge> length data then
           (let n = unat (off + len - off) in if vec_len_ok n then Some (replicate n 0) else None)
         else if e > length data then
           if \<not> vec_len_ok (e - start) then None
           else Some (take (e - start) (drop start data @ replicate (e - start) 0))
         else if e < start then None
         else Some (take (e - start) (drop start data))))"

definition read_error :: "ReadExtentRequest \<Rightarrow> ReadError \<Rightarrow> ReadExtentResponse" where
  "read_error request message =
     \<lparr> rr_operation_id = rq_operation_id request, rr_extent_id = rq_extent_id request,
       rr_extent_version = rq_extent_version request, rr_success = False, rr_checksum = [],
       rr_payload_size = 0, rr_error = Some message \<rparr>"

definition handle_read ::
  "(bytes \<Rightarrow> checksum) \<Rightarrow> (uuid \<Rightarrow> string) \<Rightarrow> bool \<Rightarrow> ReadExtentRequest \<Rightarrow> PeerIdentity \<Rightarrow> DataNodeService \<Rightarrow>
   ((ReadExtentResponse \<times> bytes option) \<times> DataNodeService) option" where
  "handle_read hash fmt io_ok request caller s =
     (let fail = (\<lambda>e s. Some ((read_error request e, None), s)) in
      if \<not> check_read fmt (dn_volume_acl s) (rq_volume_id request) caller then
        fail (ReDenied caller (rq_volume_id request)) s
      else case validate_epoch_for_read s (rq_epoch request) of
        Inl msg \<Rightarrow> fail msg s
      | Inr _ \<Rightarrow>
      (case index_get (dn_index s) (rq_extent_id request) of
        None \<Rightarrow> fail (ReNotFound (rq_extent_id request)) s
      | Some entry \<Rightarrow>
          if le_version entry \<noteq> rq_extent_version request then
            fail (ReVersion (rq_extent_version request) (le_version entry)) s
          else if inv_allows_reads (dn_inventory s) (le_disk_id entry) = Inr False then
            fail (ReDiskNotReadable (le_disk_id entry)) (transition_disk (le_disk_id entry) Failed s)
          else case bt_get (dn_stores s) (le_disk_id entry) of
            None \<Rightarrow> fail (ReNoStore (le_disk_id entry)) s
          | Some store \<Rightarrow>
              (case read_extent_io hash io_ok store (rq_extent_id request) (rq_extent_version request) of
                 Inl e \<Rightarrow> fail (ReFailed e) (handle_read_error (le_disk_id entry) e s)
               | Inr (data, read_checksum) \<Rightarrow>
                   if read_checksum \<noteq> le_checksum entry then
                     fail (ReChecksum (le_checksum entry) read_checksum) (transition_disk (le_disk_id entry) Suspect s)
                   else case read_range data (rq_offset request) (rq_length request) of
                     None \<Rightarrow> None
                   | Some payload \<Rightarrow>
                       Some ((\<lparr> rr_operation_id = rq_operation_id request, rr_extent_id = rq_extent_id request,
                                rr_extent_version = rq_extent_version request, rr_success = True,
                                rr_checksum = read_checksum, rr_payload_size = of_nat (length payload),
                                rr_error = None \<rparr>, Some payload), s))))"

section \<open>Lease cache\<close>

definition update_lease :: "VolumeId \<Rightarrow> SessionId \<Rightarrow> LeaseVersion \<Rightarrow> DataNodeService \<Rightarrow> DataNodeService" where
  "update_lease v sess ver s =
     (let put = s\<lparr> dn_lease_cache := bt_insert v \<lparr> cl_session_id = sess, cl_lease_version = ver \<rparr> (dn_lease_cache s) \<rparr> in
      case bt_get (dn_lease_cache s) v of
        Some existing \<Rightarrow> if cl_lease_version existing \<ge> ver then s else put
      | None \<Rightarrow> put)"

definition revoke_lease :: "VolumeId \<Rightarrow> DataNodeService \<Rightarrow> DataNodeService" where
  "revoke_lease v s = s\<lparr> dn_lease_cache := bt_remove v (dn_lease_cache s) \<rparr>"

section \<open>Facts about the operations\<close>

lemma record_operation_frame [simp]:
  "dn_stores (record_operation env r s) = dn_stores s"
  "dn_index (record_operation env r s) = dn_index s"
  "dn_inventory (record_operation env r s) = dn_inventory s"
  "dn_current_epoch (record_operation env r s) = dn_current_epoch s"
  "dn_volume_acl (record_operation env r s) = dn_volume_acl s"
  "dn_lease_cache (record_operation env r s) = dn_lease_cache s"
  by (simp_all add: record_operation_def Let_def)

lemma write_error_frame [simp]:
  "dn_stores (snd (write_error env q e s)) = dn_stores s"
  "dn_index (snd (write_error env q e s)) = dn_index s"
  "dn_inventory (snd (write_error env q e s)) = dn_inventory s"
  "dn_current_epoch (snd (write_error env q e s)) = dn_current_epoch s"
  "dn_volume_acl (snd (write_error env q e s)) = dn_volume_acl s"
  "dn_lease_cache (snd (write_error env q e s)) = dn_lease_cache s"
  "\<not> wr_success (fst (write_error env q e s))"
  "wr_error (fst (write_error env q e s)) = Some e"
  by (simp_all add: write_error_def Let_def)

lemma register_store_frame [simp]:
  "dn_stores (register_store d st s) = bt_insert d st (dn_stores s)"
  "dn_index (register_store d st s) = dn_index s"
  "dn_inventory (register_store d st s) = dn_inventory s"
  "dn_current_epoch (register_store d st s) = dn_current_epoch s"
  "dn_volume_acl (register_store d st s) = dn_volume_acl s"
  "dn_lease_cache (register_store d st s) = dn_lease_cache s"
  "dn_operation_log (register_store d st s) = dn_operation_log s"
  by (simp_all add: register_store_def)

lemma xfs_error_frame [simp]:
  "dn_stores (handle_xfs_error f d s) = dn_stores s"
  "dn_index (handle_xfs_error f d s) = dn_index s"
  "dn_current_epoch (handle_xfs_error f d s) = dn_current_epoch s"
  "dn_volume_acl (handle_xfs_error f d s) = dn_volume_acl s"
  "dn_lease_cache (handle_xfs_error f d s) = dn_lease_cache s"
  "dn_operation_log (handle_xfs_error f d s) = dn_operation_log s"
  by (simp_all add: handle_xfs_error_def transition_disk_def split: XfsFault.split)

definition log_has_room :: "OperationId \<Rightarrow> DataNodeService \<Rightarrow> bool" where
  "log_has_room op s \<longleftrightarrow> (\<forall>r. length (bt_insert op r (dn_operation_log s)) \<le> max_operation_log_size)"

lemma length_bt_insert: "length (bt_insert k v m) = length (bt_insert k v' m)"
  by (induction k v m rule: bt_insert.induct) auto

lemma log_has_room_iff: "log_has_room op s \<longleftrightarrow> length (bt_insert op r (dn_operation_log s)) \<le> max_operation_log_size"
  unfolding log_has_room_def by (metis length_bt_insert)

lemma record_operation_log:
  assumes "log_has_room (or_operation_id r) s"
  shows "dn_operation_log (record_operation env r s) = bt_insert (or_operation_id r) r (dn_operation_log s)"
  using assms by (simp add: record_operation_def Let_def log_has_room_iff[of _ _ r])

lemma check_duplicate_record:
  "log_has_room (or_operation_id r) s \<Longrightarrow>
   check_duplicate (record_operation env r s) op = (if op = or_operation_id r then Some r else check_duplicate s op)"
  by (simp add: check_duplicate_def record_operation_log)

lemma write_error_duplicate:
  assumes "log_has_room (wq_operation_id q) s"
  shows "\<exists>r. check_duplicate (snd (write_error env q e s)) (wq_operation_id q) = Some r \<and> \<not> or_success r"
  using assms by (simp add: write_error_def Let_def check_duplicate_record)

lemma select_write_disk_allowed:
  "select_write_disk iv order pref = Inr d \<Longrightarrow> inv_allows_allocation iv d = Inr True"
  by (auto simp: select_write_disk_def Let_def disk_usable_def find_Some_iff
      split: option.splits sum.splits bool.splits if_splits dest!: nth_mem)

lemma allocation_implies_reads:
  "inv_allows_allocation iv d = Inr True \<Longrightarrow> inv_allows_reads iv d = Inr True"
  by (auto simp: inv_allows_allocation_def inv_allows_reads_def allows_allocation_iff allows_reads_iff split: option.splits)

lemma commit_other_reads:
  assumes "bt_get (fs_staged (es_fs st)) (x, v) = Some (new, t)"
    and "commit_extent steps now x v cs sz cls st = (r, st')" "(x', v') \<noteq> (x, v)"
  shows "read_extent_io hash io st' x' v' = read_extent_io hash io st x' v'"
  using assms(3) by (auto simp: read_extent_io_def commit_partial(1,2)[OF assms(1,2)] Let_def split: option.split)

lemma put_staged_reads: "read_extent_io hash io (put_staged k d t st) x v = read_extent_io hash io st x v"
  by (simp add: read_extent_io_def put_staged_def split: option.split)

lemma stage_other_reads:
  "stage_extent hash io now x v data st = (r, st') \<Longrightarrow> read_extent_io hash rio st' x' v' = read_extent_io hash rio st x' v'"
  by (auto simp: stage_extent_def put_staged_reads split: StageIo.splits)

lemma stage_success:
  "stage_extent hash io now x v data st = (Inr cs, st') \<Longrightarrow>
   cs = hash data \<and> bt_get (fs_staged (es_fs st')) (x, v) = Some (data, now) \<and> es_disk_id st' = es_disk_id st"
  by (auto simp: stage_extent_def put_staged_def split: StageIo.splits)

lemma commit_success_read:
  assumes "bt_get (fs_staged (es_fs st)) (x, v) = Some (data, t)"
    and "commit_extent steps now x v (hash data) sz cls st = (Inr entry, st')"
  shows "read_extent hash st' x v = Inr (data, hash data)" "es_disk_id st' = es_disk_id st"
    "entry = \<lparr> le_extent_id = x, le_disk_id = es_disk_id st, le_key = (x, v), le_version = v,
       le_checksum = hash data, le_size = sz, le_storage_class = cls \<rparr>"
proof -
  note p = commit_partial[OF assms]
  have "steps \<ge> 5" using assms(2) by (auto simp: commit_extent_def Let_def commit_steps_def split: if_splits)
  with p(1,2) show "read_extent hash st' x v = Inr (data, hash data)"
    by (simp add: read_extent_io_def commit_meta_def Let_def)
  show "es_disk_id st' = es_disk_id st" by (rule p(3))
  show "entry = \<lparr> le_extent_id = x, le_disk_id = es_disk_id st, le_key = (x, v), le_version = v,
       le_checksum = hash data, le_size = sz, le_storage_class = cls \<rparr>"
    using assms(2) by (auto simp: commit_extent_def Let_def split: if_splits)
qed

text \<open>The two ways a write that is not a duplicate can end.\<close>

lemma handle_write_cases [consumes 2, case_names refused stored]:
  assumes "handle_write hash fmt env q payload caller s = (resp, s')"
    and "check_duplicate s (wq_operation_id q) = None"
  obtains (refused) e where "resp = fst (write_error env q e s)" "s' = snd (write_error env q e s)"
  | (stored) d store where "check_write fmt (dn_volume_acl s) (wq_volume_id q) caller"
      "validate_epoch s (wq_epoch q) = Inr ()" "validate_write_lease s q = Inr ()"
      "select_write_disk (dn_inventory s) (we_disk_order env) (wq_target_disk_id q) = Inr d"
      "wq_checksum q = hash payload" "bt_get (dn_stores s) d = Some store"
      "store_and_index hash env q payload d store s = (resp, s')"
  using assms unfolding handle_write_def
  by (auto split: if_splits sum.splits option.splits simp: prod_eq_iff)

definition stored_response :: "WriteExtentRequest \<Rightarrow> DiskId \<Rightarrow> checksum \<Rightarrow> WriteExtentResponse" where
  "stored_response q d cs =
     \<lparr> wr_operation_id = wq_operation_id q, wr_extent_id = wq_extent_id q, wr_extent_version = wq_extent_version q,
       wr_disk_id = d, wr_success = True, wr_checksum = cs, wr_error = None \<rparr>"

definition stored_record :: "WriteExtentRequest \<Rightarrow> DiskId \<Rightarrow> checksum \<Rightarrow> OperationRecord" where
  "stored_record q d cs =
     \<lparr> or_operation_id = wq_operation_id q, or_extent_id = wq_extent_id q, or_extent_version = wq_extent_version q,
       or_disk_id = d, or_checksum = cs, or_success = True \<rparr>"

lemma store_and_index_cases [case_names failed finished]:
  fixes store :: ExtentStore
  obtains (failed) e st1 where
      "store_and_index hash env q payload d store s =
         write_error env q e (handle_xfs_error (we_fault env) d (register_store d st1 s))"
      "\<And>io x v. (x, v) \<noteq> (wq_extent_id q, wq_extent_version q) \<Longrightarrow> read_extent_io hash io st1 x v = read_extent_io hash io store x v"
  | (finished) entry st1 where
      "store_and_index hash env q payload d store s =
         (stored_response q d (hash payload),
          record_operation env (stored_record q d (hash payload))
            ((register_store d st1 s)\<lparr> dn_index := index_insert entry (dn_index s) \<rparr>))"
      "\<And>io x v. (x, v) \<noteq> (wq_extent_id q, wq_extent_version q) \<Longrightarrow> read_extent_io hash io st1 x v = read_extent_io hash io store x v"
      "read_extent hash st1 (wq_extent_id q) (wq_extent_version q) = Inr (payload, hash payload)"
      "entry = \<lparr> le_extent_id = wq_extent_id q, le_disk_id = es_disk_id store, le_key = (wq_extent_id q, wq_extent_version q),
         le_version = wq_extent_version q, le_checksum = hash payload, le_size = of_nat (length payload), le_storage_class = DefaultClass \<rparr>"
proof -
  let ?x = "wq_extent_id q" and ?v = "wq_extent_version q"
  obtain r1 st1 where stg: "stage_extent hash (we_stage env) (we_now env) ?x ?v payload store = (r1, st1)" by fastforce
  note one = stage_other_reads[OF stg]
  show thesis
  proof (cases r1)
    case (Inl e)
    show thesis by (rule failed[of "WeStaging e" st1]) (simp_all add: store_and_index_def stg Inl one)
  next
    case (Inr cs)
    note sg = stage_success[OF stg[unfolded Inr], THEN conjunct1] stage_success[OF stg[unfolded Inr], THEN conjunct2, THEN conjunct1]
      stage_success[OF stg[unfolded Inr], THEN conjunct2, THEN conjunct2]
    obtain r2 st2 where cm: "commit_extent (we_commit env) (we_now env) ?x ?v (hash payload) (of_nat (length payload)) DefaultClass st1 = (r2, st2)"
      by fastforce
    have two: "read_extent_io hash io st2 x v = read_extent_io hash io store x v" if "(x, v) \<noteq> (?x, ?v)" for io x v
      using commit_other_reads[OF sg(2) cm that] one by simp
    show thesis
    proof (cases r2)
      case e: (Inl e)
      show thesis by (rule failed[of "WeCommit e" st2]) (simp_all add: store_and_index_def stg Inr cm e sg(1) two)
    next
      case e: (Inr entry)
      note c = commit_success_read[where hash = hash, OF sg(2) cm[unfolded e]]
      show thesis
        by (rule finished[of entry st2])
           (simp_all add: store_and_index_def stg Inr cm e sg(1,3) two c Let_def stored_response_def stored_record_def)
    qed
  qed
qed

lemma store_and_index_other:
  assumes "bt_get (dn_stores s) d = Some store" "(x, v) \<noteq> (wq_extent_id q, wq_extent_version q)"
  shows "map_option (\<lambda>st. read_extent_io hash io st x v) (bt_get (dn_stores (snd (store_and_index hash env q payload d store s))) d') =
         map_option (\<lambda>st. read_extent_io hash io st x v) (bt_get (dn_stores s) d')"
  using assms by (cases rule: store_and_index_cases[of hash env q payload d store s]) simp_all

lemma store_and_index_other_index:
  "x \<noteq> wq_extent_id q \<Longrightarrow> index_get (dn_index (snd (store_and_index hash env q payload d store s))) x = index_get (dn_index s) x"
  by (cases rule: store_and_index_cases[of hash env q payload d store s]) (simp_all add: index_get_def index_insert_def)

lemma store_and_index_failure:
  "\<not> wr_success (fst (store_and_index hash env q payload d store s)) \<Longrightarrow>
   dn_index (snd (store_and_index hash env q payload d store s)) = dn_index s"
  by (cases rule: store_and_index_cases[of hash env q payload d store s]) (simp_all add: stored_response_def)

section \<open>What a node holds\<close>

definition stores_ok :: "DataNodeService \<Rightarrow> bool" where
  "stores_ok s \<longleftrightarrow> (\<forall>d st. bt_get (dn_stores s) d = Some st \<longrightarrow> es_disk_id st = d)"

text \<open>
  The bytes a read of an extent version would find: the index has the version, its disk has a store,
  and the file there passes its own check and that of the index.
\<close>

definition node_held :: "(bytes \<Rightarrow> checksum) \<Rightarrow> DataNodeService \<Rightarrow> ExtentId \<Rightarrow> u64 \<Rightarrow> bytes option" where
  "node_held hash s x v =
     (case index_get (dn_index s) x of
        None \<Rightarrow> None
      | Some entry \<Rightarrow>
          if le_version entry \<noteq> v then None
          else case bt_get (dn_stores s) (le_disk_id entry) of
            None \<Rightarrow> None
          | Some store \<Rightarrow>
              (case read_extent hash store x v of
                 Inl _ \<Rightarrow> None
               | Inr (data, cs) \<Rightarrow> if cs = le_checksum entry then Some data else None))"

lemma node_held_cong: "dn_index s' = dn_index s \<Longrightarrow> dn_stores s' = dn_stores s \<Longrightarrow> node_held hash s' = node_held hash s"
  by (intro ext) (simp only: node_held_def)

lemma write_error_held [simp]: "node_held hash (snd (write_error env q e s)) = node_held hash s"
  by (rule node_held_cong) simp_all

lemma transition_disk_held [simp]: "node_held hash (transition_disk d st s) = node_held hash s"
  by (rule node_held_cong) (simp_all add: transition_disk_def)

lemma handle_write_duplicate:
  assumes "handle_write hash fmt env q payload caller s = (resp, s')" "check_duplicate s (wq_operation_id q) = Some r"
  shows "s' = s \<and> wr_success resp = or_success r \<or> (\<exists>e. s' = snd (write_error env q e s) \<and> \<not> wr_success resp)"
proof (cases "check_write fmt (dn_volume_acl s) (wq_volume_id q) caller")
  case True
  with assms show ?thesis by (auto simp: handle_write_def)
next
  case False
  then have "(resp, s') = write_error env q (WeDenied caller (wq_volume_id q)) s" using assms(1) by (simp add: handle_write_def)
  then show ?thesis by (metis fst_conv snd_conv write_error_frame(7))
qed

lemma evicted_get: "bt_get (fold bt_remove ks m) k = Some r \<Longrightarrow> bt_get m k = Some r"
proof (induction ks arbitrary: m)
  case (Cons j ks)
  then have "bt_get (bt_remove j m) k = Some r" using Cons.IH[of "bt_remove j m"] by simp
  then show ?case by (cases "k = j") simp_all
qed simp

lemma record_operation_get:
  assumes "check_duplicate (record_operation env r s) op = Some r'"
  shows "op = or_operation_id r \<and> r' = r \<or> op \<noteq> or_operation_id r \<and> check_duplicate s op = Some r'"
proof -
  have "bt_get (bt_insert (or_operation_id r) r (dn_operation_log s)) op = Some r'"
    using assms by (auto simp: check_duplicate_def record_operation_def Let_def dest: evicted_get split: if_splits)
  then show ?thesis by (auto simp: check_duplicate_def split: if_splits)
qed

lemma write_error_get:
  assumes "check_duplicate (snd (write_error env q e s)) op = Some r'"
  shows "op = wq_operation_id q \<and> \<not> or_success r' \<or> op \<noteq> wq_operation_id q \<and> check_duplicate s op = Some r'"
  using record_operation_get[of env _ s op r'] assms by (fastforce simp: write_error_def Let_def)

lemma check_duplicate_cong: "dn_operation_log s' = dn_operation_log s \<Longrightarrow> check_duplicate s' = check_duplicate s"
  by (intro ext) (simp add: check_duplicate_def)

lemma handle_write_log:
  assumes "handle_write hash fmt env q payload caller s = (resp, s')" "check_duplicate s' op = Some r" "op \<noteq> wq_operation_id q"
  shows "check_duplicate s op = Some r"
proof (cases "check_duplicate s (wq_operation_id q)")
  case None
  from assms(1) None show ?thesis
  proof (cases rule: handle_write_cases)
    case (refused e)
    then show ?thesis using write_error_get assms(2,3) by blast
  next
    case (stored d store)
    show ?thesis
    proof (cases rule: store_and_index_cases[of hash env q payload d store s])
      case (failed e st1)
      then have "s' = snd (write_error env q e (handle_xfs_error (we_fault env) d (register_store d st1 s)))"
        using stored(7) by (metis snd_conv)
      then have "check_duplicate (handle_xfs_error (we_fault env) d (register_store d st1 s)) op = Some r"
        using write_error_get assms(2,3) by blast
      then show ?thesis by (simp add: check_duplicate_def)
    next
      case (finished entry st1)
      then have "s' = record_operation env (stored_record q d (hash payload)) ((register_store d st1 s)\<lparr> dn_index := index_insert entry (dn_index s) \<rparr>)"
        using stored(7) by simp
      from record_operation_get[OF assms(2)[unfolded this]] show ?thesis
        using assms(3) by (simp add: stored_record_def check_duplicate_def)
    qed
  qed
next
  case (Some r0)
  from handle_write_duplicate[OF assms(1) this] show ?thesis using write_error_get assms(2,3) by blast
qed

text \<open>
  The node holds the given bytes under the extent version, or nothing: its index entry, when there is
  one, is of that version and its disk has those bytes in the committed file.
\<close>

definition holds_at_most :: "DataNodeService \<Rightarrow> ExtentId \<Rightarrow> u64 \<Rightarrow> bytes \<Rightarrow> bool" where
  "holds_at_most s x v data \<longleftrightarrow>
     (\<forall>entry. index_get (dn_index s) x = Some entry \<longrightarrow> le_version entry = v \<and>
        (\<forall>store. bt_get (dn_stores s) (le_disk_id entry) = Some store \<longrightarrow> bt_get (fs_committed (es_fs store)) (x, v) = Some data))"

lemma holds_at_most_absent: "index_get (dn_index s) x = None \<Longrightarrow> holds_at_most s x v data"
  by (simp add: holds_at_most_def)

lemma holds_at_most_cong: "dn_index s' = dn_index s \<Longrightarrow> dn_stores s' = dn_stores s \<Longrightarrow> holds_at_most s' = holds_at_most s"
  unfolding holds_at_most_def by simp

lemma holds_at_most_held: "holds_at_most s x v data \<Longrightarrow> node_held hash s x v = None \<or> node_held hash s x v = Some data"
  by (auto simp: node_held_def holds_at_most_def read_extent_io_def Let_def split: option.splits sum.splits MetaFile.splits if_splits)

lemma stage_committed:
  "stage_extent hash io now x v data st = (r, st') \<Longrightarrow> fs_committed (es_fs st') = fs_committed (es_fs st)"
  by (auto simp: stage_extent_def put_staged_def split: StageIo.splits)

lemma store_and_index_committed:
  fixes store
  obtains st1 where "bt_get (dn_stores (snd (store_and_index hash env q payload d store s))) = (bt_get (dn_stores s))(d \<mapsto> st1)"
    "es_disk_id st1 = es_disk_id store"
    "\<And>x v. bt_get (fs_committed (es_fs st1)) (x, v) = bt_get (fs_committed (es_fs store)) (x, v) \<or>
       (x, v) = (wq_extent_id q, wq_extent_version q) \<and> bt_get (fs_committed (es_fs st1)) (x, v) = Some payload"
    "wr_success (fst (store_and_index hash env q payload d store s)) \<Longrightarrow>
       bt_get (fs_committed (es_fs st1)) (wq_extent_id q, wq_extent_version q) = Some payload"
proof -
  let ?x = "wq_extent_id q" and ?v = "wq_extent_version q"
  obtain r1 st1 where stg: "stage_extent hash (we_stage env) (we_now env) ?x ?v payload store = (r1, st1)" by fastforce
  note one = stage_committed[OF stg]
  have di: "es_disk_id st1 = es_disk_id store" using stg by (auto simp: stage_extent_def put_staged_def split: StageIo.splits)
  show thesis
  proof (cases r1)
    case (Inl e)
    show thesis by (rule that[of st1]) (simp_all add: store_and_index_def stg Inl one di fun_eq_iff)
  next
    case (Inr cs)
    note sg = stage_success[OF stg[unfolded Inr], THEN conjunct1] stage_success[OF stg[unfolded Inr], THEN conjunct2, THEN conjunct1]
    obtain r2 st2 where cm: "commit_extent (we_commit env) (we_now env) ?x ?v (hash payload) (of_nat (length payload)) DefaultClass st1 = (r2, st2)"
      by fastforce
    note p = commit_partial[OF sg(2) cm]
    have full: "we_commit env \<ge> 5" if "r2 = Inr entry" for entry
      using cm that by (auto simp: commit_extent_def Let_def commit_steps_def split: if_splits)
    show thesis
      by (rule that[of st2])
         (use full in \<open>auto simp add: store_and_index_def stg Inr cm sg(1) p one di fun_eq_iff Let_def split: sum.splits\<close>)
  qed
qed

lemma handle_write_shape [consumes 1, case_names unchanged stored]:
  assumes "handle_write hash fmt env q payload caller s = (resp, s')"
  obtains (unchanged) "dn_index s' = dn_index s" "dn_stores s' = dn_stores s"
      "wr_success resp \<Longrightarrow> s' = s \<and> (\<exists>r. check_duplicate s (wq_operation_id q) = Some r \<and> or_success r)"
      "\<And>r. check_duplicate s' (wq_operation_id q) = Some r \<Longrightarrow> or_success r \<Longrightarrow> s' = s"
  | (stored) d store where "bt_get (dn_stores s) d = Some store" "store_and_index hash env q payload d store s = (resp, s')"
proof (cases "check_duplicate s (wq_operation_id q)")
  case None
  from assms None show thesis
  proof (cases rule: handle_write_cases)
    case (refused e)
    show thesis
    proof (rule unchanged)
      show "s' = s" if "check_duplicate s' (wq_operation_id q) = Some r" "or_success r" for r
        using write_error_get[of env q e s] that refused(2) by blast
    qed (simp_all add: refused)
  next
    case (stored d store)
    then show thesis by (intro that(2))
  qed
next
  case (Some r)
  from handle_write_duplicate[OF assms this] show thesis
  proof (elim disjE exE conjE)
    assume "s' = s" "wr_success resp = or_success r"
    then show thesis using Some by (intro unchanged) simp_all
  next
    fix e assume e: "s' = snd (write_error env q e s)" "\<not> wr_success resp"
    show thesis
    proof (rule unchanged)
      show "s' = s" if "check_duplicate s' (wq_operation_id q) = Some r" "or_success r" for r
        using write_error_get[of env q e s] that e(1) by blast
    qed (simp_all add: e)
  qed
qed

lemma handle_write_stores_ok:
  assumes "handle_write hash fmt env q payload caller s = (resp, s')" "stores_ok s"
  shows "stores_ok s'"
  using assms(1)
proof (cases rule: handle_write_shape)
  case (stored d store)
  obtain st1 where "bt_get (dn_stores (snd (store_and_index hash env q payload d store s))) = (bt_get (dn_stores s))(d \<mapsto> st1)"
    "es_disk_id st1 = es_disk_id store" by (rule store_and_index_committed)
  then show ?thesis using assms(2) stored by (simp add: stores_ok_def)
qed (use assms(2) in \<open>simp add: stores_ok_def\<close>)

lemma handle_write_held_other:
  assumes "handle_write hash fmt env q payload caller s = (resp, s')" "x \<noteq> wq_extent_id q"
  shows "node_held hash s' x v = node_held hash s x v"
  using assms(1)
proof (cases rule: handle_write_shape)
  case (stored d store)
  have out: "s' = snd (store_and_index hash env q payload d store s)" using stored(2) by simp
  have ix: "index_get (dn_index s') x = index_get (dn_index s) x" unfolding out by (rule store_and_index_other_index[OF assms(2)])
  have st: "map_option (\<lambda>st. read_extent_io hash True st x v) (bt_get (dn_stores s') d') =
      map_option (\<lambda>st. read_extent_io hash True st x v) (bt_get (dn_stores s) d')" for d'
    unfolding out by (rule store_and_index_other[OF stored(1)]) (use assms(2) in simp)
  show ?thesis
  proof (cases "index_get (dn_index s) x")
    case (Some entry)
    show ?thesis using st[of "le_disk_id entry"]
      by (cases "bt_get (dn_stores s) (le_disk_id entry)"; cases "bt_get (dn_stores s') (le_disk_id entry)")
         (simp_all add: node_held_def ix Some)
  qed (simp add: node_held_def ix)
next
  case unchanged
  then show ?thesis by (simp only: node_held_cong[of s' s])
qed

text \<open>
  An operation that the log records as done has its bytes in place. A write keeps that, and its own
  success means the bytes are there, whether this request stored them or an earlier one.
\<close>

definition op_settled :: "(bytes \<Rightarrow> checksum) \<Rightarrow> OperationId \<Rightarrow> ExtentId \<Rightarrow> u64 \<Rightarrow> bytes \<Rightarrow> DataNodeService \<Rightarrow> bool" where
  "op_settled hash op x v data s \<longleftrightarrow>
     (\<forall>r. check_duplicate s op = Some r \<and> or_success r \<longrightarrow> node_held hash s x v = Some data)"

lemma store_and_index_held:
  assumes "wr_success (fst (store_and_index hash env q payload d store s))" "stores_ok s" "bt_get (dn_stores s) d = Some store"
  shows "node_held hash (snd (store_and_index hash env q payload d store s)) (wq_extent_id q) (wq_extent_version q) = Some payload"
proof (cases rule: store_and_index_cases[of hash env q payload d store s])
  case (failed e st1)
  then show ?thesis using assms(1) by simp
next
  case (finished entry st1)
  have "es_disk_id store = d" using assms(2,3) by (simp add: stores_ok_def)
  then show ?thesis by (simp add: node_held_def finished(1,3,4) index_get_def index_insert_def)
qed

lemma handle_write_settles:
  assumes "handle_write hash fmt env q payload caller s = (resp, s')" "stores_ok s"
    and "op_settled hash (wq_operation_id q) (wq_extent_id q) (wq_extent_version q) payload s"
  shows "op_settled hash (wq_operation_id q) (wq_extent_id q) (wq_extent_version q) payload s'"
    and "wr_success resp \<Longrightarrow> node_held hash s' (wq_extent_id q) (wq_extent_version q) = Some payload"
proof -
  have "op_settled hash (wq_operation_id q) (wq_extent_id q) (wq_extent_version q) payload s' \<and>
    (wr_success resp \<longrightarrow> node_held hash s' (wq_extent_id q) (wq_extent_version q) = Some payload)"
    using assms(1)
  proof (cases rule: handle_write_shape)
    case unchanged
    then show ?thesis using assms(3) unfolding op_settled_def by metis
  next
    case (stored d store)
    note held = store_and_index_held[of hash env q payload d store s, OF _ assms(2) stored(1), unfolded stored(2) fst_conv snd_conv]
    have "wr_success resp" if "check_duplicate s' (wq_operation_id q) = Some r" "or_success r" for r
    proof (cases rule: store_and_index_cases[of hash env q payload d store s])
      case (failed e st1)
      then show ?thesis using write_error_get[of env q e] that stored(2) by (metis snd_conv)
    next
      case (finished entry st1)
      then show ?thesis using stored(2) by (simp add: stored_response_def)
    qed
    then show ?thesis using held unfolding op_settled_def by blast
  qed
  then show "op_settled hash (wq_operation_id q) (wq_extent_id q) (wq_extent_version q) payload s'"
    "wr_success resp \<Longrightarrow> node_held hash s' (wq_extent_id q) (wq_extent_version q) = Some payload" by blast+
qed

lemma handle_write_at_most:
  assumes "handle_write hash fmt env q payload caller s = (resp, s')" "stores_ok s"
    and "holds_at_most s (wq_extent_id q) (wq_extent_version q) payload"
  shows "holds_at_most s' (wq_extent_id q) (wq_extent_version q) payload"
  using assms(1)
proof (cases rule: handle_write_shape)
  case unchanged
  then show ?thesis using assms(3) holds_at_most_cong by metis
next
  case (stored d store)
  obtain st1 where st1: "bt_get (dn_stores s') = (bt_get (dn_stores s))(d \<mapsto> st1)"
    "bt_get (fs_committed (es_fs st1)) (wq_extent_id q, wq_extent_version q) \<in>
      {bt_get (fs_committed (es_fs store)) (wq_extent_id q, wq_extent_version q), Some payload}"
    "wr_success resp \<Longrightarrow> bt_get (fs_committed (es_fs st1)) (wq_extent_id q, wq_extent_version q) = Some payload"
    by (rule store_and_index_committed[of hash env q payload d store s]) (use stored(2) in force)
  have dd: "es_disk_id store = d" using assms(2) stored(1) by (simp add: stores_ok_def)
  show ?thesis
  proof (cases rule: store_and_index_cases[of hash env q payload d store s])
    case (failed e st2)
    then have "dn_index s' = dn_index s" using stored(2) by (metis snd_conv write_error_frame(2) xfs_error_frame(2) register_store_frame(2))
    then show ?thesis using assms(3) st1(1,2) stored(1) by (auto simp: holds_at_most_def)
  next
    case (finished entry st2)
    have ok: "wr_success resp" and ix: "dn_index s' = index_insert entry (dn_index s)"
      using finished(1) stored(2) by (auto simp: stored_response_def)
    show ?thesis using st1(3)[OF ok] by (simp add: holds_at_most_def ix finished(4) index_get_def index_insert_def st1(1) dd)
  qed
qed

lemma handle_write_at_most_other:
  assumes "handle_write hash fmt env q payload caller s = (resp, s')" "x \<noteq> wq_extent_id q"
  shows "holds_at_most s' x v data = holds_at_most s x v data"
  using assms(1)
proof (cases rule: handle_write_shape)
  case unchanged
  then show ?thesis using holds_at_most_cong by metis
next
  case (stored d store)
  have ix: "index_get (dn_index s') x = index_get (dn_index s) x"
    using store_and_index_other_index[OF assms(2), of hash env payload d store s] stored(2) by simp
  obtain st1 where "bt_get (dn_stores s') = (bt_get (dn_stores s))(d \<mapsto> st1)"
    "bt_get (fs_committed (es_fs st1)) (x, v) = bt_get (fs_committed (es_fs store)) (x, v)"
    by (rule store_and_index_committed[of hash env q payload d store s]) (use stored(2) assms(2) in force)
  then show ?thesis using stored(1) by (auto simp: holds_at_most_def ix)
qed

lemma handle_read_frame:
  assumes "handle_read hash fmt io r caller s = Some (out, s')"
  shows "dn_index s' = dn_index s" "dn_stores s' = dn_stores s" "dn_operation_log s' = dn_operation_log s"
  using assms
  by (auto simp: handle_read_def handle_read_error_def transition_disk_def Let_def
      split: if_splits sum.splits option.splits StorageError.splits)

section \<open>Properties\<close>

definition read_success :: "ReadExtentRequest \<Rightarrow> checksum \<Rightarrow> bytes \<Rightarrow> ReadExtentResponse" where
  "read_success r cs payload =
     \<lparr> rr_operation_id = rq_operation_id r, rr_extent_id = rq_extent_id r, rr_extent_version = rq_extent_version r,
       rr_success = True, rr_checksum = cs, rr_payload_size = of_nat (length payload), rr_error = None \<rparr>"

text \<open>
  C27: An acknowledged write can be read: when a data node answers a new write with success, an
  authorised read of that extent version returns the requested range of the written payload, with
  the payload's checksum, and leaves the node unchanged.
\<close>

theorem acknowledged_write_readable:
  assumes "handle_write hash fmt env q payload caller s = (resp, s')" "wr_success resp"
    and "check_duplicate s (wq_operation_id q) = None" "stores_ok s"
    and "rq_extent_id r = wq_extent_id q" "rq_extent_version r = wq_extent_version q"
    and "check_read fmt (dn_volume_acl s) (rq_volume_id r) reader" "validate_epoch_for_read s (rq_epoch r) = Inr ()"
  shows "wr_checksum resp = hash payload \<and>
    handle_read hash fmt True r reader s' =
      map_option (\<lambda>data. ((read_success r (hash payload) data, Some data), s'))
        (read_range payload (rq_offset r) (rq_length r))"
  using assms(1,3)
proof (cases rule: handle_write_cases)
  case (refused e)
  with assms(2) show ?thesis by simp
next
  case (stored d store)
  have d: "es_disk_id store = d" using assms(4) stored(6) by (auto simp: stores_ok_def)
  have rd: "inv_allows_reads (dn_inventory s) d = Inr True"
    by (rule allocation_implies_reads[OF select_write_disk_allowed[OF stored(4)]])
  have out: "resp = fst (store_and_index hash env q payload d store s)" "s' = snd (store_and_index hash env q payload d store s)"
    using stored(7) by simp_all
  show ?thesis
  proof (cases rule: store_and_index_cases[of hash env q payload d store s])
    case (failed e st1)
    then show ?thesis using assms(2) out by simp
  next
    case (finished entry st1)
    have ep: "validate_epoch_for_read s' (rq_epoch r) = Inr ()"
      using assms(8) by (simp add: validate_epoch_for_read_def out finished(1) split: if_splits)
    have ix: "index_get (dn_index s') (wq_extent_id q) = Some entry"
      by (simp add: out finished(1,4) index_get_def index_insert_def)
    have st: "bt_get (dn_stores s') d = Some st1" "dn_inventory s' = dn_inventory s" "dn_volume_acl s' = dn_volume_acl s"
      by (simp_all add: out finished(1))
    have "handle_read hash fmt True r reader s' =
      map_option (\<lambda>data. ((read_success r (hash payload) data, Some data), s')) (read_range payload (rq_offset r) (rq_length r))"
      using ep ix rd st assms(5-7) d finished(3) by (simp add: handle_read_def Let_def finished(4) read_success_def split: option.split)
    then show ?thesis by (simp add: out(1) finished(1) stored_response_def)
  qed
qed

text \<open>
  C28: A write touches nothing but its own extent: a write that fails leaves the index as it was, and
  whatever the outcome every other extent version on every disk reads as before and every other
  extent keeps its index entry.
\<close>

theorem failed_write_harmless:
  assumes "handle_write hash fmt env q payload caller s = (resp, s')" "check_duplicate s (wq_operation_id q) = None"
  shows "(\<not> wr_success resp \<longrightarrow> dn_index s' = dn_index s) \<and>
    ((x, v) \<noteq> (wq_extent_id q, wq_extent_version q) \<longrightarrow>
       map_option (\<lambda>st. read_extent_io hash io st x v) (bt_get (dn_stores s') d) =
       map_option (\<lambda>st. read_extent_io hash io st x v) (bt_get (dn_stores s) d)) \<and>
    (x \<noteq> wq_extent_id q \<longrightarrow> index_get (dn_index s') x = index_get (dn_index s) x)"
  using assms
proof (cases rule: handle_write_cases)
  case (stored d' store)
  have out: "resp = fst (store_and_index hash env q payload d' store s)" "s' = snd (store_and_index hash env q payload d' store s)"
    using stored(7) by simp_all
  show ?thesis unfolding out
    by (intro conjI impI store_and_index_failure store_and_index_other[OF stored(6)] store_and_index_other_index)
qed simp

lemma handle_write_recorded:
  assumes "handle_write hash fmt env q payload caller s = (resp, s')" "check_duplicate s (wq_operation_id q) = None"
    and "log_has_room (wq_operation_id q) s"
  shows "\<exists>r. check_duplicate s' (wq_operation_id q) = Some r \<and> or_success r = wr_success resp \<and>
     or_extent_id r = wr_extent_id resp \<and> or_extent_version r = wr_extent_version resp \<and>
     or_disk_id r = wr_disk_id resp \<and> or_checksum r = wr_checksum resp"
proof -
  have err: ?thesis if "(resp, s') = write_error env q e s1" "dn_operation_log s1 = dn_operation_log s" for e s1
  proof -
    have "log_has_room (wq_operation_id q) s1" using assms(3) that(2) by (simp add: log_has_room_def)
    then show ?thesis using that(1) by (simp add: write_error_def Let_def check_duplicate_record)
  qed
  from assms(1,2) show ?thesis
  proof (cases rule: handle_write_cases)
    case (refused e)
    then show ?thesis using err[of e s] by simp
  next
    case (stored d store)
    show ?thesis
    proof (cases rule: store_and_index_cases[of hash env q payload d store s])
      case (failed e st1)
      then show ?thesis using stored(7) err by simp
    next
      case (finished entry st1)
      let ?s = "(register_store d st1 s)\<lparr> dn_index := index_insert entry (dn_index s) \<rparr>"
      have "log_has_room (or_operation_id (stored_record q d (hash payload))) ?s"
        using assms(3) by (simp add: log_has_room_def stored_record_def)
      note check_duplicate_record[OF this]
      then show ?thesis using stored(7) finished(1) by (auto simp: stored_response_def stored_record_def)
    qed
  qed
qed

text \<open>
  C29: Retries are answered from the operation log: once a write was processed and while the log has
  room, any later request with the same operation id, from a caller that may write the volume it
  names, gets the recorded outcome and changes nothing, whatever its payload or epoch.
\<close>

theorem retry_is_idempotent:
  assumes "handle_write hash fmt env q payload caller s = (resp, s')" "check_duplicate s (wq_operation_id q) = None"
    and "log_has_room (wq_operation_id q) s"
    and "wq_operation_id q' = wq_operation_id q" "check_write fmt (dn_volume_acl s') (wq_volume_id q') caller'"
  shows "handle_write hash fmt env' q' payload' caller' s' =
    (resp\<lparr> wr_operation_id := wq_operation_id q, wr_error := (if wr_success resp then None else Some WePreviousFailed) \<rparr>, s')"
proof -
  from handle_write_recorded[OF assms(1-3)] obtain r where r: "check_duplicate s' (wq_operation_id q) = Some r"
    "or_success r = wr_success resp" "or_extent_id r = wr_extent_id resp" "or_extent_version r = wr_extent_version resp"
    "or_disk_id r = wr_disk_id resp" "or_checksum r = wr_checksum resp" by blast
  then show ?thesis using assms(4,5) by (simp add: handle_write_def)
qed

lemma handle_write_refused:
  assumes "check_write fmt (dn_volume_acl s) (wq_volume_id q) caller" "check_duplicate s (wq_operation_id q) = None"
    and "validate_epoch s (wq_epoch q) = Inl e \<or> validate_epoch s (wq_epoch q) = Inr () \<and> validate_write_lease s q = Inl e"
  shows "handle_write hash fmt env q payload caller s = write_error env q e s"
  using assms by (auto simp: handle_write_def)

text \<open>
  An operation rejected for a stale epoch is recorded as failed, so resending it with the same
  operation id and a current epoch is answered with a failure instead of being performed.
\<close>

theorem rejected_write_stays_rejected:
  assumes "wq_epoch q < dn_current_epoch s" "check_write fmt (dn_volume_acl s) (wq_volume_id q) caller"
    and "check_duplicate s (wq_operation_id q) = None" "log_has_room (wq_operation_id q) s"
  shows "wr_error (fst (handle_write hash fmt env q payload caller s)) = Some (WeStaleEpoch (wq_epoch q) (dn_current_epoch s)) \<and>
    wr_error (fst (handle_write hash fmt env' (q\<lparr> wq_epoch := e' \<rparr>) payload caller
      (snd (handle_write hash fmt env q payload caller s)))) = Some WePreviousFailed"
proof -
  let ?e = "WeStaleEpoch (wq_epoch q) (dn_current_epoch s)"
  have "handle_write hash fmt env q payload caller s = write_error env q ?e s"
    by (rule handle_write_refused[OF assms(2,3)]) (simp add: validate_epoch_def assms(1))
  moreover obtain r where "check_duplicate (snd (write_error env q ?e s)) (wq_operation_id q) = Some r" "\<not> or_success r"
    using write_error_duplicate[OF assms(4)] by blast
  ultimately show ?thesis using assms(2) by (simp add: handle_write_def)
qed

text \<open>
  A caller without write permission can turn a recorded success into a failure: the refusal is
  recorded under the operation id of the request before duplicates are looked up, and the owner's
  retry, which would have been answered with success, is then answered with a failure.
\<close>

theorem denied_caller_overwrites_record:
  assumes "check_duplicate s (wq_operation_id q) = Some r" "or_success r"
    and "\<not> check_write fmt (dn_volume_acl s) (wq_volume_id q) intruder"
    and "check_write fmt (dn_volume_acl s) (wq_volume_id q) owner" "log_has_room (wq_operation_id q) s"
  shows "wr_success (fst (handle_write hash fmt env q payload owner s)) \<and>
    wr_error (fst (handle_write hash fmt env' q payload owner
      (snd (handle_write hash fmt env q payload intruder s)))) = Some WePreviousFailed"
proof -
  let ?e = "WeDenied intruder (wq_volume_id q)"
  have "handle_write hash fmt env q payload intruder s = write_error env q ?e s"
    using assms(3) by (simp add: handle_write_def)
  moreover obtain r' where "check_duplicate (snd (write_error env q ?e s)) (wq_operation_id q) = Some r'" "\<not> or_success r'"
    using write_error_duplicate[OF assms(5)] by blast
  ultimately show ?thesis using assms(1,2,4) by (simp add: handle_write_def)
qed

lemma update_lease_cached:
  "\<exists>c. bt_get (dn_lease_cache (update_lease v sess ver s)) v = Some c \<and> ver \<le> cl_lease_version c \<and>
     (cl_lease_version c = ver \<longrightarrow> cl_session_id c = sess \<or> bt_get (dn_lease_cache s) v = Some c) \<and>
     (\<forall>old. bt_get (dn_lease_cache s) v = Some old \<longrightarrow> cl_lease_version old \<le> cl_lease_version c)"
  by (auto simp: update_lease_def Let_def split: option.split)

text \<open>
  C30: After the node learns of a newer lease on a volume, a write from any other session, without a
  lease version, or with an older one, fails and changes neither files nor index.
\<close>

theorem superseded_session_fenced:
  assumes "\<And>c. bt_get (dn_lease_cache s) (wq_volume_id q) = Some c \<Longrightarrow> cl_lease_version c < ver"
    and "t = update_lease (wq_volume_id q) sess ver s"
    and "wq_session_id q \<noteq> sess \<or> wq_lease_version q = None \<or> (\<exists>old. wq_lease_version q = Some old \<and> old < ver)"
    and "check_duplicate s (wq_operation_id q) = None" "handle_write hash fmt env q payload caller t = (resp, t')"
  shows "\<not> wr_success resp \<and> dn_stores t' = dn_stores s \<and> dn_index t' = dn_index s"
proof -
  have t: "t = s\<lparr> dn_lease_cache := bt_insert (wq_volume_id q) \<lparr> cl_session_id = sess, cl_lease_version = ver \<rparr> (dn_lease_cache s) \<rparr>"
    using assms(1) unfolding assms(2) by (auto simp: update_lease_def Let_def not_le[symmetric] split: option.split)
  have "validate_write_lease t q \<noteq> Inr ()"
    using assms(3) by (auto simp: validate_write_lease_def t split: option.split)
  note lease = this
  have "check_duplicate t (wq_operation_id q) = None" using assms(4) by (simp add: check_duplicate_def t)
  with assms(5) show ?thesis
  proof (cases rule: handle_write_cases)
    case (refused e)
    then show ?thesis by (simp add: t)
  next
    case (stored d store)
    with lease show ?thesis by simp
  qed
qed

lemma read_range_spec:
  assumes "unat off + unat len < 2 ^ 64" "vec_len_ok (unat len)" "len \<noteq> 0"
  shows "\<exists>p. read_range data off len = Some p \<and> length p = unat len \<and>
    (\<forall>i < unat len. p ! i = (if unat off + i < length data then data ! (unat off + i) else 0))"
proof -
  have e: "unat (off + len) = unat off + unat len" using assms(1) by (simp add: unat_add_lem[symmetric])
  consider "length data \<le> unat off" | "unat off < length data" "length data < unat off + unat len"
    | "unat off + unat len \<le> length data" "unat off < length data" by linarith
  then show ?thesis
    by cases (use assms(2,3) in \<open>auto simp add: read_range_def Let_def e nth_append\<close>)
qed

lemma handle_read_success:
  assumes "handle_read hash fmt io r caller s = Some ((resp, Some payload), s')"
  obtains entry store data where "check_read fmt (dn_volume_acl s) (rq_volume_id r) caller"
    "index_get (dn_index s) (rq_extent_id r) = Some entry" "le_version entry = rq_extent_version r"
    "bt_get (dn_stores s) (le_disk_id entry) = Some store"
    "read_extent_io hash io store (rq_extent_id r) (rq_extent_version r) = Inr (data, le_checksum entry)"
    "read_range data (rq_offset r) (rq_length r) = Some payload" "rr_checksum resp = le_checksum entry" "s' = s"
proof -
  have acl: "check_read fmt (dn_volume_acl s) (rq_volume_id r) caller"
    by (rule ccontr) (use assms in \<open>simp add: handle_read_def\<close>)
  have ep: "validate_epoch_for_read s (rq_epoch r) = Inr ()"
    by (cases "validate_epoch_for_read s (rq_epoch r)") (use assms acl in \<open>simp_all add: handle_read_def Let_def\<close>)
  obtain entry where ix: "index_get (dn_index s) (rq_extent_id r) = Some entry"
    by (cases "index_get (dn_index s) (rq_extent_id r)") (use assms acl ep in \<open>simp_all add: handle_read_def Let_def\<close>)
  have ver: "le_version entry = rq_extent_version r"
    by (rule ccontr) (use assms acl ep ix in \<open>simp add: handle_read_def Let_def\<close>)
  have rd: "inv_allows_reads (dn_inventory s) (le_disk_id entry) \<noteq> Inr False"
    by (rule notI) (use assms acl ep ix ver in \<open>simp add: handle_read_def Let_def\<close>)
  note known = acl ep ix ver rd
  obtain store where st: "bt_get (dn_stores s) (le_disk_id entry) = Some store"
    by (cases "bt_get (dn_stores s) (le_disk_id entry)") (use assms known in \<open>simp_all add: handle_read_def Let_def\<close>)
  obtain data cs where ex: "read_extent_io hash io store (rq_extent_id r) (rq_extent_version r) = Inr (data, cs)"
    by (cases "read_extent_io hash io store (rq_extent_id r) (rq_extent_version r)")
       (use assms known st in \<open>auto simp add: handle_read_def Let_def\<close>)
  have cs: "cs = le_checksum entry"
    by (rule ccontr) (use assms known st ex in \<open>simp add: handle_read_def Let_def\<close>)
  obtain p where p: "read_range data (rq_offset r) (rq_length r) = Some p"
    by (cases "read_range data (rq_offset r) (rq_length r)") (use assms known st ex cs in \<open>simp_all add: handle_read_def Let_def\<close>)
  have "p = payload" "rr_checksum resp = le_checksum entry" "s' = s"
    using assms known st ex cs p by (auto simp add: handle_read_def Let_def)
  with known st ex cs p show thesis by (intro that) simp_all
qed

text \<open>
  C31: A successful read is verified: the caller may read the volume, the data on disk has the
  checksum of the index entry, the node does not change, and the payload is the requested range of
  that data, with zeros beyond its end, when the range does not wrap.
\<close>

theorem read_integrity:
  assumes "handle_read hash fmt io r caller s = Some ((resp, Some payload), s')"
  shows "\<exists>entry store data. index_get (dn_index s) (rq_extent_id r) = Some entry \<and> le_version entry = rq_extent_version r \<and>
      bt_get (dn_stores s) (le_disk_id entry) = Some store \<and>
      bt_get (fs_committed (es_fs store)) (rq_extent_id r, rq_extent_version r) = Some data \<and>
      hash data = le_checksum entry \<and> rr_checksum resp = hash data \<and> s' = s \<and>
      check_read fmt (dn_volume_acl s) (rq_volume_id r) caller \<and>
      (rq_offset r = 0 \<and> rq_length r = 0 \<longrightarrow> payload = data) \<and>
      (rq_length r \<noteq> 0 \<and> unat (rq_offset r) + unat (rq_length r) < 2 ^ 64 \<and> vec_len_ok (unat (rq_length r)) \<longrightarrow>
         length payload = unat (rq_length r) \<and>
         (\<forall>i < unat (rq_length r). payload ! i =
            (if unat (rq_offset r) + i < length data then data ! (unat (rq_offset r) + i) else 0)))"
proof -
  from handle_read_success[OF assms] obtain entry store data where a:
    "check_read fmt (dn_volume_acl s) (rq_volume_id r) caller"
    "index_get (dn_index s) (rq_extent_id r) = Some entry" "le_version entry = rq_extent_version r"
    "bt_get (dn_stores s) (le_disk_id entry) = Some store"
    "read_extent_io hash io store (rq_extent_id r) (rq_extent_version r) = Inr (data, le_checksum entry)"
    "read_range data (rq_offset r) (rq_length r) = Some payload" "rr_checksum resp = le_checksum entry" "s' = s" .
  have b: "bt_get (fs_committed (es_fs store)) (rq_extent_id r, rq_extent_version r) = Some data" "hash data = le_checksum entry"
    using a(5) by (auto simp: read_extent_io_def Let_def split: option.splits if_splits MetaFile.splits)
  have "rq_offset r = 0 \<and> rq_length r = 0 \<longrightarrow> payload = data" using a(6) by (auto simp: read_range_def)
  moreover have "rq_length r \<noteq> 0 \<and> unat (rq_offset r) + unat (rq_length r) < 2 ^ 64 \<and> vec_len_ok (unat (rq_length r)) \<longrightarrow>
         length payload = unat (rq_length r) \<and>
         (\<forall>i < unat (rq_length r). payload ! i =
            (if unat (rq_offset r) + i < length data then data ! (unat (rq_offset r) + i) else 0))"
    using read_range_spec[of "rq_offset r" "rq_length r" data] a(6) by auto
  ultimately show ?thesis using a b by (intro exI[of _ entry] exI[of _ store] exI[of _ data] conjI) simp_all
qed

section \<open>Concrete instances\<close>

definition demo_node :: DataNodeService where
  "demo_node = register_store 4 (store_new 4)
     (service_new \<lparr> iv_disks = [(4, (managed_new 4 ''/d4'')\<lparr> mg_qualification := Qualified \<rparr>)], iv_drain_queue = [] \<rparr> [] 5)"

definition demo_env :: WriteEnv where
  "demo_env = \<lparr> we_now = 100, we_disk_order = [4], we_stage = StageOk, we_commit = 5, we_fault = FsOther, we_generated = 8,
     we_log_order = [], we_append_ok = True, we_line_len = 10 \<rparr>"

definition demo_write :: WriteExtentRequest where
  "demo_write = \<lparr> wq_operation_id = 1, wq_session_id = 2, wq_volume_id = 3, wq_extent_id = 7, wq_extent_version = 1,
     wq_epoch = 5, wq_target_disk_id = None, wq_checksum = ''6'', wq_payload_size = 3, wq_lease_version = None \<rparr>"

definition demo_read :: ReadExtentRequest where
  "demo_read = \<lparr> rq_operation_id = 9, rq_session_id = 2, rq_volume_id = 3, rq_extent_id = 7, rq_extent_version = 1,
     rq_epoch = 4, rq_offset = 1, rq_length = 4 \<rparr>"

definition demo_written :: DataNodeService where
  "demo_written = snd (handle_write sum_hash unary_text demo_env demo_write [1, 2, 3] (Node 1) demo_node)"

lemma demo_node_facts:
  "check_duplicate demo_node op = None" "stores_ok demo_node" "log_has_room op demo_node"
  "dn_current_epoch demo_node = 5" "dn_volume_acl demo_node = []" "dn_lease_cache demo_node = []" "dn_index demo_node = []"
  by (auto simp: demo_node_def service_new_def check_duplicate_def stores_ok_def log_has_room_def
      max_operation_log_size_def store_new_def register_store_def)

lemma sum_hash_demo: "sum_hash [1, 2, 3] = ''6''"
  by code_simp

lemma demo_write_succeeds:
  "wr_success (fst (handle_write sum_hash unary_text demo_env demo_write [1, 2, 3] (Node 1) demo_node))"
  by code_simp

lemma demo_write_result:
  "handle_write sum_hash unary_text demo_env demo_write [1, 2, 3] (Node 1) demo_node =
     (fst (handle_write sum_hash unary_text demo_env demo_write [1, 2, 3] (Node 1) demo_node), demo_written)"
  by (simp add: demo_written_def)

theorem acknowledged_write_readable_witness:
  "handle_read sum_hash unary_text True demo_read (Node 2) demo_written =
     Some ((read_success demo_read ''6'' [2, 3, 0, 0], Some [2, 3, 0, 0]), demo_written)"
proof -
  have "rq_extent_id demo_read = wq_extent_id demo_write" "rq_extent_version demo_read = wq_extent_version demo_write"
    "check_read unary_text (dn_volume_acl demo_node) (rq_volume_id demo_read) (Node 2)"
    "validate_epoch_for_read demo_node (rq_epoch demo_read) = Inr ()"
    by (simp_all add: demo_read_def demo_write_def check_read_def validate_epoch_for_read_def demo_node_facts) code_simp
  note acknowledged_write_readable[OF demo_write_result demo_write_succeeds demo_node_facts(1,2) this]
  moreover have "read_range [1, 2, 3] (rq_offset demo_read) (rq_length demo_read) = Some [2, 3, 0, 0]"
    by code_simp
  ultimately show ?thesis by (simp add: sum_hash_demo)
qed

theorem failed_write_harmless_witness:
  "index_get (dn_index demo_written) 8 = None"
  using failed_write_harmless[OF demo_write_result demo_node_facts(1), of 8 1]
  by (simp add: demo_node_facts index_get_def demo_write_def)

theorem retry_is_idempotent_witness:
  "snd (handle_write sum_hash unary_text demo_env (demo_write\<lparr> wq_epoch := 6 \<rparr>) [4] (Node 1) demo_written) = demo_written \<and>
   wr_success (fst (handle_write sum_hash unary_text demo_env (demo_write\<lparr> wq_epoch := 6 \<rparr>) [4] (Node 1) demo_written))"
  using retry_is_idempotent[OF demo_write_result demo_node_facts(1,3), of "demo_write\<lparr> wq_epoch := 6 \<rparr>" "Node 1" demo_env "[4]"]
    demo_write_succeeds
  by (simp add: check_write_def)

theorem rejected_write_stays_rejected_witness:
  "wr_error (fst (handle_write sum_hash unary_text demo_env (demo_write\<lparr> wq_epoch := 5 \<rparr>) [1, 2, 3] (Node 1)
     (snd (handle_write sum_hash unary_text demo_env (demo_write\<lparr> wq_epoch := 4 \<rparr>) [1, 2, 3] (Node 1) demo_node)))) =
   Some WePreviousFailed"
  using rejected_write_stays_rejected[of "demo_write\<lparr> wq_epoch := 4 \<rparr>" demo_node unary_text "Node 1" sum_hash demo_env "[1, 2, 3]" demo_env 5]
  by (simp add: demo_node_facts check_write_def)

theorem denied_caller_overwrites_record_witness:
  "wr_error (fst (handle_write sum_hash unary_text demo_env demo_write [1, 2, 3] (Node 1)
     (snd (handle_write sum_hash unary_text demo_env demo_write [1, 2, 3] (Client 2) demo_written)))) = Some WePreviousFailed"
proof -
  have "\<exists>r. check_duplicate demo_written (wq_operation_id demo_write) = Some r \<and> or_success r"
    using handle_write_recorded[OF demo_write_result demo_node_facts(1,3)] demo_write_succeeds by auto
  then obtain r where r: "check_duplicate demo_written (wq_operation_id demo_write) = Some r" "or_success r" by blast
  have "length (bt_insert (wq_operation_id demo_write) (stored_record demo_write 4 []) (dn_operation_log demo_written)) \<le> max_operation_log_size"
    by code_simp
  then have "log_has_room (wq_operation_id demo_write) demo_written" by (simp only: log_has_room_iff[symmetric])
  moreover have "dn_volume_acl demo_written = []" by code_simp
  ultimately show ?thesis
    using denied_caller_overwrites_record[OF r, of unary_text "Client 2" "Node 1" sum_hash demo_env "[1, 2, 3]" demo_env]
    by (simp add: check_write_def acl_lookup_def)
qed

theorem superseded_session_fenced_witness:
  "\<exists>resp t'. handle_write sum_hash unary_text demo_env demo_write [1, 2, 3] (Node 1) (update_lease 3 6 1 demo_node) = (resp, t') \<and>
     \<not> wr_success resp \<and> dn_index t' = []"
proof -
  obtain resp t' where h: "handle_write sum_hash unary_text demo_env demo_write [1, 2, 3] (Node 1) (update_lease 3 6 1 demo_node) = (resp, t')"
    by fastforce
  show ?thesis
    using superseded_session_fenced[OF _ _ _ _ h, of demo_node 1 6] h
    by (simp add: demo_node_facts demo_write_def)
qed

theorem read_integrity_witness:
  "\<exists>entry store data. index_get (dn_index demo_written) 7 = Some entry \<and> le_checksum entry = sum_hash data \<and>
     bt_get (dn_stores demo_written) (le_disk_id entry) = Some store \<and>
     bt_get (fs_committed (es_fs store)) (7, 1) = Some data"
proof -
  have "handle_read sum_hash unary_text True demo_read (Node 2) demo_written =
     Some ((read_success demo_read ''6'' [2, 3, 0, 0], Some [2, 3, 0, 0]), demo_written)"
    by code_simp
  from read_integrity[OF this] obtain entry store data where "index_get (dn_index demo_written) (rq_extent_id demo_read) = Some entry"
    "bt_get (dn_stores demo_written) (le_disk_id entry) = Some store"
    "bt_get (fs_committed (es_fs store)) (rq_extent_id demo_read, rq_extent_version demo_read) = Some data" "sum_hash data = le_checksum entry"
    by blast
  then show ?thesis by (intro exI[of _ entry] exI[of _ store] exI[of _ data]) (simp add: demo_read_def)
qed

end
