(* ===== verification/Protocol.thy ===== *)
theory Protocol
  imports DataNode
begin

text \<open>
  The data-plane protocol (\<^verbatim>\<open>blockyard-protocol/src\<close>): version negotiation and authenticated handshake
  (\<^verbatim>\<open>version.rs\<close>), length-prefixed frames and the connection loop of the server (\<^verbatim>\<open>server.rs\<close>), and the client's
  side of a connection (\<^verbatim>\<open>blockyard-ublk/src/tcp_client.rs\<close>). A stream is a list of bytes; the JSON codec and the
  request handler are arguments. The loop terminates because every request consumes input.
\<close>

section \<open>Handshake\<close>

type_synonym ProtocolVersion = u32

definition CURRENT_PROTOCOL_VERSION :: ProtocolVersion where
  "CURRENT_PROTOCOL_VERSION = 1"

definition MIN_PROTOCOL_VERSION :: ProtocolVersion where
  "MIN_PROTOCOL_VERSION = 1"

record HandshakeRequest =
  hq_protocol_version :: ProtocolVersion
  hq_node_id :: "NodeId option"
  hq_session_id :: "SessionId option"
  hq_features :: "string list"
  hq_auth_token :: "AuthToken option"

record HandshakeResponse =
  hr_protocol_version :: ProtocolVersion
  hr_node_id :: NodeId
  hr_accepted :: bool
  hr_message :: "string option"
  hr_supported_features :: "string list"
  hr_authenticated :: bool

definition negotiate_version :: "HandshakeRequest \<Rightarrow> NodeId \<Rightarrow> HandshakeResponse" where
  "negotiate_version request local_node_id =
     (let client_version = hq_protocol_version request in
      if client_version < MIN_PROTOCOL_VERSION then
        \<lparr> hr_protocol_version = CURRENT_PROTOCOL_VERSION, hr_node_id = local_node_id, hr_accepted = False,
          hr_message = Some (''client protocol version '' @ decimal (unat client_version) @
            '' is below minimum supported version '' @ decimal (unat MIN_PROTOCOL_VERSION)),
          hr_supported_features = [], hr_authenticated = False \<rparr>
      else
        \<lparr> hr_protocol_version = min client_version CURRENT_PROTOCOL_VERSION, hr_node_id = local_node_id,
          hr_accepted = True, hr_message = None, hr_supported_features = [], hr_authenticated = False \<rparr>)"

text \<open>A provider validates a token or gives the text of its error.\<close>

type_synonym auth_provider = "AuthToken \<Rightarrow> (PeerIdentity, string) result"

definition negotiate_version_with_auth ::
  "HandshakeRequest \<Rightarrow> NodeId \<Rightarrow> auth_provider option \<Rightarrow> HandshakeResponse \<times> PeerIdentity option" where
  "negotiate_version_with_auth request local_node_id provider =
     (let response = negotiate_version request local_node_id in
      if \<not> hr_accepted response then (response, None)
      else case provider of
        None \<Rightarrow> (response, None)
      | Some validate \<Rightarrow>
          (case hq_auth_token request of
             None \<Rightarrow>
               (response\<lparr> hr_accepted := False, hr_authenticated := False,
                  hr_message := Some ''authentication required but no token provided'' \<rparr>, None)
           | Some token \<Rightarrow>
               (case validate token of
                  Inr identity \<Rightarrow> (response\<lparr> hr_authenticated := True \<rparr>, Some identity)
                | Inl e \<Rightarrow>
                    (response\<lparr> hr_accepted := False, hr_authenticated := False,
                       hr_message := Some (''authentication failed: '' @ e) \<rparr>, None))))"

definition is_version_supported :: "ProtocolVersion \<Rightarrow> bool" where
  "is_version_supported v \<longleftrightarrow> v \<ge> MIN_PROTOCOL_VERSION \<and> v \<le> CURRENT_PROTOCOL_VERSION"

section \<open>Frames\<close>

definition u32_be_bytes :: "u32 \<Rightarrow> bytes" where
  "u32_be_bytes w = map (\<lambda>i. ucast (drop_bit (8 * (3 - i)) w)) [0..<4]"

definition u32_from_be_bytes :: "bytes \<Rightarrow> u32" where
  "u32_from_be_bytes bs = word_rcat bs"

definition MAX_FRAME_SIZE :: u32 where
  "MAX_FRAME_SIZE = 64 * 1024 * 1024"

datatype ServerError = SvEof | SvFrameTooLarge u32 | SvJson | SvUnexpected

text \<open>A stream is the list of bytes that the peer sends before it disconnects.\<close>

definition read_exact :: "nat \<Rightarrow> bytes \<Rightarrow> (bytes \<times> bytes, ServerError) result" where
  "read_exact n bs = (if length bs < n then Inl SvEof else Inr (take n bs, drop n bs))"

definition read_frame :: "bytes \<Rightarrow> (bytes \<times> bytes, ServerError) result" where
  "read_frame bs =
     (case read_exact 4 bs of
        Inl e \<Rightarrow> Inl e
      | Inr (hd4, rest) \<Rightarrow>
          (let len = u32_from_be_bytes hd4 in
           if len > MAX_FRAME_SIZE then Inl (SvFrameTooLarge len) else read_exact (unat len) rest))"

definition write_frame :: "bytes \<Rightarrow> bytes" where
  "write_frame data = u32_be_bytes (of_nat (length data)) @ data"

section \<open>Server connections\<close>

datatype ProtocolMessage =
    HandshakeReq HandshakeRequest
  | HandshakeResp HandshakeResponse
  | WriteReq WriteExtentRequest
  | WriteResp WriteExtentResponse
  | ReadReq ReadExtentRequest
  | ReadResp ReadExtentResponse

datatype ConnEnd = Closed | ConnFailed ServerError | Panicked

text \<open>
  The JSON codec and the request handler are arguments: \<^verbatim>\<open>de\<close>/\<^verbatim>\<open>se\<close> for messages, \<^verbatim>\<open>hw\<close> and \<^verbatim>\<open>hr\<close> for
  the handler, whose read can panic. \<^verbatim>\<open>cancelled i\<close> says that shutdown is seen before request \<^verbatim>\<open>i\<close>.
\<close>

record msg_codec =
  se_msg :: "ProtocolMessage \<Rightarrow> bytes"
  de_msg :: "bytes \<Rightarrow> ProtocolMessage option"

record 's data_handler =
  dh_write :: "WriteExtentRequest \<Rightarrow> bytes \<Rightarrow> 's \<Rightarrow> WriteExtentResponse \<times> 's"
  dh_read :: "ReadExtentRequest \<Rightarrow> 's \<Rightarrow> ((ReadExtentResponse \<times> bytes option) \<times> 's) option"

lemma read_exact_length: "read_exact n bs = Inr (a, rest) \<Longrightarrow> length rest = length bs - n \<and> n \<le> length bs"
  by (auto simp: read_exact_def split: if_splits)

lemma read_frame_length: "read_frame bs = Inr (a, rest) \<Longrightarrow> length rest < length bs"
  by (auto simp: read_frame_def Let_def dest!: read_exact_length split: sum.splits if_splits)

function request_loop ::
  "msg_codec \<Rightarrow> 's data_handler \<Rightarrow> (nat \<Rightarrow> bool) \<Rightarrow> nat \<Rightarrow> bytes \<Rightarrow> 's \<Rightarrow> bytes \<times> 's \<times> ConnEnd" where
  "request_loop codec h cancelled i bs s =
     (if cancelled i then ([], s, Closed)
      else case read_frame bs of
        Inl SvEof \<Rightarrow> ([], s, Closed)
      | Inl e \<Rightarrow> ([], s, ConnFailed e)
      | Inr (frame, rest) \<Rightarrow>
          (case de_msg codec frame of
             Some (WriteReq req) \<Rightarrow>
               if \<not> vec_len_ok (unat (wq_payload_size req)) then ([], s, Panicked)
               else (case read_exact (unat (wq_payload_size req)) rest of
                  Inl e \<Rightarrow> ([], s, ConnFailed e)
                | Inr (payload, rest') \<Rightarrow>
                    (case dh_write h req payload s of
                       (resp, s') \<Rightarrow>
                         (case request_loop codec h cancelled (i + 1) rest' s' of
                            (out, s'', r) \<Rightarrow> (write_frame (se_msg codec (WriteResp resp)) @ out, s'', r))))
           | Some (ReadReq req) \<Rightarrow>
               (case dh_read h req s of
                  None \<Rightarrow> ([], s, Panicked)
                | Some ((resp, data), s') \<Rightarrow>
                    (case request_loop codec h cancelled (i + 1) rest s' of
                       (out, s'', r) \<Rightarrow>
                         (write_frame (se_msg codec (ReadResp resp)) @ (case data of None \<Rightarrow> [] | Some p \<Rightarrow> p) @ out, s'', r)))
           | Some _ \<Rightarrow> ([], s, ConnFailed SvUnexpected)
           | None \<Rightarrow> ([], s, ConnFailed SvJson)))"
  by pat_completeness auto
termination
  by (relation "measure (\<lambda>(codec, h, cancelled, i, bs, s). length bs)")
     (auto dest!: read_frame_length read_exact_length)

declare request_loop.simps [simp del]

definition handle_connection ::
  "(bytes \<Rightarrow> HandshakeRequest option) \<Rightarrow> (HandshakeResponse \<Rightarrow> bytes) \<Rightarrow> msg_codec \<Rightarrow> 's data_handler \<Rightarrow>
   (nat \<Rightarrow> bool) \<Rightarrow> NodeId \<Rightarrow> auth_provider option \<Rightarrow> bytes \<Rightarrow> 's \<Rightarrow> bytes \<times> 's \<times> ConnEnd" where
  "handle_connection de_hs se_hs codec h cancelled node_id provider bs s =
     (case read_frame bs of
        Inl e \<Rightarrow> ([], s, ConnFailed e)
      | Inr (frame, rest) \<Rightarrow>
          (case de_hs frame of
             None \<Rightarrow> ([], s, ConnFailed SvJson)
           | Some req \<Rightarrow>
               (let (resp, peer) = negotiate_version_with_auth req node_id provider;
                    hello = write_frame (se_hs resp)
                in if \<not> hr_accepted resp then (hello, s, Closed)
                   else case request_loop codec h cancelled 0 rest s of
                     (out, s', r) \<Rightarrow> (hello @ out, s', r))))"

section \<open>The client's side of a connection\<close>

definition handshake_request :: HandshakeRequest where
  "handshake_request =
     \<lparr> hq_protocol_version = CURRENT_PROTOCOL_VERSION, hq_node_id = None, hq_session_id = None,
       hq_features = [], hq_auth_token = None \<rparr>"

datatype ClientError = CeFrame ServerError | CeJson | CeUnexpected | CeRejected "string option" | CeReadFailed "ReadError option" | CePanic

text \<open>The reply to a handshake, to a write and to a read, taken off the stream.\<close>

definition read_handshake_reply ::
  "(bytes \<Rightarrow> HandshakeResponse option) \<Rightarrow> bytes \<Rightarrow> (bytes, ClientError) result" where
  "read_handshake_reply de bs =
     (case read_frame bs of
        Inl e \<Rightarrow> Inl (CeFrame e)
      | Inr (frame, rest) \<Rightarrow>
          (case de frame of
             None \<Rightarrow> Inl CeJson
           | Some resp \<Rightarrow> if hr_accepted resp then Inr rest else Inl (CeRejected (hr_message resp))))"

definition read_write_reply :: "msg_codec \<Rightarrow> bytes \<Rightarrow> (WriteExtentResponse \<times> bytes, ClientError) result" where
  "read_write_reply codec bs =
     (case read_frame bs of
        Inl e \<Rightarrow> Inl (CeFrame e)
      | Inr (frame, rest) \<Rightarrow>
          (case de_msg codec frame of
             None \<Rightarrow> Inl CeJson
           | Some (WriteResp resp) \<Rightarrow> Inr (resp, rest)
           | Some _ \<Rightarrow> Inl CeUnexpected))"

definition read_read_reply :: "msg_codec \<Rightarrow> bytes \<Rightarrow> (bytes \<times> bytes, ClientError) result" where
  "read_read_reply codec bs =
     (case read_frame bs of
        Inl e \<Rightarrow> Inl (CeFrame e)
      | Inr (frame, rest) \<Rightarrow>
          (case de_msg codec frame of
             None \<Rightarrow> Inl CeJson
           | Some (ReadResp resp) \<Rightarrow>
               if \<not> rr_success resp then Inl (CeReadFailed (rr_error resp))
               else if rr_payload_size resp > 0 then
                 (if \<not> vec_len_ok (unat (rr_payload_size resp)) then Inl CePanic
                  else case read_exact (unat (rr_payload_size resp)) rest of
                    Inl e \<Rightarrow> Inl (CeFrame e) | Inr x \<Rightarrow> Inr x)
               else Inr ([], rest)
           | Some _ \<Rightarrow> Inl CeUnexpected))"

section \<open>Frames round-trip\<close>

lemma byte_of_u32: "unat (ucast (drop_bit n (w::u32)) :: u8) = unat w div 2 ^ n mod 256"
proof -
  have "unat (drop_bit n w) = unat w div 2 ^ n"
    using unat_lt_power[of w] by (subst unsigned_drop_bit_eq) (simp add: drop_bit_eq_div take_bit_nat_eq_self)
  then show ?thesis by (simp add: unsigned_ucast_eq take_bit_eq_mod)
qed

lemma u32_be_roundtrip: "u32_from_be_bytes (u32_be_bytes w) = w"
proof -
  let ?n = "unat w"
  have e: "[0..<4::nat] = [0, 1, 2, 3]" by (simp add: upt_rec)
  have "unat w < 2 ^ 32" using unat_lt_power[of w] by simp
  then have q: "?n div 16777216 mod 256 = ?n div 16777216" by simp
  have b: "uint (ucast (drop_bit n w) :: u8) = int (?n div 2 ^ n mod 256)" for n
    by (metis byte_of_u32 uint_nat)
  from b[of 0] have "uint (ucast w :: u8) = int (?n mod 256)" by simp
  with b have "u32_from_be_bytes (u32_be_bytes w) =
     word_of_int (int (?n mod 256 + 256 * (?n div 256 mod 256 + 256 * (?n div 65536 mod 256 + 256 * (?n div 16777216 mod 256)))))"
    by (simp add: u32_from_be_bytes_def u32_be_bytes_def word_rcat_def e)
  also have "?n mod 256 + 256 * (?n div 256 mod 256 + 256 * (?n div 65536 mod 256 + 256 * (?n div 16777216 mod 256))) = ?n"
    unfolding q by (simp add: div_mult2_eq[of ?n 256 256, simplified] div_mult2_eq[of ?n 65536 256, simplified])
  finally show ?thesis by simp
qed

lemma length_u32_be_bytes [simp]: "length (u32_be_bytes w) = 4"
  by (simp add: u32_be_bytes_def)

lemma read_frame_write_frame:
  assumes "length data \<le> 64 * 1024 * 1024"
  shows "read_frame (write_frame data @ rest) = Inr (data, rest)"
proof -
  have len: "unat (of_nat (length data) :: u32) = length data"
    using assms by (simp add: unat_of_nat)
  have "of_nat (length data) \<le> MAX_FRAME_SIZE" using assms by (simp add: word_le_nat_alt len MAX_FRAME_SIZE_def)
  then show ?thesis
    by (simp add: read_frame_def write_frame_def read_exact_def u32_be_roundtrip len Let_def not_less)
qed

section \<open>Calls over the wire\<close>

datatype call = CallWrite WriteExtentRequest bytes | CallRead ReadExtentRequest

datatype reply = ReplyWrite WriteExtentResponse | ReplyRead ReadExtentResponse "bytes option"

fun call_bytes :: "msg_codec \<Rightarrow> call \<Rightarrow> bytes" where
  "call_bytes codec (CallWrite q payload) = write_frame (se_msg codec (WriteReq q)) @ payload"
| "call_bytes codec (CallRead q) = write_frame (se_msg codec (ReadReq q))"

fun reply_bytes :: "msg_codec \<Rightarrow> reply \<Rightarrow> bytes" where
  "reply_bytes codec (ReplyWrite resp) = write_frame (se_msg codec (WriteResp resp))"
| "reply_bytes codec (ReplyRead resp data) =
     write_frame (se_msg codec (ReadResp resp)) @ (case data of None \<Rightarrow> [] | Some p \<Rightarrow> p)"

text \<open>The same calls made directly on the handler.\<close>

fun run_calls :: "'s data_handler \<Rightarrow> call list \<Rightarrow> 's \<Rightarrow> (reply list \<times> 's) option" where
  "run_calls h [] s = Some ([], s)"
| "run_calls h (CallWrite q payload # cs) s =
     (case dh_write h q payload s of
        (resp, s') \<Rightarrow> map_option (\<lambda>(rs, t). (ReplyWrite resp # rs, t)) (run_calls h cs s'))"
| "run_calls h (CallRead q # cs) s =
     (case dh_read h q s of
        None \<Rightarrow> None
      | Some ((resp, data), s') \<Rightarrow> map_option (\<lambda>(rs, t). (ReplyRead resp data # rs, t)) (run_calls h cs s'))"

definition codec_ok :: "msg_codec \<Rightarrow> ProtocolMessage \<Rightarrow> bool" where
  "codec_ok codec m \<longleftrightarrow> de_msg codec (se_msg codec m) = Some m \<and> length (se_msg codec m) \<le> 64 * 1024 * 1024"

fun call_ok :: "msg_codec \<Rightarrow> call \<Rightarrow> bool" where
  "call_ok codec (CallWrite q payload) \<longleftrightarrow>
     codec_ok codec (WriteReq q) \<and> unat (wq_payload_size q) = length payload \<and> vec_len_ok (length payload)"
| "call_ok codec (CallRead q) \<longleftrightarrow> codec_ok codec (ReadReq q)"

text \<open>A reply that the client can take off the stream: a payload comes exactly with a success.\<close>

fun reply_ok :: "msg_codec \<Rightarrow> reply \<Rightarrow> bool" where
  "reply_ok codec (ReplyWrite resp) \<longleftrightarrow> codec_ok codec (WriteResp resp)"
| "reply_ok codec (ReplyRead resp data) \<longleftrightarrow>
     codec_ok codec (ReadResp resp) \<and>
     (case data of
        None \<Rightarrow> \<not> rr_success resp
      | Some p \<Rightarrow> rr_success resp \<and> unat (rr_payload_size resp) = length p \<and> vec_len_ok (length p))"

lemma request_loop_calls:
  assumes "run_calls h cs s = Some (rs, s')" "list_all (call_ok codec) cs" "\<And>i. \<not> cancelled i"
  shows "request_loop codec h cancelled i (concat (map (call_bytes codec) cs)) s =
           (concat (map (reply_bytes codec) rs), s', Closed)"
  using assms(1,2)
proof (induction h cs s arbitrary: rs i rule: run_calls.induct)
  case (1 h s)
  then show ?case using assms(3)[of i] by (subst request_loop.simps) (simp add: read_frame_def read_exact_def)
next
  case (2 h q payload cs s)
  obtain resp t where w: "dh_write h q payload s = (resp, t)" by fastforce
  with "2.prems"(1) obtain rs1 where r: "run_calls h cs t = Some (rs1, s')" "rs = ReplyWrite resp # rs1" by auto
  have ok: "codec_ok codec (WriteReq q)" "unat (wq_payload_size q) = length payload" "vec_len_ok (length payload)"
    "list_all (call_ok codec) cs" using "2.prems"(2) by simp_all
  from "2.IH"[OF w[symmetric] r(1) ok(4), of "i + 1"] ok(1-3) assms(3)[of i] show ?case
    by (subst request_loop.simps) (simp add: r(2) w codec_ok_def read_frame_write_frame read_exact_def)
next
  case (3 h q cs s)
  from "3.prems"(1) obtain resp data t rs1 where w: "dh_read h q s = Some ((resp, data), t)"
    and r: "run_calls h cs t = Some (rs1, s')" "rs = ReplyRead resp data # rs1"
    by (auto split: option.splits)
  have ok: "codec_ok codec (ReadReq q)" "list_all (call_ok codec) cs" using "3.prems"(2) by simp_all
  from "3.IH"[OF w refl refl r(1) ok(2), of "i + 1"] ok(1) assms(3)[of i] show ?case
    by (subst request_loop.simps) (simp add: r(2) w codec_ok_def read_frame_write_frame)
qed

lemma read_write_reply_bytes:
  "reply_ok codec (ReplyWrite resp) \<Longrightarrow> read_write_reply codec (reply_bytes codec (ReplyWrite resp) @ rest) = Inr (resp, rest)"
  by (simp add: read_write_reply_def codec_ok_def read_frame_write_frame)

lemma read_read_reply_bytes:
  "reply_ok codec (ReplyRead resp data) \<Longrightarrow>
   read_read_reply codec (reply_bytes codec (ReplyRead resp data) @ rest) =
     (case data of None \<Rightarrow> Inl (CeReadFailed (rr_error resp)) | Some p \<Rightarrow> Inr (p, rest))"
  by (auto simp: read_read_reply_def codec_ok_def read_frame_write_frame read_exact_def word_neq_0_conv[symmetric]
      split: option.splits)

text \<open>
  C34: The wire protocol refines direct calls: when the client's handshake is accepted and all messages
  fit a frame, a connection that carries a sequence of write and read calls leaves the server's
  handler in the state the direct calls leave it in and answers with exactly their replies, in
  order; the client takes each write reply and each read payload back off the stream unchanged.
\<close>

theorem wire_refines_calls:
  assumes "run_calls h cs s = Some (rs, s')" "list_all (call_ok codec) cs" "\<And>i. \<not> cancelled i"
    and "de_hs (se_hs hello) = Some hello" "length (se_hs hello) \<le> 64 * 1024 * 1024"
    and "hr_accepted (fst (negotiate_version_with_auth hello node_id provider))"
  shows "handle_connection de_hs se_resp codec h cancelled node_id provider
           (write_frame (se_hs hello) @ concat (map (call_bytes codec) cs)) s =
         (write_frame (se_resp (fst (negotiate_version_with_auth hello node_id provider))) @
            concat (map (reply_bytes codec) rs), s', Closed) \<and>
    (\<forall>resp rest. reply_ok codec (ReplyWrite resp) \<longrightarrow>
       read_write_reply codec (reply_bytes codec (ReplyWrite resp) @ rest) = Inr (resp, rest)) \<and>
    (\<forall>resp p rest. reply_ok codec (ReplyRead resp (Some p)) \<longrightarrow>
       read_read_reply codec (reply_bytes codec (ReplyRead resp (Some p)) @ rest) = Inr (p, rest))"
proof -
  have "request_loop codec h cancelled 0 (concat (map (call_bytes codec) cs)) s =
     (concat (map (reply_bytes codec) rs), s', Closed)" by (rule request_loop_calls[OF assms(1-3)])
  then have "handle_connection de_hs se_resp codec h cancelled node_id provider
           (write_frame (se_hs hello) @ concat (map (call_bytes codec) cs)) s =
         (write_frame (se_resp (fst (negotiate_version_with_auth hello node_id provider))) @
            concat (map (reply_bytes codec) rs), s', Closed)"
    using assms(4-6) by (simp add: handle_connection_def read_frame_write_frame split_def Let_def)
  then show ?thesis using read_write_reply_bytes read_read_reply_bytes by fastforce
qed

text \<open>
  With authentication required, this client never gets in: its handshake carries no token, so a
  server with an auth provider rejects it, whatever the provider accepts.
\<close>

theorem client_handshake_lacks_token:
  "\<not> hr_accepted (fst (negotiate_version_with_auth handshake_request node_id (Some provider))) \<and>
   hr_accepted (fst (negotiate_version_with_auth handshake_request node_id None))"
  by (simp add: negotiate_version_with_auth_def handshake_request_def negotiate_version_def
      CURRENT_PROTOCOL_VERSION_def MIN_PROTOCOL_VERSION_def Let_def)

section \<open>Concrete instances\<close>

text \<open>A codec for the four messages of one exchange, and a handler that stores nothing.\<close>

definition toy_write :: WriteExtentRequest where
  "toy_write = \<lparr> wq_operation_id = 1, wq_session_id = 2, wq_volume_id = 3, wq_extent_id = 7, wq_extent_version = 1,
     wq_epoch = 5, wq_target_disk_id = None, wq_checksum = ''6'', wq_payload_size = 2, wq_lease_version = None \<rparr>"

definition toy_response :: WriteExtentResponse where
  "toy_response = \<lparr> wr_operation_id = 1, wr_extent_id = 7, wr_extent_version = 1, wr_disk_id = 4, wr_success = True,
     wr_checksum = ''6'', wr_error = None \<rparr>"

definition toy_codec :: msg_codec where
  "toy_codec = \<lparr> se_msg = (\<lambda>m. case m of WriteReq _ \<Rightarrow> [1] | _ \<Rightarrow> [2]),
     de_msg = (\<lambda>bs. if bs = [1] then Some (WriteReq toy_write) else Some (WriteResp toy_response)) \<rparr>"

definition toy_handler :: "nat data_handler" where
  "toy_handler = \<lparr> dh_write = (\<lambda>q p s. (toy_response, s + length p)), dh_read = (\<lambda>q s. None) \<rparr>"

theorem wire_refines_calls_witness:
  "handle_connection (\<lambda>_. Some handshake_request) (\<lambda>_. [3]) toy_codec toy_handler (\<lambda>_. False) 9 None
     (write_frame [0] @ call_bytes toy_codec (CallWrite toy_write [8, 9])) 0 =
   (write_frame [3] @ reply_bytes toy_codec (ReplyWrite toy_response), 2, Closed)"
proof -
  have r: "run_calls toy_handler [CallWrite toy_write [8, 9]] 0 = Some ([ReplyWrite toy_response], 2)"
    by (simp add: toy_handler_def)
  have ok: "list_all (call_ok toy_codec) [CallWrite toy_write [8, 9]]"
    by (simp add: codec_ok_def toy_codec_def toy_write_def vec_len_ok_def)
  have acc: "hr_accepted (fst (negotiate_version_with_auth handshake_request 9 None))"
    by (simp add: negotiate_version_with_auth_def handshake_request_def negotiate_version_def
      CURRENT_PROTOCOL_VERSION_def MIN_PROTOCOL_VERSION_def Let_def)
  from wire_refines_calls[OF r ok, of "\<lambda>_. False" "\<lambda>_. Some handshake_request" "\<lambda>_. [0]" handshake_request 9 None "\<lambda>_. [3]"] acc
  show ?thesis by simp
qed

end
