(* ===== verification/ClientState.thy ===== *)
theory ClientState
  imports Extent
begin

text \<open>
  The state a mounted volume keeps on the client (\<^verbatim>\<open>blockyard-ublk/src\<close>): the write watermark
  (\<^verbatim>\<open>watermark.rs\<close>), the metadata cache (\<^verbatim>\<open>metadata_cache.rs\<close>), freshness checks (\<^verbatim>\<open>freshness.rs\<close>), sessions
  (\<^verbatim>\<open>session.rs\<close>), stale-epoch handling (\<^verbatim>\<open>stale_epoch.rs\<close>), resolution of ambiguous writes
  (\<^verbatim>\<open>ambiguous_write.rs\<close>), crash recovery (\<^verbatim>\<open>crash_recovery.rs\<close>), the write lease (\<^verbatim>\<open>lease_manager.rs\<close>), the
  quorum monitor (\<^verbatim>\<open>quorum_health.rs\<close>) and batched commits (\<^verbatim>\<open>write_batcher.rs\<close>). The answers of the metadata
  service are arguments. The compare-and-swap loop of the watermark is a step relation over any
  number of threads.
\<close>

section \<open>The write watermark\<close>

text \<open>
  \<^verbatim>\<open>advance_to\<close> is a compare-and-swap loop. A thread is about to load, has loaded a value smaller than its
  version, or has returned; the weak compare-and-swap may also fail when the value has not changed.
\<close>

definition watermark_is_fresh :: "u64 \<Rightarrow> EpochId \<Rightarrow> bool" where
  "watermark_is_fresh wm e \<longleftrightarrow> e \<ge> wm"

definition advance_to :: "u64 \<Rightarrow> u64 \<Rightarrow> bool \<times> u64" where
  "advance_to version wm = (if version \<le> wm then (False, wm) else (True, version))"

datatype Advance = Loop u64 | Loaded u64 u64 | Returned u64 bool

fun advance_version :: "Advance \<Rightarrow> u64" where
  "advance_version (Loop v) = v"
| "advance_version (Loaded v c) = v"
| "advance_version (Returned v b) = v"

inductive advance_step :: "u64 \<times> Advance list \<Rightarrow> u64 \<times> Advance list \<Rightarrow> bool" where
  load_small: "i < length ts \<Longrightarrow> ts ! i = Loop v \<Longrightarrow> v \<le> wm \<Longrightarrow> advance_step (wm, ts) (wm, ts[i := Returned v False])"
| load: "i < length ts \<Longrightarrow> ts ! i = Loop v \<Longrightarrow> \<not> v \<le> wm \<Longrightarrow> advance_step (wm, ts) (wm, ts[i := Loaded v wm])"
| cas_ok: "i < length ts \<Longrightarrow> ts ! i = Loaded v wm \<Longrightarrow> advance_step (wm, ts) (v, ts[i := Returned v True])"
| cas_fail: "i < length ts \<Longrightarrow> ts ! i = Loaded v c \<Longrightarrow> advance_step (wm, ts) (wm, ts[i := Loop v])"

section \<open>The metadata cache\<close>

record CachedExtentMapping =
  cm_extent_id :: ExtentId
  cm_extent_version :: u64
  cm_replica_locations :: "NodeId list"
  cm_checksums :: "bytes list"
  cm_size_bytes :: u64
  cm_extent_offset :: u64

record CachedVolumeInfo =
  cv_volume_id :: VolumeId
  cv_size_bytes :: u64
  cv_block_size :: u32
  cv_protection :: ProtectionPolicy
  cv_extent_mappings :: "(u64, CachedExtentMapping) btree"

definition cached_extent_blocks :: "CachedVolumeInfo \<Rightarrow> u64" where
  "cached_extent_blocks v = 1"

record NodeAddress =
  na_node_id :: NodeId
  na_addr :: SocketAddr

record MetadataCache =
  mc_epoch :: EpochId
  mc_cluster_map :: "(string, NodeAddress) btree"
  mc_volumes :: "(string, CachedVolumeInfo) btree"

definition cache_new :: MetadataCache where
  "cache_new = \<lparr> mc_epoch = 0, mc_cluster_map = [], mc_volumes = [] \<rparr>"

definition cache_set_epoch :: "EpochId \<Rightarrow> MetadataCache \<Rightarrow> MetadataCache" where
  "cache_set_epoch e c = c\<lparr> mc_epoch := e \<rparr>"

definition get_node :: "(uuid \<Rightarrow> string) \<Rightarrow> MetadataCache \<Rightarrow> NodeId \<Rightarrow> NodeAddress option" where
  "get_node fmt c n = bt_get (mc_cluster_map c) (fmt n)"

definition set_node :: "(uuid \<Rightarrow> string) \<Rightarrow> NodeId \<Rightarrow> SocketAddr \<Rightarrow> MetadataCache \<Rightarrow> MetadataCache" where
  "set_node fmt n a c = c\<lparr> mc_cluster_map := bt_insert (fmt n) \<lparr> na_node_id = n, na_addr = a \<rparr> (mc_cluster_map c) \<rparr>"

definition cache_remove_node :: "(uuid \<Rightarrow> string) \<Rightarrow> NodeId \<Rightarrow> MetadataCache \<Rightarrow> MetadataCache" where
  "cache_remove_node fmt n c = c\<lparr> mc_cluster_map := bt_remove (fmt n) (mc_cluster_map c) \<rparr>"

definition cache_list_nodes :: "MetadataCache \<Rightarrow> NodeAddress list" where
  "cache_list_nodes c = bt_values (mc_cluster_map c)"

definition cache_get_volume :: "(uuid \<Rightarrow> string) \<Rightarrow> MetadataCache \<Rightarrow> VolumeId \<Rightarrow> CachedVolumeInfo option" where
  "cache_get_volume fmt c v = bt_get (mc_volumes c) (fmt v)"

definition cache_set_volume :: "(uuid \<Rightarrow> string) \<Rightarrow> CachedVolumeInfo \<Rightarrow> MetadataCache \<Rightarrow> MetadataCache" where
  "cache_set_volume fmt info c = c\<lparr> mc_volumes := bt_insert (fmt (cv_volume_id info)) info (mc_volumes c) \<rparr>"

definition cache_remove_volume :: "(uuid \<Rightarrow> string) \<Rightarrow> VolumeId \<Rightarrow> MetadataCache \<Rightarrow> MetadataCache" where
  "cache_remove_volume fmt v c = c\<lparr> mc_volumes := bt_remove (fmt v) (mc_volumes c) \<rparr>"

definition get_extent_mapping :: "(uuid \<Rightarrow> string) \<Rightarrow> MetadataCache \<Rightarrow> VolumeId \<Rightarrow> u64 \<Rightarrow> CachedExtentMapping option" where
  "get_extent_mapping fmt c v b =
     Option.bind (bt_get (mc_volumes c) (fmt v)) (\<lambda>vol. bt_get (cv_extent_mappings vol) b)"

definition set_extent_mapping ::
  "(uuid \<Rightarrow> string) \<Rightarrow> VolumeId \<Rightarrow> u64 \<Rightarrow> CachedExtentMapping \<Rightarrow> MetadataCache \<Rightarrow> MetadataCache" where
  "set_extent_mapping fmt v b m c =
     (case bt_get (mc_volumes c) (fmt v) of
        None \<Rightarrow> c
      | Some vol \<Rightarrow>
          c\<lparr> mc_volumes := bt_insert (fmt v)
               (vol\<lparr> cv_extent_mappings := bt_insert b m (cv_extent_mappings vol) \<rparr>) (mc_volumes c) \<rparr>)"

text \<open>A half-open range of blocks; empty when the end is not above the start.\<close>

type_synonym block_range = "u64 \<times> u64"

definition range_blocks :: "block_range \<Rightarrow> u64 list" where
  "range_blocks r = map (\<lambda>i. fst r + of_nat i) [0..<unat (snd r) - unat (fst r)]"

definition set_extent_mapping_range ::
  "(uuid \<Rightarrow> string) \<Rightarrow> VolumeId \<Rightarrow> block_range \<Rightarrow> u64 \<Rightarrow> CachedExtentMapping \<Rightarrow> MetadataCache \<Rightarrow> MetadataCache" where
  "set_extent_mapping_range fmt v r block_size base c =
     (case bt_get (mc_volumes c) (fmt v) of
        None \<Rightarrow> c
      | Some vol \<Rightarrow>
          (let put = (\<lambda>b. bt_insert b (base\<lparr> cm_size_bytes := block_size,
                                              cm_extent_offset := (b - fst r) * block_size \<rparr>))
           in c\<lparr> mc_volumes := bt_insert (fmt v)
                   (vol\<lparr> cv_extent_mappings := fold put (range_blocks r) (cv_extent_mappings vol) \<rparr>) (mc_volumes c) \<rparr>))"

definition bt_floor :: "('k::linorder, 'v) btree \<Rightarrow> 'k \<Rightarrow> ('k \<times> 'v) option" where
  "bt_floor m k = (let below = filter (\<lambda>kv. fst kv \<le> k) m in if below = [] then None else Some (last below))"

definition find_extent_for_range ::
  "(uuid \<Rightarrow> string) \<Rightarrow> MetadataCache \<Rightarrow> VolumeId \<Rightarrow> block_range \<Rightarrow> (u64 \<times> CachedExtentMapping) option" where
  "find_extent_for_range fmt c v r =
     (case bt_get (mc_volumes c) (fmt v) of
        None \<Rightarrow> None
      | Some vol \<Rightarrow>
          (case bt_floor (cv_extent_mappings vol) (fst r) of
             None \<Rightarrow> None
           | Some (block_start, mapping) \<Rightarrow>
               if cm_size_bytes mapping > 0 \<and>
                  fst r \<ge> block_start + of_nat (div_ceil (unat (cm_size_bytes mapping)) (unat (max (cv_block_size vol) 1)))
               then None else Some (block_start, mapping)))"

definition refresh_volume :: "(uuid \<Rightarrow> string) \<Rightarrow> MetadataCache \<Rightarrow> CachedVolumeInfo \<Rightarrow> CachedVolumeInfo" where
  "refresh_volume fmt c v =
     (case bt_get (mc_volumes c) (fmt (cv_volume_id v)) of
        Some existing \<Rightarrow>
          if cv_extent_mappings v = [] \<and> cv_extent_mappings existing \<noteq> []
          then v\<lparr> cv_extent_mappings := cv_extent_mappings existing \<rparr> else v
      | None \<Rightarrow> v)"

definition cache_refresh ::
  "(uuid \<Rightarrow> string) \<Rightarrow> EpochId \<Rightarrow> NodeAddress list \<Rightarrow> CachedVolumeInfo list \<Rightarrow> MetadataCache \<Rightarrow> MetadataCache" where
  "cache_refresh fmt e nodes volumes c =
     \<lparr> mc_epoch = e,
       mc_cluster_map = fold (\<lambda>n. bt_insert (fmt (na_node_id n)) n) nodes [],
       mc_volumes = fold (\<lambda>v. bt_insert (fmt (cv_volume_id v)) (refresh_volume fmt c v)) volumes [] \<rparr>"

section \<open>Freshness\<close>

datatype FreshnessStatus = Fresh | Stale EpochId EpochId

definition check_against :: "MetadataCache \<Rightarrow> EpochId \<Rightarrow> FreshnessStatus" where
  "check_against c required = (if mc_epoch c \<ge> required then Fresh else Stale (mc_epoch c) required)"

definition freshness_check :: "MetadataCache \<Rightarrow> u64 \<Rightarrow> FreshnessStatus" where
  "freshness_check c wm = (if mc_epoch c \<ge> wm then Fresh else Stale (mc_epoch c) wm)"

section \<open>Sessions\<close>

record ClientSession =
  ss_session_id :: SessionId
  ss_volume_id :: VolumeId
  ss_operation_counter :: u64

text \<open>The operation id is a generated UUID (\<^verbatim>\<open>gen\<close>); the counter only counts.\<close>

definition next_operation_id :: "OperationId \<Rightarrow> ClientSession \<Rightarrow> OperationId \<times> ClientSession" where
  "next_operation_id gen s = (gen, s\<lparr> ss_operation_counter := ss_operation_counter s + 1 \<rparr>)"

section \<open>Stale epochs\<close>

type_synonym refresher = "MetadataCache \<Rightarrow> (EpochId, Error) result \<times> MetadataCache"

record StaleEpochHandler =
  sh_paused :: bool
  sh_refresh_count :: u64

definition handle_stale_epoch ::
  "refresher \<Rightarrow> EpochId \<Rightarrow> StaleEpochHandler \<times> MetadataCache \<Rightarrow>
   (EpochId, Error) result \<times> StaleEpochHandler \<times> MetadataCache" where
  "handle_stale_epoch refresh stale_epoch sc =
     (let (h, c) = sc in
      if mc_epoch c > stale_epoch then (Inr (mc_epoch c), h\<lparr> sh_paused := False \<rparr>, c)
      else
        (let (r, c') = refresh c
         in (r, h\<lparr> sh_paused := False, sh_refresh_count := sh_refresh_count h + 1 \<rparr>, c')))"

section \<open>Ambiguous writes and crash recovery\<close>

record CommittedMapping =
  ct_extent_id :: ExtentId
  ct_extent_version :: u64
  ct_epoch :: EpochId
  ct_block_range :: block_range
  ct_replica_locations :: "NodeId list"
  ct_checksums :: "bytes list"

type_synonym operation_lookup = "OperationId \<Rightarrow> (CommittedMapping option, Error) result"

datatype AmbiguousWriteOutcome = AwCommitted EpochId u64 | AwNotCommitted

definition recovered_mapping :: "CommittedMapping \<Rightarrow> CachedExtentMapping" where
  "recovered_mapping m =
     \<lparr> cm_extent_id = ct_extent_id m, cm_extent_version = ct_extent_version m,
       cm_replica_locations = ct_replica_locations m, cm_checksums = ct_checksums m,
       cm_size_bytes = 0, cm_extent_offset = 0 \<rparr>"

definition resolve ::
  "(uuid \<Rightarrow> string) \<Rightarrow> operation_lookup \<Rightarrow> VolumeId \<Rightarrow> OperationId \<Rightarrow> MetadataCache \<times> u64 \<Rightarrow>
   (AmbiguousWriteOutcome, Error) result \<times> MetadataCache \<times> u64" where
  "resolve fmt lookup v op cw =
     (case lookup op of
        Inl e \<Rightarrow> (Inl e, cw)
      | Inr None \<Rightarrow> (Inr AwNotCommitted, cw)
      | Inr (Some m) \<Rightarrow>
          (Inr (AwCommitted (ct_epoch m) (ct_extent_version m)),
           set_extent_mapping fmt v (fst (ct_block_range m)) (recovered_mapping m) (fst cw),
           snd (advance_to (ct_epoch m) (snd cw))))"

fun resolve_batch ::
  "(uuid \<Rightarrow> string) \<Rightarrow> operation_lookup \<Rightarrow> VolumeId \<Rightarrow> OperationId list \<Rightarrow> MetadataCache \<times> u64 \<Rightarrow>
   ((OperationId \<times> AmbiguousWriteOutcome) list, Error) result \<times> MetadataCache \<times> u64" where
  "resolve_batch fmt lookup v [] cw = (Inr [], cw)"
| "resolve_batch fmt lookup v (op # ops) cw =
     (case resolve fmt lookup v op cw of
        (Inl e, cw1) \<Rightarrow> (Inl e, cw1)
      | (Inr o1, cw1) \<Rightarrow>
          (case resolve_batch fmt lookup v ops cw1 of
             (Inl e, cw2) \<Rightarrow> (Inl e, cw2)
           | (Inr os, cw2) \<Rightarrow> (Inr ((op, o1) # os), cw2)))"

record RecoveryResult =
  rc_recovered_epoch :: EpochId
  rc_committed_operations :: nat
  rc_uncommitted_operations :: nat

fun recover_operations ::
  "(uuid \<Rightarrow> string) \<Rightarrow> operation_lookup \<Rightarrow> VolumeId \<Rightarrow> OperationId list \<Rightarrow> MetadataCache \<Rightarrow>
   (nat \<times> nat, Error) result \<times> MetadataCache" where
  "recover_operations fmt lookup v [] c = (Inr (0, 0), c)"
| "recover_operations fmt lookup v (op # ops) c =
     (case lookup op of
        Inl e \<Rightarrow> (Inl e, c)
      | Inr None \<Rightarrow>
          (case recover_operations fmt lookup v ops c of
             (Inl e, c') \<Rightarrow> (Inl e, c')
           | (Inr (n, u), c') \<Rightarrow> (Inr (n, u + 1), c'))
      | Inr (Some m) \<Rightarrow>
          (case recover_operations fmt lookup v ops
                  (set_extent_mapping fmt v (fst (ct_block_range m)) (recovered_mapping m) c) of
             (Inl e, c') \<Rightarrow> (Inl e, c')
           | (Inr (n, u), c') \<Rightarrow> (Inr (n + 1, u), c')))"

definition client_recover ::
  "(uuid \<Rightarrow> string) \<Rightarrow> (EpochId, Error) result \<Rightarrow> operation_lookup \<Rightarrow> VolumeId \<Rightarrow> OperationId list \<Rightarrow> MetadataCache \<times> u64 \<Rightarrow>
   (RecoveryResult, Error) result \<times> MetadataCache \<times> u64" where
  "client_recover fmt current lookup v ops cw =
     (case current of
        Inl e \<Rightarrow> (Inl e, cw)
      | Inr epoch \<Rightarrow>
          (case recover_operations fmt lookup v ops (cache_set_epoch epoch (fst cw)) of
             (Inl e, c) \<Rightarrow> (Inl e, c, snd cw)
           | (Inr (n, u), c) \<Rightarrow>
               (Inr \<lparr> rc_recovered_epoch = epoch, rc_committed_operations = n, rc_uncommitted_operations = u \<rparr>,
                c, snd (advance_to epoch (snd cw)))))"

definition refresh_full_state ::
  "refresher \<Rightarrow> MetadataCache \<times> u64 \<Rightarrow> (EpochId, Error) result \<times> MetadataCache \<times> u64" where
  "refresh_full_state refresh cw =
     (case refresh (fst cw) of
        (Inl e, c) \<Rightarrow> (Inl e, c, snd cw)
      | (Inr epoch, c) \<Rightarrow> (Inr epoch, c, snd (advance_to epoch (snd cw))))"

section \<open>Write leases\<close>

datatype LeaseState = LsNone | LsActive | LsLost

record LeaseManager =
  lm_state :: LeaseState
  lm_lease_version :: "LeaseVersion option"
  lm_expires_at_ms :: "u64 option"

definition lease_manager_new :: LeaseManager where
  "lease_manager_new = \<lparr> lm_state = LsNone, lm_lease_version = None, lm_expires_at_ms = None \<rparr>"

fun denial_text :: "(uuid \<Rightarrow> string) \<Rightarrow> LeaseDenial \<Rightarrow> string" where
  "denial_text fmt (LeaseVolumeNotFound v) = ''volume '' @ fmt v @ '' not found''"
| "denial_text fmt (LeaseHeldBy v h) = ''volume '' @ fmt v @ '' lease held by session '' @ fmt h"
| "denial_text fmt (NoLease v) = ''no lease exists for volume '' @ fmt v"
| "denial_text fmt (LeaseHeldByDifferent v h) = ''lease for volume '' @ fmt v @ '' held by different session '' @ fmt h"
| "denial_text fmt (LeaseExpired v) = ''lease for volume '' @ fmt v @ '' has expired, must re-acquire''"
| "denial_text fmt (ReleaseNotHolder v) =
     ''cannot release lease for volume '' @ fmt v @ '': held by different session''"

text \<open>
  The lease calls take the answer of the metadata service; \<^verbatim>\<open>dbg\<close> is the debug text of a response.
\<close>

definition lease_acquire ::
  "(uuid \<Rightarrow> string) \<Rightarrow> (LeaseResponse \<Rightarrow> string) \<Rightarrow> (LeaseResponse, Error) result \<Rightarrow> LeaseManager \<Rightarrow>
   (LeaseVersion, Error) result \<times> LeaseManager" where
  "lease_acquire fmt dbg answer lm =
     (case answer of
        Inl e \<Rightarrow> (Inl e, lm)
      | Inr response \<Rightarrow>
          (case response of
             Granted version expires \<Rightarrow>
               (Inr version, \<lparr> lm_state = LsActive, lm_lease_version = Some version, lm_expires_at_ms = Some expires \<rparr>)
           | Denied d \<Rightarrow> (Inl (AuthError (''lease denied: '' @ denial_text fmt d)), lm)
           | other \<Rightarrow> (Inl (AuthError (''unexpected lease response: '' @ dbg other)), lm)))"

definition mark_lost :: "LeaseManager \<Rightarrow> LeaseManager" where
  "mark_lost lm = lm\<lparr> lm_state := LsLost \<rparr>"

definition lease_renew ::
  "(uuid \<Rightarrow> string) \<Rightarrow> (LeaseResponse \<Rightarrow> string) \<Rightarrow> (LeaseResponse, Error) result \<Rightarrow> LeaseManager \<Rightarrow>
   (LeaseVersion, Error) result \<times> LeaseManager" where
  "lease_renew fmt dbg answer lm =
     (case answer of
        Inl e \<Rightarrow> (Inl e, lm)
      | Inr response \<Rightarrow>
          (case response of
             Renewed version expires \<Rightarrow>
               (Inr version, lm\<lparr> lm_lease_version := Some version, lm_expires_at_ms := Some expires \<rparr>)
           | Denied d \<Rightarrow> (Inl (AuthError (''lease renewal denied: '' @ denial_text fmt d)), mark_lost lm)
           | other \<Rightarrow> (Inl (AuthError (''unexpected renewal response: '' @ dbg other)), mark_lost lm)))"

definition lease_release ::
  "(LeaseResponse \<Rightarrow> string) \<Rightarrow> (LeaseResponse, Error) result \<Rightarrow> LeaseManager \<Rightarrow> (unit, Error) result \<times> LeaseManager" where
  "lease_release dbg answer lm =
     (case answer of
        Inl e \<Rightarrow> (Inl e, lm)
      | Inr response \<Rightarrow>
          ((case response of
              Released \<Rightarrow> Inr ()
            | Denied d \<Rightarrow> Inr ()
            | other \<Rightarrow> Inl (AuthError (''unexpected release response: '' @ dbg other))), lease_manager_new))"

text \<open>
  The renewal task: one answer of the metadata service per tick, until shutdown (the end of the
  list), a lease that is not active, or a failed renewal. The flag says whether the task stopped
  by itself.
\<close>

fun renewal_task ::
  "(uuid \<Rightarrow> string) \<Rightarrow> (LeaseResponse \<Rightarrow> string) \<Rightarrow> (LeaseResponse, Error) result list \<Rightarrow> LeaseManager \<Rightarrow>
   bool \<times> LeaseManager" where
  "renewal_task fmt dbg [] lm = (False, lm)"
| "renewal_task fmt dbg (a # as) lm =
     (if lm_state lm \<noteq> LsActive then (True, lm)
      else case lease_renew fmt dbg a lm of
        (Inl e, lm') \<Rightarrow> (True, lm')
      | (Inr _, lm') \<Rightarrow> renewal_task fmt dbg as lm')"

definition em_dash :: string where
  "em_dash = [CHR 0xE2, CHR 0x80, CHR 0x94]"

definition check_write_allowed :: "LeaseManager \<Rightarrow> (LeaseVersion, Error) result" where
  "check_write_allowed lm =
     (case lm_state lm of
        LsActive \<Rightarrow>
          (case lm_lease_version lm of
             Some v \<Rightarrow> Inr v
           | None \<Rightarrow> Inl (AuthError ''lease active but no version''))
      | LsNone \<Rightarrow> Inl (AuthError ''no write lease held'')
      | LsLost \<Rightarrow> Inl (AuthError (''write lease lost '' @ em_dash @ '' renewal failed'')))"

section \<open>Health of the metadata quorum\<close>

datatype QuorumLossReadPolicy = AllowCachedReads | BlockAllReads

datatype QuorumStatus = QsHealthy | QsDegraded | QsUnavailable

record QuorumHealthMonitor =
  qm_writes_blocked :: bool
  qm_status :: QuorumStatus
  qm_read_policy :: QuorumLossReadPolicy
  qm_consecutive_failures :: u64
  qm_failure_threshold :: u64
  qm_recovery_count :: u64

definition monitor_new :: "QuorumLossReadPolicy \<Rightarrow> u64 \<Rightarrow> QuorumHealthMonitor" where
  "monitor_new policy threshold =
     \<lparr> qm_writes_blocked = False, qm_status = QsHealthy, qm_read_policy = policy,
       qm_consecutive_failures = 0, qm_failure_threshold = threshold, qm_recovery_count = 0 \<rparr>"

definition reads_allowed :: "QuorumHealthMonitor \<Rightarrow> bool" where
  "reads_allowed m = (case qm_status m of QsUnavailable \<Rightarrow> qm_read_policy m = AllowCachedReads | _ \<Rightarrow> True)"

definition record_success :: "QuorumHealthMonitor \<Rightarrow> QuorumHealthMonitor" where
  "record_success m =
     m\<lparr> qm_consecutive_failures := 0, qm_writes_blocked := False, qm_status := QsHealthy,
        qm_recovery_count := (if qm_status m \<noteq> QsHealthy \<and> qm_writes_blocked m then qm_recovery_count m + 1
                              else qm_recovery_count m) \<rparr>"

definition record_failure :: "QuorumHealthMonitor \<Rightarrow> QuorumHealthMonitor" where
  "record_failure m =
     (let failures = qm_consecutive_failures m + 1; m1 = m\<lparr> qm_consecutive_failures := failures \<rparr> in
      if failures \<ge> qm_failure_threshold m then m1\<lparr> qm_writes_blocked := True, qm_status := QsUnavailable \<rparr>
      else if qm_status m = QsHealthy then m1\<lparr> qm_status := QsDegraded \<rparr> else m1)"

definition check_read_allowed :: "u64 \<Rightarrow> MetadataCache \<Rightarrow> QuorumHealthMonitor \<Rightarrow> bool" where
  "check_read_allowed wm c m \<longleftrightarrow>
     reads_allowed m \<and> (if qm_status m = QsUnavailable then mc_epoch c \<ge> wm else True)"

definition health_check :: "(EpochId, Error) result \<Rightarrow> QuorumHealthMonitor \<Rightarrow> bool \<times> QuorumHealthMonitor" where
  "health_check answer m = (case answer of Inr _ \<Rightarrow> (True, record_success m) | Inl _ \<Rightarrow> (False, record_failure m))"

section \<open>Batched metadata commits\<close>

record CommitRequest =
  cq_volume_id :: VolumeId
  cq_block_range :: block_range
  cq_extent_id :: ExtentId
  cq_extent_version :: u64
  cq_epoch :: EpochId
  cq_replica_locations :: "NodeId list"
  cq_checksums :: "bytes list"
  cq_operation_id :: "OperationId option"
  cq_previous_version :: "u64 option"

record CacheUpdate =
  cu_volume_id :: VolumeId
  cu_block_start :: u64
  cu_block_range :: "block_range option"
  cu_block_size :: u64
  cu_mapping :: CachedExtentMapping

text \<open>A pending commit with the number of the waiter that gets its outcome.\<close>

record PendingCommit =
  pc_request :: CommitRequest
  pc_result_tx :: nat
  pc_cache_update :: CacheUpdate

definition submit_commit :: "PendingCommit \<Rightarrow> PendingCommit list \<Rightarrow> PendingCommit list" where
  "submit_commit p pending = pending @ [p]"

definition apply_cache_update :: "(uuid \<Rightarrow> string) \<Rightarrow> CacheUpdate \<Rightarrow> MetadataCache \<Rightarrow> MetadataCache" where
  "apply_cache_update fmt u c =
     (case cu_block_range u of
        Some r \<Rightarrow> set_extent_mapping_range fmt (cu_volume_id u) r (cu_block_size u) (cu_mapping u) c
      | None \<Rightarrow> set_extent_mapping fmt (cu_volume_id u) (cu_block_start u) (cu_mapping u) c)"

text \<open>
  \<^verbatim>\<open>commit\<close> is the batch commit of the metadata service and \<^verbatim>\<open>show_error\<close> the text of an error; the
  outcome of every waiter is returned.
\<close>

definition batch_flush ::
  "(uuid \<Rightarrow> string) \<Rightarrow> (CommitRequest list \<Rightarrow> (EpochId, Error) result) \<Rightarrow> (Error \<Rightarrow> string) \<Rightarrow>
   PendingCommit list \<times> MetadataCache \<times> u64 \<Rightarrow>
   (nat \<times> (EpochId, Error) result) list \<times> PendingCommit list \<times> MetadataCache \<times> u64" where
  "batch_flush fmt commit show_error st =
     (let (commits, c, wm) = st in
      if commits = [] then ([], [], c, wm)
      else
        (case commit (map pc_request commits) of
           Inr epoch \<Rightarrow>
             (map (\<lambda>p. (pc_result_tx p, Inr epoch)) commits, [],
              fold (apply_cache_update fmt) (map pc_cache_update commits) c, snd (advance_to epoch wm))
         | Inl e \<Rightarrow> (map (\<lambda>p. (pc_result_tx p, Inl (Raft (show_error e)))) commits, [], c, wm)))"

section \<open>Facts about the watermark\<close>

fun thread_ok :: "u64 \<Rightarrow> Advance \<Rightarrow> bool" where
  "thread_ok wm (Loop v) = True"
| "thread_ok wm (Loaded v c) = (c < v \<and> c \<le> wm)"
| "thread_ok wm (Returned v b) = (v \<le> wm)"

definition advance_inv :: "u64 \<Rightarrow> u64 list \<Rightarrow> u64 \<times> Advance list \<Rightarrow> bool" where
  "advance_inv wm0 vs s \<longleftrightarrow>
     map advance_version (snd s) = vs \<and> wm0 \<le> fst s \<and> fst s \<in> insert wm0 (set vs) \<and>
     (\<forall>t \<in> set (snd s). thread_ok (fst s) t)"

lemma thread_ok_mono: "thread_ok wm t \<Longrightarrow> wm \<le> wm' \<Longrightarrow> thread_ok wm' t"
  by (cases t) auto

lemma advance_inv_init: "advance_inv wm0 vs (wm0, map Loop vs)"
  by (auto simp: advance_inv_def comp_def)

lemma advance_inv_update:
  assumes "advance_inv wm0 vs (wm, ts)" "i < length ts" "advance_version t = advance_version (ts ! i)"
    and "wm \<le> wm'" "wm' \<in> insert wm (set vs)" "thread_ok wm' t"
  shows "advance_inv wm0 vs (wm', ts[i := t])"
proof -
  have "map advance_version (ts[i := t]) = map advance_version ts"
    using assms(2,3) by (simp add: map_update list_update_same_conv)
  moreover have "thread_ok wm' u" if "u \<in> set (ts[i := t])" for u
    using that set_update_subset_insert[of ts i t] assms(1,4,6) by (auto simp: advance_inv_def intro: thread_ok_mono)
  ultimately show ?thesis using assms(1,4,5) by (auto simp: advance_inv_def)
qed

lemma advance_inv_step: "advance_step s s' \<Longrightarrow> advance_inv wm0 vs s \<Longrightarrow> advance_inv wm0 vs s'"
proof (induction rule: advance_step.induct)
  case (cas_ok i ts v wm)
  have mem: "Loaded v wm \<in> set ts" using cas_ok(1,2) by (metis nth_mem)
  then have "wm < v" using cas_ok.prems by (auto simp: advance_inv_def)
  moreover have "advance_version (Loaded v wm) \<in> set (map advance_version ts)"
    unfolding set_map using mem by (rule imageI)
  then have "v \<in> set vs" using cas_ok.prems by (auto simp: advance_inv_def)
  ultimately show ?case using cas_ok by (intro advance_inv_update[of wm0 vs wm ts]) auto
qed (rule advance_inv_update; auto)+

lemma advance_inv_reach: "advance_step\<^sup>*\<^sup>* s s' \<Longrightarrow> advance_inv wm0 vs s \<Longrightarrow> advance_inv wm0 vs s'"
  by (induction rule: rtranclp_induct) (auto intro: advance_inv_step)

section \<open>Facts about the cache\<close>

lemma bt_floor_self: "bt_wf m \<Longrightarrow> map_of m k = Some v \<Longrightarrow> bt_floor m k = Some (k, v)"
proof (induction m)
  case (Cons kv m)
  show ?case
  proof (cases "fst kv = k")
    case True
    then have "filter (\<lambda>kv. fst kv \<le> k) m = []" using Cons.prems(1) by (force simp: filter_empty_conv)
    then show ?thesis using True Cons.prems(2) by (auto simp: bt_floor_def)
  next
    case False
    then have "map_of m k = Some v" using Cons.prems(2) by (cases kv) auto
    with Cons have f: "bt_floor m k = Some (k, v)" by simp
    then have "filter (\<lambda>kv. fst kv \<le> k) m \<noteq> []" by (auto simp: bt_floor_def Let_def split: if_splits)
    with f show ?thesis by (simp add: bt_floor_def Let_def)
  qed
qed simp

lemma get_extent_mapping_set:
  "get_extent_mapping fmt (set_extent_mapping fmt v b m c) v' b' =
     (if fmt v' = fmt v \<and> b' = b \<and> cache_get_volume fmt c v \<noteq> None then Some m else get_extent_mapping fmt c v' b')"
  by (auto simp: get_extent_mapping_def set_extent_mapping_def cache_get_volume_def split: option.split)

lemma set_extent_mapping_frame [simp]:
  "mc_epoch (set_extent_mapping fmt v b m c) = mc_epoch c"
  "mc_cluster_map (set_extent_mapping fmt v b m c) = mc_cluster_map c"
  by (auto simp: set_extent_mapping_def split: option.split)

lemma cache_get_volume_set:
  "cache_get_volume fmt (set_extent_mapping fmt v b m c) v' = None \<longleftrightarrow> cache_get_volume fmt c v' = None"
  by (auto simp: set_extent_mapping_def cache_get_volume_def split: option.split)

lemma get_extent_mapping_set_epoch [simp]:
  "get_extent_mapping fmt (cache_set_epoch e c) = get_extent_mapping fmt c"
  by (intro ext) (simp add: get_extent_mapping_def cache_set_epoch_def)

lemma fold_put_blocks:
  assumes "bt_wf m"
  shows "bt_wf (fold (\<lambda>b. bt_insert b (f b)) bs m)"
    and "map_of (fold (\<lambda>b. bt_insert b (f b)) bs m) b = (if b \<in> set bs then Some (f b) else map_of m b)"
  using assms by (induction bs arbitrary: m) auto

lemma unat_ucast_u32: "unat (ucast (w::u32) :: u64) = unat w"
  using unat_lt_power[of w] by (simp add: unsigned_ucast_eq take_bit_nat_eq_self)

lemma set_range_blocks: "b \<in> set (range_blocks r) \<longleftrightarrow> fst r \<le> b \<and> b < snd r"
proof
  assume "b \<in> set (range_blocks r)"
  then obtain i where i: "i < unat (snd r) - unat (fst r)" "b = fst r + of_nat i" by (auto simp: range_blocks_def)
  then have "unat b = unat (fst r) + i"
    using unat_lt_power[of "snd r"] by (simp add: unat_word_ariths unat_of_nat)
  with i show "fst r \<le> b \<and> b < snd r" by (simp add: word_le_nat_alt word_less_nat_alt)
next
  assume a: "fst r \<le> b \<and> b < snd r"
  then have "b = fst r + of_nat (unat b - unat (fst r))" by (simp add: of_nat_diff word_le_nat_alt)
  moreover have "unat b - unat (fst r) < unat (snd r) - unat (fst r)" using a by (simp add: word_le_nat_alt word_less_nat_alt diff_less_mono)
  ultimately show "b \<in> set (range_blocks r)" by (auto simp: range_blocks_def)
qed

lemma recover_operations_Cons:
  assumes "recover_operations fmt lookup v (op # ops) c = (Inr (n, u), c')"
  obtains (uncommitted) u1 where "lookup op = Inr None" "u = Suc u1" "recover_operations fmt lookup v ops c = (Inr (n, u1), c')"
  | (committed) m n1 where "lookup op = Inr (Some m)" "n = Suc n1"
      "recover_operations fmt lookup v ops (set_extent_mapping fmt v (fst (ct_block_range m)) (recovered_mapping m) c) = (Inr (n1, u), c')"
  using assms by (auto split: sum.splits option.splits prod.splits)

lemma recover_operations_counts:
  assumes "recover_operations fmt lookup v ops c = (Inr (n, u), c')"
  shows "n + u = length ops \<and> mc_epoch c' = mc_epoch c \<and>
    n = length (filter (\<lambda>op. \<exists>m. lookup op = Inr (Some m)) ops)"
  using assms
proof (induction ops arbitrary: c n u)
  case (Cons op ops)
  from Cons.prems show ?case
  proof (cases rule: recover_operations_Cons)
    case (uncommitted u1)
    then show ?thesis using Cons.IH[OF uncommitted(3)] by simp
  next
    case (committed m n1)
    then show ?thesis using Cons.IH[OF committed(3)] by simp
  qed
qed simp

definition committed_mappings :: "operation_lookup \<Rightarrow> OperationId list \<Rightarrow> CommittedMapping list" where
  "committed_mappings lookup ops = List.map_filter (\<lambda>op. case lookup op of Inr m \<Rightarrow> m | Inl _ \<Rightarrow> None) ops"

lemma recover_operations_visible:
  assumes "recover_operations fmt lookup v ops c = (Inr (n, u), c')"
  shows "get_extent_mapping fmt c' v' b =
    (case find (\<lambda>cm. fst (ct_block_range cm) = b) (rev (committed_mappings lookup ops)) of
       Some cm \<Rightarrow> if fmt v' = fmt v \<and> cache_get_volume fmt c v \<noteq> None then Some (recovered_mapping cm)
                  else get_extent_mapping fmt c v' b
     | None \<Rightarrow> get_extent_mapping fmt c v' b)"
  using assms
proof (induction ops arbitrary: c n u)
  case Nil
  then show ?case by (simp add: committed_mappings_def List.map_filter_simps)
next
  case (Cons op ops)
  have later: "find P (xs @ [x]) = (case find P xs of Some y \<Rightarrow> Some y | None \<Rightarrow> if P x then Some x else None)"
    for P xs and x :: CommittedMapping
    by (induction xs) auto
  from Cons.prems show ?case
  proof (cases rule: recover_operations_Cons)
    case (uncommitted u1)
    then show ?thesis using Cons.IH[OF uncommitted(3)] by (simp add: committed_mappings_def List.map_filter_simps)
  next
    case (committed m n1)
    have kept: "cache_get_volume fmt (set_extent_mapping fmt v b1 m1 c) v \<noteq> None \<longleftrightarrow> cache_get_volume fmt c v \<noteq> None" for b1 m1
      by (auto simp: cache_get_volume_def set_extent_mapping_def split: option.split)
    have "committed_mappings lookup (op # ops) = m # committed_mappings lookup ops"
      using committed(1) by (simp add: committed_mappings_def List.map_filter_simps)
    then show ?thesis
      unfolding Cons.IH[OF committed(3)] kept get_extent_mapping_set
      by (auto simp: later split: option.split)
  qed
qed

section \<open>Properties\<close>

text \<open>
  C35: Concurrent watermark updates compute the maximum: however the load and compare-and-swap steps
  of any number of callers interleave, the watermark never falls below its start, is at least the
  version of every call that has returned, and equals the largest version once all have returned.
\<close>

theorem watermark_concurrent_max:
  assumes "advance_step\<^sup>*\<^sup>* (wm0, map Loop vs) (wm, ts)"
  shows "wm0 \<le> wm \<and> (\<forall>v b. Returned v b \<in> set ts \<longrightarrow> v \<le> wm) \<and>
    ((\<forall>t \<in> set ts. \<exists>v b. t = Returned v b) \<longrightarrow> wm = Max (insert wm0 (set vs)))"
proof -
  have "advance_inv wm0 vs (wm, ts)" by (rule advance_inv_reach[OF assms advance_inv_init])
  then have i: "map advance_version ts = vs" "wm0 \<le> wm" "wm \<in> insert wm0 (set vs)" "\<And>t. t \<in> set ts \<Longrightarrow> thread_ok wm t"
    by (simp_all add: advance_inv_def)
  have ret: "v \<le> wm" if "Returned v b \<in> set ts" for v b using i(4)[OF that] by simp
  have "wm = Max (insert wm0 (set vs))" if all: "\<forall>t \<in> set ts. \<exists>v b. t = Returned v b"
  proof (rule Max_eqI[symmetric])
    fix v assume "v \<in> insert wm0 (set vs)"
    then consider "v = wm0" | t where "t \<in> set ts" "v = advance_version t" unfolding i(1)[symmetric] by auto
    then show "v \<le> wm" using i(2) all ret by cases fastforce+
  qed (use i(3) in simp_all)
  then show ?thesis using i(2) ret by simp
qed

text \<open>
  C36: Crash recovery makes exactly the committed in-flight operations visible. After a successful
  recovery of a volume that is cached, the mapping at a start block is that of the last in-flight
  operation, in the order given, that the metadata service reports as committed with that start
  block, and what it was before at every other block; no other volume's mappings change, and none at
  all when the volume is not cached. The counts are those of the committed and of the other in-flight
  operations, the cache is at the recovered epoch and the watermark has advanced to at least it.
\<close>

theorem recovery_shows_committed_only:
  assumes "client_recover fmt current lookup v ops (c, wm) = (Inr res, c', wm')"
  shows "rc_committed_operations res = length (committed_mappings lookup ops) \<and>
    rc_committed_operations res + rc_uncommitted_operations res = length ops \<and>
    current = Inr (mc_epoch c') \<and> wm \<le> wm' \<and> mc_epoch c' \<le> wm' \<and>
    (\<forall>v' b. get_extent_mapping fmt c' v' b =
       (case find (\<lambda>cm. fst (ct_block_range cm) = b) (rev (committed_mappings lookup ops)) of
          Some cm \<Rightarrow> if fmt v' = fmt v \<and> cache_get_volume fmt c v \<noteq> None then Some (recovered_mapping cm)
                     else get_extent_mapping fmt c v' b
        | None \<Rightarrow> get_extent_mapping fmt c v' b))"
proof -
  from assms obtain epoch n u where cur: "current = Inr epoch"
    and rec: "recover_operations fmt lookup v ops (cache_set_epoch epoch c) = (Inr (n, u), c')"
    and res: "res = \<lparr> rc_recovered_epoch = epoch, rc_committed_operations = n, rc_uncommitted_operations = u \<rparr>"
    and wm': "wm' = snd (advance_to epoch wm)"
    by (auto simp: client_recover_def split: sum.splits prod.splits)
  have "wm \<le> wm'" "epoch \<le> wm'" by (auto simp: wm' advance_to_def)
  moreover have "n + u = length ops" "mc_epoch c' = epoch" "n = length (filter (\<lambda>op. \<exists>m. lookup op = Inr (Some m)) ops)"
    using recover_operations_counts[OF rec] by (simp_all add: cache_set_epoch_def)
  moreover have "length (filter (\<lambda>op. \<exists>m. lookup op = Inr (Some m)) ops) = length (committed_mappings lookup ops)"
    by (induction ops) (auto simp: committed_mappings_def List.map_filter_simps split: sum.split option.split)
  moreover have vol: "cache_get_volume fmt (cache_set_epoch epoch c) v = cache_get_volume fmt c v"
    by (simp add: cache_get_volume_def cache_set_epoch_def)
  ultimately show ?thesis
    using recover_operations_visible[OF rec, unfolded get_extent_mapping_set_epoch vol] by (simp add: res cur)
qed

text \<open>
  A mapping restored by ambiguous-write resolution has no size and therefore covers every later
  block: after a committed resolution at some block, looking up any later block of the volume that
  has no cached mapping in between finds the restored extent, also when that block was never written.
\<close>

theorem resolved_write_shadows_later_blocks:
  assumes "lookup op = Inr (Some m)" "cache_get_volume fmt c v = Some vol" "bt_wf (cv_extent_mappings vol)"
    and "fst (ct_block_range m) \<le> b" "\<And>k. k \<in> fst ` set (cv_extent_mappings vol) \<Longrightarrow> k \<le> fst (ct_block_range m) \<or> b < k"
    and "resolve fmt lookup v op (c, wm) = (r, c', wm')"
  shows "find_extent_for_range fmt c' v (b, e) = Some (fst (ct_block_range m), recovered_mapping m)"
proof -
  let ?s = "fst (ct_block_range m)" and ?m = "bt_insert (fst (ct_block_range m)) (recovered_mapping m) (cv_extent_mappings vol)"
  have c': "c' = set_extent_mapping fmt v ?s (recovered_mapping m) c" using assms(1,6) by (auto simp: resolve_def)
  have "fst kv \<le> b \<longleftrightarrow> fst kv \<le> ?s" if "kv \<in> set ?m" for kv
  proof -
    have "fst kv \<in> insert ?s (fst ` set (cv_extent_mappings vol))"
      using imageI[OF that, of fst] by (simp only: set_keys_insert)
    then consider "fst kv = ?s" | "fst kv \<in> fst ` set (cv_extent_mappings vol)" by blast
    then show ?thesis
    proof cases
      case 2
      from assms(5)[OF this] assms(4) show ?thesis by auto
    qed (use assms(4) in simp)
  qed
  then have "filter (\<lambda>kv. fst kv \<le> b) ?m = filter (\<lambda>kv. fst kv \<le> ?s) ?m" by (rule filter_cong[OF refl])
  then have "bt_floor ?m b = bt_floor ?m ?s" by (simp add: bt_floor_def)
  also have "\<dots> = Some (?s, recovered_mapping m)" using assms(3) by (intro bt_floor_self) auto
  finally show ?thesis using assms(2)
    by (simp add: find_extent_for_range_def c' set_extent_mapping_def cache_get_volume_def recovered_mapping_def)
qed

text \<open>
  Cached ranges read back block by block: after a range of blocks is cached for a known volume
  with its own block size, looking up any block of the range finds its own entry with the extent of
  the range and the byte offset of the block in it, and blocks outside keep their entries.
\<close>

theorem cached_range_roundtrip:
  assumes "cache_get_volume fmt c v = Some vol" "bt_wf (cv_extent_mappings vol)" "0 < cv_block_size vol"
    and "c' = set_extent_mapping_range fmt v r (ucast (cv_block_size vol)) base c"
  shows "(fst r \<le> b \<and> b < snd r \<longrightarrow>
      find_extent_for_range fmt c' v (b, e) =
        Some (b, base\<lparr> cm_size_bytes := ucast (cv_block_size vol), cm_extent_offset := (b - fst r) * ucast (cv_block_size vol) \<rparr>)) \<and>
    (\<not> (fst r \<le> b \<and> b < snd r) \<longrightarrow> get_extent_mapping fmt c' v b = get_extent_mapping fmt c v b)"
proof -
  let ?bs = "ucast (cv_block_size vol) :: u64"
  define f where "f b = base\<lparr> cm_size_bytes := ?bs, cm_extent_offset := (b - fst r) * ?bs \<rparr>" for b
  define m where "m = fold (\<lambda>b. bt_insert b (f b)) (range_blocks r) (cv_extent_mappings vol)"
  have c': "c' = c\<lparr> mc_volumes := bt_insert (fmt v) (vol\<lparr> cv_extent_mappings := m \<rparr>) (mc_volumes c) \<rparr>"
    using assms(1) by (simp add: assms(4) set_extent_mapping_range_def cache_get_volume_def m_def f_def Let_def)
  have get: "map_of m b = (if fst r \<le> b \<and> b < snd r then Some (f b) else map_of (cv_extent_mappings vol) b)" for b
    unfolding m_def fold_put_blocks(2)[OF assms(2)] set_range_blocks ..
  have wf: "bt_wf m" unfolding m_def by (rule fold_put_blocks(1)[OF assms(2)])
  have "find_extent_for_range fmt c' v (b, e) = Some (b, f b)" if inr: "fst r \<le> b \<and> b < snd r"
  proof -
    have "unat (cv_block_size vol) > 0" using assms(3) by (simp add: unat_gt_0)
    then have one: "div_ceil (unat ?bs) (unat (max (cv_block_size vol) 1)) = 1"
      by (auto simp: div_ceil_def max_def unat_ucast_u32 word_le_nat_alt)
    have "b < b + 1" using inr by (metis less_succ_word max_word_max word_le_less_eq linorder_not_less word_n1_ge)
    then show ?thesis
      using bt_floor_self[OF wf, of b "f b"] inr one by (simp add: find_extent_for_range_def c' get f_def not_le)
  qed
  moreover have "get_extent_mapping fmt c' v b = get_extent_mapping fmt c v b" if "\<not> (fst r \<le> b \<and> b < snd r)"
    using that assms(1) by (auto simp add: get_extent_mapping_def c' get cache_get_volume_def)
  ultimately show ?thesis by (simp add: f_def)
qed

text \<open>
  A lease is lost only by a refusal: when renewals have succeeded and the next one fails because
  the metadata service cannot be reached, the renewal task stops for good and the lease stays active,
  so writes remain allowed whatever happens afterwards; a refused renewal stops writes.
\<close>

theorem unreachable_renewal_keeps_writing:
  assumes "lm_state lm = LsActive" "lm_lease_version lm = Some ver" "\<And>a. a \<in> set good \<Longrightarrow> \<exists>v x. a = Inr (Renewed v x)"
  shows "(\<exists>lm' v. renewal_task fmt dbg (good @ Inl e # later) lm = (True, lm') \<and> check_write_allowed lm' = Inr v) \<and>
    (\<exists>lm' msg. renewal_task fmt dbg (good @ Inr (Denied d) # later) lm = (True, lm') \<and> check_write_allowed lm' = Inl msg)"
  using assms
proof (induction good arbitrary: lm ver)
  case Nil
  then show ?case by (simp add: lease_renew_def check_write_allowed_def mark_lost_def)
next
  case (Cons a good)
  from Cons.prems(3)[of a] obtain v x where a: "a = Inr (Renewed v x)" by auto
  show ?case
    using Cons.IH[of "lm\<lparr> lm_lease_version := Some v, lm_expires_at_ms := Some x \<rparr>" v] Cons.prems
    by (simp add: a lease_renew_def)
qed

definition trailing_failures :: "(EpochId, Error) result list \<Rightarrow> nat" where
  "trailing_failures answers = length (takeWhile isl (rev answers))"

lemma trailing_failures_snoc:
  "trailing_failures (as @ [a]) = (if isl a then Suc (trailing_failures as) else 0)"
  by (simp add: trailing_failures_def)

lemma trailing_failures_le: "trailing_failures as \<le> length as"
  by (metis length_rev length_takeWhile_le trailing_failures_def)

text \<open>
  The quorum monitor counts consecutive failures: after any shorter-than-wrapping sequence of
  health checks, writes are blocked exactly when the failures since the last success have reached
  the threshold, the status says so too, and a single success always unblocks.
\<close>

theorem quorum_monitor_counts:
  assumes "0 < threshold" "length answers < 2 ^ 64"
    and "m = fold (\<lambda>a m. snd (health_check a m)) answers (monitor_new policy threshold)"
  shows "(qm_writes_blocked m \<longleftrightarrow> unat threshold \<le> trailing_failures answers) \<and>
    qm_status m = (if trailing_failures answers = 0 then QsHealthy
                   else if unat threshold \<le> trailing_failures answers then QsUnavailable else QsDegraded) \<and>
    unat (qm_consecutive_failures m) = trailing_failures answers \<and>
    qm_failure_threshold m = threshold \<and> qm_read_policy m = policy"
  using assms(2,3)
proof (induction answers arbitrary: m rule: rev_induct)
  case Nil
  then show ?case using assms(1) by (simp add: trailing_failures_def monitor_new_def unat_gt_0 not_le)
next
  case (snoc a as)
  let ?m = "fold (\<lambda>a m. snd (health_check a m)) as (monitor_new policy threshold)"
  from snoc.IH[of ?m] snoc.prems(1)
  have ih: "qm_writes_blocked ?m \<longleftrightarrow> unat threshold \<le> trailing_failures as"
    "qm_status ?m = (if trailing_failures as = 0 then QsHealthy
                   else if unat threshold \<le> trailing_failures as then QsUnavailable else QsDegraded)"
    "unat (qm_consecutive_failures ?m) = trailing_failures as"
    "qm_failure_threshold ?m = threshold" "qm_read_policy ?m = policy" by auto
  have m: "m = snd (health_check a ?m)" using snoc.prems(2) by simp
  show ?case
  proof (cases a)
    case (Inr e)
    then show ?thesis using ih(4,5) assms(1)
      by (simp add: m health_check_def record_success_def trailing_failures_snoc unat_gt_0 not_le)
  next
    case (Inl e)
    have "trailing_failures as + 1 < 2 ^ 64" using trailing_failures_le[of as] snoc.prems(1) by simp
    then have u: "unat (qm_consecutive_failures ?m + 1) = Suc (trailing_failures as)"
      using ih(3) by (simp add: unat_word_ariths)
    show ?thesis
      using ih u by (auto simp: m Inl health_check_def record_failure_def trailing_failures_snoc Let_def word_le_nat_alt)
  qed
qed

text \<open>
  A batch commit answers every waiter once, in order and with the outcome of the whole batch: on
  success all cache updates are applied and the watermark covers the epoch, on failure the cache and
  the watermark are unchanged; nothing stays pending.
\<close>

theorem batch_flush_answers_all:
  assumes "batch_flush fmt commit show_error (pending, c, wm) = (answers, pending', c', wm')"
  shows "map fst answers = map pc_result_tx pending \<and> pending' = [] \<and> wm \<le> wm' \<and>
    (pending \<noteq> [] \<longrightarrow>
      (case commit (map pc_request pending) of
         Inr epoch \<Rightarrow> set (map snd answers) = {Inr epoch} \<and> epoch \<le> wm' \<and>
           c' = fold (apply_cache_update fmt) (map pc_cache_update pending) c
       | Inl e \<Rightarrow> set (map snd answers) = {Inl (Raft (show_error e))} \<and> c' = c \<and> wm' = wm))"
  using assms
  by (cases "pending = []"; cases "commit (map pc_request pending)")
     (auto simp: batch_flush_def advance_to_def comp_def image_image image_constant_conv)

section \<open>Concrete instances\<close>

lemma demo_interleaving:
  "advance_step\<^sup>*\<^sup>* (1, map Loop [5, 3]) (5, [Returned 5 True, Returned 3 False])"
proof -
  have "advance_step (1, [Loop 5, Loop 3]) (1, [Loop 5, Loop 3][1 := Loaded 3 1])" by (rule load) (simp_all add: word_le_nat_alt)
  moreover have "advance_step (1, [Loop 5, Loaded 3 1]) (1, [Loop 5, Loaded 3 1][0 := Loaded 5 1])" by (rule load) (simp_all add: word_le_nat_alt)
  moreover have "advance_step (1, [Loaded 5 1, Loaded 3 1]) (5, [Loaded 5 1, Loaded 3 1][0 := Returned 5 True])" by (rule cas_ok) simp_all
  moreover have "advance_step (5, [Returned 5 True, Loaded 3 1]) (5, [Returned 5 True, Loaded 3 1][1 := Loop 3])" by (rule cas_fail) simp_all
  moreover have "advance_step (5, [Returned 5 True, Loop 3]) (5, [Returned 5 True, Loop 3][1 := Returned 3 False])" by (rule load_small) (simp_all add: word_le_nat_alt)
  ultimately show ?thesis by (simp add: converse_rtranclp_into_rtranclp)
qed

theorem watermark_concurrent_max_witness: "(5 :: u64) = Max (insert 1 (set [5, 3]))"
  using watermark_concurrent_max[OF demo_interleaving] by simp

definition demo_mapping :: CommittedMapping where
  "demo_mapping = \<lparr> ct_extent_id = 6, ct_extent_version = 1, ct_epoch = 4, ct_block_range = (10, 12),
     ct_replica_locations = [1], ct_checksums = [] \<rparr>"

definition demo_lookup :: operation_lookup where
  "demo_lookup op = (if op = 1 then Inr (Some demo_mapping) else Inr None)"

definition demo_cached_volume :: CachedVolumeInfo where
  "demo_cached_volume = \<lparr> cv_volume_id = 3, cv_size_bytes = 1000, cv_block_size = 16, cv_protection = Replicated 1, cv_extent_mappings = [] \<rparr>"

definition demo_cache :: MetadataCache where
  "demo_cache = \<lparr> mc_epoch = 2, mc_cluster_map = [], mc_volumes = [(unary_text 3, demo_cached_volume)] \<rparr>"

theorem recovery_shows_committed_only_witness:
  "\<exists>res c' wm'. client_recover unary_text (Inr 4) demo_lookup 3 [1, 2] (demo_cache, 0) = (Inr res, c', wm') \<and>
     rc_committed_operations res = 1 \<and> mc_epoch c' = 4 \<and> 4 \<le> wm' \<and>
     get_extent_mapping unary_text c' 3 (fst (ct_block_range demo_mapping)) = Some (recovered_mapping demo_mapping)"
proof -
  obtain res c' wm' where r: "client_recover unary_text (Inr 4) demo_lookup 3 [1, 2] (demo_cache, 0) = (Inr res, c', wm')"
    by (simp add: client_recover_def demo_lookup_def)
  have "committed_mappings demo_lookup [1, 2] = [demo_mapping]" "cache_get_volume unary_text demo_cache 3 \<noteq> None"
    by (simp_all add: committed_mappings_def demo_lookup_def List.map_filter_simps cache_get_volume_def demo_cache_def)
  with recovery_shows_committed_only[OF r] r show ?thesis by auto
qed

theorem resolved_write_shadows_later_blocks_witness:
  "\<exists>r c' wm'. resolve unary_text demo_lookup 3 1 (demo_cache, 0) = (r, c', wm') \<and>
     find_extent_for_range unary_text c' 3 (500, 501) = Some (10, recovered_mapping demo_mapping)"
proof -
  obtain r c' wm' where r: "resolve unary_text demo_lookup 3 1 (demo_cache, 0) = (r, c', wm')" using prod_cases3 by blast
  have "find_extent_for_range unary_text c' 3 (500, 501) = Some (fst (ct_block_range demo_mapping), recovered_mapping demo_mapping)"
    by (rule resolved_write_shadows_later_blocks[OF _ _ _ _ _ r, where vol = demo_cached_volume])
       (simp_all add: demo_lookup_def demo_cache_def cache_get_volume_def demo_cached_volume_def demo_mapping_def)
  with r show ?thesis by (simp add: demo_mapping_def)
qed

theorem cached_range_roundtrip_witness:
  "find_extent_for_range unary_text (set_extent_mapping_range unary_text 3 (4, 7) (ucast (cv_block_size demo_cached_volume)) (recovered_mapping demo_mapping) demo_cache) 3 (6, 7)
     = Some (6, (recovered_mapping demo_mapping)\<lparr> cm_size_bytes := 16, cm_extent_offset := 32 \<rparr>)"
proof -
  have "cache_get_volume unary_text demo_cache 3 = Some demo_cached_volume" by (simp add: cache_get_volume_def demo_cache_def)
  from cached_range_roundtrip[OF this _ _ refl, where r = "(4, 7)" and base = "recovered_mapping demo_mapping" and b = 6 and e = 7] show ?thesis
    by (simp add: demo_cached_volume_def)
qed

theorem unreachable_renewal_keeps_writing_witness:
  "\<exists>lm' v. renewal_task unary_text (\<lambda>_. []) [Inr (Renewed 3 90), Inl (Network ''unreachable'')]
      \<lparr> lm_state = LsActive, lm_lease_version = Some 2, lm_expires_at_ms = Some 60 \<rparr> = (True, lm') \<and> check_write_allowed lm' = Inr v"
  using unreachable_renewal_keeps_writing[of "\<lparr> lm_state = LsActive, lm_lease_version = Some 2, lm_expires_at_ms = Some 60 \<rparr>"
      2 "[Inr (Renewed 3 90)]" unary_text "\<lambda>_. []" "Network ''unreachable''" "[]"]
  by auto

theorem quorum_monitor_counts_witness:
  "qm_writes_blocked (fold (\<lambda>a m. snd (health_check a m)) [Inr 1, Inl (Network []), Inl (Network []), Inl (Network [])] (monitor_new BlockAllReads 3))"
  using quorum_monitor_counts[of 3 "[Inr 1, Inl (Network []), Inl (Network []), Inl (Network [])]" _ BlockAllReads, OF _ _ refl]
  by (simp add: trailing_failures_def)

theorem batch_flush_answers_all_witness:
  "\<exists>answers pending' c' wm'. batch_flush unary_text (\<lambda>_. Inl (Raft ''no quorum'')) (\<lambda>_. ''no quorum'')
       ([\<lparr> pc_request = \<lparr> cq_volume_id = 3, cq_block_range = (0, 1), cq_extent_id = 6, cq_extent_version = 1, cq_epoch = 2,
             cq_replica_locations = [], cq_checksums = [], cq_operation_id = None, cq_previous_version = None \<rparr>,
          pc_result_tx = 9, pc_cache_update = \<lparr> cu_volume_id = 3, cu_block_start = 0, cu_block_range = None, cu_block_size = 16,
             cu_mapping = recovered_mapping demo_mapping \<rparr> \<rparr>], demo_cache, 0) = (answers, pending', c', wm') \<and>
     map fst answers = [9] \<and> c' = demo_cache"
  (is "\<exists>answers pending' c' wm'. ?run = (answers, pending', c', wm') \<and> _")
proof -
  obtain answers pending' c' wm' where r: "?run = (answers, pending', c', wm')" by (metis prod_cases4)
  from batch_flush_answers_all[OF r] r show ?thesis by auto
qed

end
