(* ===== verification/Placement.thy ===== *)
theory Placement
  imports Auth
begin

text \<open>
  Where data goes. The deterministic placement of extents on nodes by rendezvous hashing
  (\<^verbatim>\<open>blockyard-common/src/placement.rs\<close>), used by both the write and the read path of the client, and the
  placement engine that assigns the extents of a volume to disks (\<^verbatim>\<open>blockyard-storage/src/placement.rs\<close>).
  The digest (blake3), the iteration order of hash maps and generated ids are arguments.
\<close>

section \<open>Deterministic placement\<close>

definition uuid_bytes :: "uuid \<Rightarrow> bytes" where
  "uuid_bytes u = map (\<lambda>i. ucast (drop_bit (8 * (15 - i)) u)) [0..<16]"

definition uuid_from_bytes :: "bytes \<Rightarrow> uuid" where
  "uuid_from_bytes bs = word_rcat bs"

definition u64_from_le_bytes :: "bytes \<Rightarrow> u64" where
  "u64_from_le_bytes bs = word_rcat (rev bs)"

text \<open>\<^verbatim>\<open>h\<close> is the 32-byte digest (blake3) of the concatenated updates.\<close>

definition extent_id_for_extent :: "(bytes \<Rightarrow> bytes) \<Rightarrow> VolumeId \<Rightarrow> u64 \<Rightarrow> ExtentId" where
  "extent_id_for_extent h volume_id extent_num =
     uuid_from_bytes (take 16 (h (str_bytes ''blockyard.extent.v1'' @ uuid_bytes volume_id @ u64_le_bytes extent_num)))"

definition block_to_extent :: "u64 \<Rightarrow> u64 \<Rightarrow> u64 \<times> u64" where
  "block_to_extent block_num extent_blocks =
     (let eb = max extent_blocks 1 in (block_num div eb, block_num mod eb))"

definition extent_version :: u64 where
  "extent_version = 1"

definition placement_score :: "(bytes \<Rightarrow> bytes) \<Rightarrow> VolumeId \<Rightarrow> u64 \<Rightarrow> NodeId \<Rightarrow> u64" where
  "placement_score h volume_id block_num node_id =
     u64_from_le_bytes (take 8 (h (str_bytes ''blockyard.placement.v1'' @ uuid_bytes volume_id @
       u64_le_bytes block_num @ uuid_bytes node_id)))"

definition select_nodes :: "(bytes \<Rightarrow> bytes) \<Rightarrow> VolumeId \<Rightarrow> u64 \<Rightarrow> NodeId list \<Rightarrow> nat \<Rightarrow> NodeId list" where
  "select_nodes h volume_id block_num available_nodes cnt =
     (if length available_nodes \<le> cnt then available_nodes
      else take cnt (sort_key (placement_score h volume_id block_num) available_nodes))"

text \<open>The two chunk counts are added as bytes.\<close>

definition select_ec_nodes :: "(bytes \<Rightarrow> bytes) \<Rightarrow> VolumeId \<Rightarrow> u64 \<Rightarrow> NodeId list \<Rightarrow> u8 \<Rightarrow> u8 \<Rightarrow> NodeId list" where
  "select_ec_nodes h volume_id block_num available_nodes k m =
     select_nodes h volume_id block_num available_nodes (unat (k + m))"

lemma length_select_nodes: "length (select_nodes h v b ns c) = min c (length ns)"
  by (auto simp: select_nodes_def)

lemma set_select_nodes: "set (select_nodes h v b ns c) \<subseteq> set ns"
  using set_take_subset[of c "sort_key (placement_score h v b) ns"] by (auto simp: select_nodes_def)

lemma distinct_select_nodes: "distinct ns \<Longrightarrow> distinct (select_nodes h v b ns c)"
  by (simp add: select_nodes_def distinct_sort distinct_take)

lemma select_nodes_Nil_iff: "select_nodes h v b ns c = [] \<longleftrightarrow> ns = [] \<or> c = 0"
proof -
  have "select_nodes h v b ns c = [] \<longleftrightarrow> min c (length ns) = 0"
    by (simp flip: length_select_nodes[of h v b ns c] del: min_0L)
  then show ?thesis by (auto simp: min_def split: if_splits)
qed

lemma block_to_extent_inverse:
  assumes "block_to_extent b eb = (e, off)" "eb \<noteq> 0"
  shows "unat b = unat e * unat eb + unat off" "unat off < unat eb"
proof -
  have "unat eb \<ge> 1" using assms(2) by (simp add: Suc_le_eq unat_gt_0)
  then have "max eb 1 = eb" by (simp add: max_def word_le_nat_alt word_unat_eq_iff)
  with assms have e: "e = b div eb" "off = b mod eb" by (auto simp: block_to_extent_def Let_def)
  show "unat b = unat e * unat eb + unat off" by (simp add: e unat_div unat_mod)
  show "unat off < unat eb" using assms(2) by (simp add: e unat_mod unat_gt_0)
qed

lemma take_filter_neq:
  assumes "distinct xs"
  shows "take c (filter (\<lambda>x. x \<noteq> n) xs) =
    (if n \<in> set (take c xs) then filter (\<lambda>x. x \<noteq> n) (take (Suc c) xs) else take c xs)"
  using assms
proof (induction xs arbitrary: c)
  case (Cons x xs)
  show ?case
  proof (cases c)
    case (Suc c')
    show ?thesis
    proof (cases "x = n")
      case True
      then have "n \<notin> set xs" using Cons.prems by auto
      then have "filter (\<lambda>y. y \<noteq> n) xs = xs" "filter (\<lambda>y. y \<noteq> n) (take c xs) = take c xs"
        using in_set_takeD by (fastforce simp: filter_id_conv)+
      then show ?thesis using True Suc by simp
    next
      case False
      then show ?thesis using Cons.IH[of c'] Cons.prems Suc by simp
    qed
  qed simp
qed simp

text \<open>
  C32: Rendezvous placement moves as little as possible. Selecting from distinct nodes gives distinct
  members of the list, as many as asked for or all of them when there are fewer. When a node leaves,
  the other nodes of a placement stay in it; a placement without the node keeps the same set of nodes,
  and, when at least two more nodes than asked for were there before, also their order.
\<close>

theorem select_nodes_rendezvous:
  assumes "distinct ns" "n \<in> set ns"
  shows "distinct (select_nodes h v b ns cnt) \<and> set (select_nodes h v b ns cnt) \<subseteq> set ns \<and>
    length (select_nodes h v b ns cnt) = min cnt (length ns) \<and>
    set (select_nodes h v b ns cnt) - {n} \<subseteq> set (select_nodes h v b (filter (\<lambda>x. x \<noteq> n) ns) cnt) \<and>
    (n \<notin> set (select_nodes h v b ns cnt) \<longrightarrow>
       set (select_nodes h v b (filter (\<lambda>x. x \<noteq> n) ns) cnt) = set (select_nodes h v b ns cnt) \<and>
       (cnt + 1 < length ns \<longrightarrow> select_nodes h v b (filter (\<lambda>x. x \<noteq> n) ns) cnt = select_nodes h v b ns cnt))"
proof -
  let ?s = "sort_key (placement_score h v b)" and ?rest = "filter (\<lambda>x. x \<noteq> n) ns" and ?sel = "select_nodes h v b ns cnt"
  have rest: "length ?rest = length ns - 1"
    using assms distinct_remove1_removeAll[OF assms(1), of n] length_remove1[of n ns]
    by (simp add: removeAll_filter_not_eq neq_commute[of _ n])
  note basic = distinct_select_nodes[OF assms(1), of h v b cnt] set_select_nodes[of h v b ns cnt]
  show ?thesis
  proof (cases "cnt + 1 < length ns")
    case True
    then have sel: "?sel = take cnt (?s ns)" "select_nodes h v b ?rest cnt = take cnt (filter (\<lambda>x. x \<noteq> n) (?s ns))"
      using rest by (auto simp add: select_nodes_def filter_sort)
    have "take cnt (filter (\<lambda>x. x \<noteq> n) (?s ns)) =
      (if n \<in> set (take cnt (?s ns)) then filter (\<lambda>x. x \<noteq> n) (take (Suc cnt) (?s ns)) else take cnt (?s ns))"
      using assms(1) by (intro take_filter_neq) (simp add: distinct_sort)
    moreover have "set (take cnt (?s ns)) \<subseteq> set (take (Suc cnt) (?s ns))" by (rule set_take_subset_set_take) simp
    ultimately show ?thesis
      using basic by (auto simp: sel(2) sel(1)[symmetric] length_select_nodes)
  next
    case False
    then have "length ?rest \<le> cnt" using rest by linarith
    then have all: "select_nodes h v b ?rest cnt = ?rest" by (simp only: select_nodes_def if_True)
    have "set ?sel = set ns - {n}" if out: "n \<notin> set ?sel"
    proof (rule card_subset_eq)
      show "set ?sel \<subseteq> set ns - {n}" using basic out by auto
      have "card (set ?sel) = min cnt (length ns)"
        using basic(1) by (simp add: distinct_card length_select_nodes)
      moreover have "card (set ?sel) \<le> card (set ns - {n})"
        using basic(2) out by (intro card_mono) auto
      moreover have "card (set ns - {n}) = length ns - 1"
        using assms by (simp add: distinct_card)
      ultimately show "card (set ?sel) = card (set ns - {n})" using False by linarith
    qed simp
    then show ?thesis using basic False by (auto simp: all length_select_nodes)
  qed
qed

section \<open>Placement of a volume's extents\<close>

record PlacementDisk =
  pd_disk_id :: DiskId
  pd_node_id :: NodeId
  pd_capacity_bytes :: u64
  pd_used_bytes :: u64
  pd_state :: DiskState

definition free_bytes :: "PlacementDisk \<Rightarrow> u64" where
  "free_bytes d = saturating_sub (pd_capacity_bytes d) (pd_used_bytes d)"

record ExtentPlacement =
  ep_extent_id :: ExtentId
  ep_primary_disk :: DiskId
  ep_replica_disks :: "DiskId list"
  ep_fragment_disks :: "DiskId list"

datatype PlacementError =
    InsufficientNodes nat nat
  | InsufficientDisks nat nat
  | NoHealthyDisks
  | InvalidPolicy Error

record PlacementVolumeInfo =
  pv_size_bytes :: u64
  pv_protection :: ProtectionPolicy
  pv_extent_size_bytes :: u64

text \<open>The disks of a node in the order the engine uses them: most free space first.\<close>

definition node_disks :: "PlacementDisk list \<Rightarrow> NodeId list \<Rightarrow> NodeId \<Rightarrow> PlacementDisk list" where
  "node_disks disks nodes nid =
     (if nid \<in> set nodes
      then sort_key (\<lambda>d. - int (unat (free_bytes d)))
             (filter (\<lambda>d. allows_allocation (pd_state d) \<and> pd_node_id d = nid) disks)
      else [])"

text \<open>\<^verbatim>\<open>order\<close> is the order in which the hash map of nodes with disks is iterated.\<close>

definition sorted_nodes :: "PlacementDisk list \<Rightarrow> NodeId list \<Rightarrow> NodeId list \<Rightarrow> NodeId list" where
  "sorted_nodes disks nodes order =
     sort_key (\<lambda>nid. - int (unat (sum_list (map free_bytes (node_disks disks nodes nid))))) order"

definition num_extents :: "PlacementVolumeInfo \<Rightarrow> nat option" where
  "num_extents volume =
     (if pv_size_bytes volume = 0 then Some 0
      else if pv_extent_size_bytes volume = 0 then None
      else Some (div_ceil (unat (pv_size_bytes volume)) (unat (pv_extent_size_bytes volume))))"

definition pick_disks :: "PlacementDisk list \<Rightarrow> NodeId list \<Rightarrow> NodeId list \<Rightarrow> nat \<Rightarrow> nat \<Rightarrow> PlacementDisk list" where
  "pick_disks disks nodes ranked i cnt =
     map (\<lambda>j. let nid = ranked ! ((i mod length ranked + j) mod length ranked);
                  dl = node_disks disks nodes nid
              in dl ! ((i div length ranked) mod length dl)) [0..<cnt]"

fun place_extent :: "ProtectionPolicy \<Rightarrow> ExtentId \<Rightarrow> DiskId list \<Rightarrow> ExtentPlacement option" where
  "place_extent p x [] = None"
| "place_extent (Replicated n) x (d # ds) =
     Some \<lparr> ep_extent_id = x, ep_primary_disk = d, ep_replica_disks = ds, ep_fragment_disks = [] \<rparr>"
| "place_extent (ErasureCoded k m) x (d # ds) =
     Some \<lparr> ep_extent_id = x, ep_primary_disk = d, ep_replica_disks = [], ep_fragment_disks = d # ds \<rparr>"

text \<open>The number of copies the engine places: the sum of the chunk counts wraps as a byte.\<close>

fun placed_width :: "ProtectionPolicy \<Rightarrow> nat" where
  "placed_width (Replicated n) = unat n"
| "placed_width (ErasureCoded k m) = unat (k + m)"

fun all_some :: "'a option list \<Rightarrow> 'a list option" where
  "all_some [] = Some []"
| "all_some (None # xs) = None"
| "all_some (Some x # xs) = map_option ((#) x) (all_some xs)"

text \<open>
  \<^verbatim>\<open>gen\<close> gives the generated extent ids. \<^const>\<open>None\<close> is a panic: division by a zero extent size, and
  the first element of an empty list of fragments when the width wraps to zero.
\<close>

definition place_volume ::
  "(nat \<Rightarrow> ExtentId) \<Rightarrow> NodeId list \<Rightarrow> PlacementVolumeInfo \<Rightarrow> PlacementDisk list \<Rightarrow> NodeId list \<Rightarrow>
   (ExtentPlacement list, PlacementError) result option" where
  "place_volume gen order volume disks nodes =
     (case policy_validate (pv_protection volume) of
        Inl e \<Rightarrow> Some (Inl (InvalidPolicy e))
      | Inr _ \<Rightarrow>
          if \<not> list_ex (\<lambda>d. allows_allocation (pd_state d)) disks then Some (Inl NoHealthyDisks)
          else
            (let ranked = sorted_nodes disks nodes order;
                 required = placed_width (pv_protection volume)
             in case num_extents volume of
                  None \<Rightarrow> None
                | Some n \<Rightarrow>
                    if length ranked < required then Some (Inl (InsufficientNodes required (length ranked)))
                    else map_option Inr (all_some (map (\<lambda>i. place_extent (pv_protection volume) (gen i)
                           (map pd_disk_id (pick_disks disks nodes ranked i required))) [0..<n]))))"

definition placement_disks :: "ExtentPlacement \<Rightarrow> DiskId list" where
  "placement_disks p = (if ep_fragment_disks p = [] then ep_primary_disk p # ep_replica_disks p else ep_fragment_disks p)"

text \<open>The hash map of nodes with disks has exactly the listed nodes that have an allocatable disk.\<close>

definition order_ok :: "PlacementDisk list \<Rightarrow> NodeId list \<Rightarrow> NodeId list \<Rightarrow> bool" where
  "order_ok disks nodes order \<longleftrightarrow>
     distinct order \<and> set order = {nid \<in> set nodes. \<exists>d \<in> set disks. allows_allocation (pd_state d) \<and> pd_node_id d = nid}"

lemma all_some_iff: "all_some xs = Some ys \<longleftrightarrow> xs = map Some ys"
  by (induction xs arbitrary: ys rule: all_some.induct) (auto simp: Cons_eq_map_conv)

lemma node_disks_member:
  "d \<in> set (node_disks disks nodes nid) \<longleftrightarrow>
     nid \<in> set nodes \<and> d \<in> set disks \<and> allows_allocation (pd_state d) \<and> pd_node_id d = nid"
  by (auto simp: node_disks_def)

lemma rotate_index_inj:
  fixes i n :: nat
  assumes "(i mod n + x) mod n = (i mod n + y) mod n" "x < n" "y < n"
  shows "x = y"
proof -
  have k: "n - i mod n + (i mod n + z) = n + z" for z using assms(2) by (simp add: less_imp_le)
  have "(n - i mod n + (i mod n + x)) mod n = (n - i mod n + (i mod n + y)) mod n"
    by (metis assms(1) mod_add_right_eq)
  with assms(2,3) show ?thesis unfolding k by simp
qed

lemma pick_disks_spread:
  fixes i :: nat
  assumes "order_ok disks nodes order" "cnt \<le> length order"
  defines "ds \<equiv> pick_disks disks nodes (sorted_nodes disks nodes order) i cnt"
  shows "length ds = cnt" "distinct (map pd_node_id ds)"
    "\<forall>d \<in> set ds. d \<in> set disks \<and> allows_allocation (pd_state d) \<and> pd_node_id d \<in> set nodes"
proof -
  let ?r = "sorted_nodes disks nodes order" and ?n = "length order"
  let ?nid = "\<lambda>j. ?r ! ((i mod ?n + j) mod ?n)"
  have r: "distinct ?r" "set ?r = set order" "length ?r = ?n"
    using assms(1) by (simp_all add: sorted_nodes_def order_ok_def distinct_sort)
  show "length ds = cnt" by (simp add: ds_def pick_disks_def)
  have at: "ds ! j \<in> set (node_disks disks nodes (?nid j))" if "j < cnt" for j
  proof -
    have "0 < ?n" using that assms(2) by linarith
    then have "?nid j \<in> set ?r" by (intro nth_mem) (simp add: r(3))
    then have "?nid j \<in> set order" by (simp add: r(2))
    then have "node_disks disks nodes (?nid j) \<noteq> []"
      using assms(1) node_disks_member[of _ disks nodes "?nid j"] by (fastforce simp: order_ok_def)
    then show ?thesis using that by (simp add: ds_def pick_disks_def Let_def r(3))
  qed
  have node: "map pd_node_id ds = map ?nid [0..<cnt]"
    using at by (intro nth_equalityI) (auto simp: \<open>length ds = cnt\<close> node_disks_member)
  have "inj_on ?nid (set [0..<cnt])"
  proof (rule inj_onI)
    fix x y assume xy: "x \<in> set [0..<cnt]" "y \<in> set [0..<cnt]" "?nid x = ?nid y"
    then have "x < ?n" "y < ?n" using assms(2) by auto
    moreover from this have "0 < ?n" by linarith
    then have "(i mod ?n + x) mod ?n < ?n" "(i mod ?n + y) mod ?n < ?n" by simp_all
    ultimately show "x = y" using xy(3) rotate_index_inj[of i ?n x y] nth_eq_iff_index_eq[OF r(1)] r(3) by simp
  qed
  then show "distinct (map pd_node_id ds)" unfolding node by (simp add: distinct_map)
  show "\<forall>d \<in> set ds. d \<in> set disks \<and> allows_allocation (pd_state d) \<and> pd_node_id d \<in> set nodes"
    using at unfolding all_set_conv_all_nth \<open>length ds = cnt\<close> node_disks_member by auto
qed

lemma place_extent_disks: "place_extent p x ds = Some e \<Longrightarrow> placement_disks e = ds \<and> ep_extent_id e = x"
  by (induction p x ds rule: place_extent.induct) (auto simp: placement_disks_def)

text \<open>
  C33: A successful volume placement covers the volume: one placement per extent, each on as many
  disks as the policy's width (a byte), all of them allocatable disks of the listed nodes, and no
  two on the same node.
\<close>

theorem place_volume_spreads:
  assumes "order_ok disks nodes order"
    and "place_volume gen order volume disks nodes = Some (Inr ps)" "0 < pv_size_bytes volume"
  shows "length ps = div_ceil (unat (pv_size_bytes volume)) (unat (pv_extent_size_bytes volume)) \<and>
    (\<forall>i < length ps. ep_extent_id (ps ! i) = gen i \<and>
       (\<exists>ds. placement_disks (ps ! i) = map pd_disk_id ds \<and> length ds = placed_width (pv_protection volume) \<and>
          distinct (map pd_node_id ds) \<and>
          (\<forall>d \<in> set ds. d \<in> set disks \<and> allows_allocation (pd_state d) \<and> pd_node_id d \<in> set nodes)))"
proof -
  let ?w = "placed_width (pv_protection volume)" and ?r = "sorted_nodes disks nodes order"
  have len: "length ?r = length order" by (simp add: sorted_nodes_def)
  from assms(2) obtain n where n: "num_extents volume = Some n" "?w \<le> length order"
    "map (\<lambda>i. place_extent (pv_protection volume) (gen i) (map pd_disk_id (pick_disks disks nodes ?r i ?w))) [0..<n] = map Some ps"
    by (auto simp: place_volume_def Let_def len all_some_iff split: sum.splits option.splits if_splits)
  have lp: "length ps = n" using arg_cong[OF n(3), of length] by simp
  have "ep_extent_id (ps ! i) = gen i \<and> placement_disks (ps ! i) = map pd_disk_id (pick_disks disks nodes ?r i ?w)"
    if "i < length ps" for i
    using arg_cong[OF n(3), of "\<lambda>xs. xs ! i"] that lp by (auto dest: place_extent_disks)
  moreover have "n = div_ceil (unat (pv_size_bytes volume)) (unat (pv_extent_size_bytes volume))"
    using n(1) assms(3) by (auto simp: num_extents_def split: if_splits)
  ultimately show ?thesis
    using lp pick_disks_spread[OF assms(1) n(2)] by blast
qed

lemma placed_width_policy: "policy_width p < 256 \<Longrightarrow> placed_width p = policy_width p"
  by (cases p) (simp_all add: unat_word_ariths)

lemma placed_width_wraps:
  "policy_validate (ErasureCoded 200 56) = Inr ()" "placed_width (ErasureCoded 200 56) = 0" "policy_width (ErasureCoded 200 56) = 256"
  by simp_all

section \<open>Concrete instances\<close>

definition demo_digest :: "bytes \<Rightarrow> bytes" where
  "demo_digest bs = take 32 (rev bs)"

lemma horner_sum_inj:
  assumes "length xs = length ys" "\<forall>x \<in> set xs \<union> set ys. 0 \<le> f x \<and> f x < (b::int)" "horner_sum f b xs = horner_sum f b ys"
  shows "map f xs = map f ys"
  using assms
proof (induction xs ys rule: list_induct2)
  case (Cons x xs y ys)
  have b: "0 \<le> f x" "f x < b" "0 \<le> f y" "f y < b" using Cons.prems(1) by simp_all
  have eq: "f x + b * horner_sum f b xs = f y + b * horner_sum f b ys" using Cons.prems(2) by simp
  have "(f x + b * horner_sum f b xs) mod b = f x" "(f y + b * horner_sum f b ys) mod b = f y" using b by simp_all
  then have xy: "f x = f y" using eq by metis
  then have "b * horner_sum f b xs = b * horner_sum f b ys" using eq by simp
  then have "horner_sum f b xs = horner_sum f b ys" using b by simp
  then show ?case using Cons xy by simp
qed simp

lemma horner_sum_bound:
  assumes "\<forall>x \<in> set xs. 0 \<le> f x \<and> f x < (b::int)"
  shows "0 \<le> horner_sum f b xs \<and> horner_sum f b xs < b ^ length xs"
  using assms
proof (induction xs)
  case (Cons x xs)
  have b: "0 \<le> f x" "f x < b" "0 \<le> horner_sum f b xs" "horner_sum f b xs + 1 \<le> b ^ length xs" using Cons by simp_all
  have "b * (horner_sum f b xs + 1) \<le> b * b ^ length xs" using b by (intro mult_left_mono) simp_all
  then have "f x + b * horner_sum f b xs < b * b ^ length xs" using b(2) by (simp add: algebra_simps)
  then show ?case using b by simp
qed simp

lemma uuid_from_bytes_inj:
  assumes "uuid_from_bytes xs = uuid_from_bytes ys" "length xs = 16" "length ys = 16"
  shows "xs = ys"
proof -
  have b: "0 \<le> uint (x :: u8) \<and> uint x < 256" for x using uint_lt2p[of x] by simp
  have lt: "0 \<le> horner_sum uint 256 zs \<and> horner_sum uint 256 zs < 2 ^ 128" if "length zs = 16" for zs :: bytes
    using horner_sum_bound[of zs uint 256] b that by simp
  have "(word_of_int (horner_sum uint 256 (rev xs)) :: uuid) = word_of_int (horner_sum uint 256 (rev ys))"
    using assms(1) by (simp add: uuid_from_bytes_def word_rcat_def)
  moreover have "uint (word_of_int w :: uuid) = w" if "0 \<le> w \<and> w < 2 ^ 128" for w
    using that by (simp add: uint_word_of_int_eq take_bit_int_eq_self)
  ultimately have "horner_sum uint 256 (rev xs) = horner_sum uint 256 (rev ys)"
    using lt[of "rev xs"] lt[of "rev ys"] assms(2,3) by (metis length_rev)
  then have "map uint (rev xs) = map uint (rev ys)" using b assms(2,3) by (intro horner_sum_inj[of _ _ _ 256]) auto
  then show ?thesis by (simp add: rev_map[symmetric] inj_map_eq_map[OF inj_unsigned])
qed

lemma length_uuid_bytes [simp]: "length (uuid_bytes u) = 16"
  by (simp add: uuid_bytes_def)

text \<open>The demonstration digest keeps extents of a volume apart.\<close>

lemma inj_demo_extent_id: "inj (extent_id_for_extent demo_digest v)"
proof (rule injI)
  fix a b assume eq: "extent_id_for_extent demo_digest v a = extent_id_for_extent demo_digest v b"
  have t: "take 16 (demo_digest (p @ uuid_bytes v @ u64_le_bytes n)) = rev (u64_le_bytes n) @ rev (drop 8 (uuid_bytes v))" for p n
    by (simp add: demo_digest_def take_rev min_def)
  have "rev (u64_le_bytes a) @ rev (drop 8 (uuid_bytes v)) = rev (u64_le_bytes b) @ rev (drop 8 (uuid_bytes v))"
    by (rule uuid_from_bytes_inj) (use eq in \<open>simp_all add: extent_id_for_extent_def t\<close>)
  then show "a = b" by (simp add: inj_u64_le_bytes)
qed

theorem select_nodes_rendezvous_witness:
  "length (select_nodes demo_digest 9 5 [1, 2, 3, 4] 2) = 2 \<and>
   set (select_nodes demo_digest 9 5 [1, 2, 3, 4] 2) - {3} \<subseteq> set (select_nodes demo_digest 9 5 [1, 2, 4] 2)"
  using select_nodes_rendezvous[of "[1, 2, 3, 4]" 3 demo_digest 9 5 2] by simp

definition demo_disk :: "DiskId \<Rightarrow> NodeId \<Rightarrow> PlacementDisk" where
  "demo_disk d n = \<lparr> pd_disk_id = d, pd_node_id = n, pd_capacity_bytes = 1000, pd_used_bytes = ucast d, pd_state = Healthy \<rparr>"

theorem place_volume_spreads_witness:
  "\<exists>ps. place_volume of_nat [2, 1] \<lparr> pv_size_bytes = 100, pv_protection = Replicated 2, pv_extent_size_bytes = 64 \<rparr>
      [demo_disk 11 1, demo_disk 12 2, demo_disk 13 2] [1, 2] = Some (Inr ps) \<and>
    length ps = 2 \<and> length (placement_disks (ps ! 1)) = 2"
proof -
  let ?v = "\<lparr> pv_size_bytes = 100, pv_protection = Replicated 2, pv_extent_size_bytes = 64 \<rparr>"
  let ?ds = "[demo_disk 11 1, demo_disk 12 2, demo_disk 13 2]"
  obtain ps where ps: "place_volume of_nat [2, 1] ?v ?ds [1, 2] = Some (Inr ps)"
  proof -
    have "(case place_volume of_nat [2, 1] ?v ?ds [1, 2] of Some (Inr ps) \<Rightarrow> True | _ \<Rightarrow> False)" by code_simp
    then show thesis by (auto intro: that split: option.splits sum.splits)
  qed
  have "order_ok ?ds [1, 2] [2, 1]" by (auto simp: order_ok_def demo_disk_def)
  from place_volume_spreads[OF this ps] have "length ps = div_ceil 100 64"
    "length ps > 1 \<longrightarrow> length (placement_disks (ps ! 1)) = 2" by fastforce+
  with ps show ?thesis by (simp add: div_ceil_def)
qed

end
