(* ===== verification/WritePath.thy ===== *)
theory WritePath
  imports ClientState Placement
begin

text \<open>
  The write pipelines of a mounted volume (\<^verbatim>\<open>blockyard-ublk/src\<close>): replicated writes
  (\<^verbatim>\<open>write_pipeline.rs\<close>), erasure-coded writes and the coalescing of adjacent writes
  (\<^verbatim>\<open>ec_write_pipeline.rs\<close>), with the calls to the data nodes as an argument (\<^verbatim>\<open>traits.rs\<close>). The locale
  \<^verbatim>\<open>write_plane\<close> is what the pipelines rely on: a successful ack of a new write means that the node holds the
  data, and a write touches one extent of one node. The theory of the cluster interprets it on the TCP client
  and the data nodes.
\<close>

section \<open>Data node calls\<close>

datatype WriteAckError = AckStaleEpoch | AckDiskUnavailable | AckDuplicateOperation | AckInternalError string

record WriteAck =
  wa_node_id :: NodeId
  wa_success :: bool
  wa_checksum :: checksum
  wa_error :: "WriteAckError option"

record WriteCall =
  wc_operation_id :: OperationId
  wc_session_id :: SessionId
  wc_volume_id :: VolumeId
  wc_extent_id :: ExtentId
  wc_extent_version :: u64
  wc_epoch :: EpochId
  wc_data :: bytes
  wc_checksum :: checksum

text \<open>
  A write call to a node changes the cluster; \<^const>\<open>None\<close> is a panic of the task that makes the call.
\<close>

type_synonym 'c write_rpc = "NodeId \<Rightarrow> WriteCall \<Rightarrow> 'c \<Rightarrow> (WriteAck, Error) result option \<times> 'c"

datatype WriteOutcome =
    Committed EpochId
  | InsufficientAcks nat nat
  | StaleEpoch
  | MetadataCommitFailed string

definition failed_ack :: "(Error \<Rightarrow> string) \<Rightarrow> NodeId \<Rightarrow> Error \<Rightarrow> WriteAck" where
  "failed_ack show_error n e =
     \<lparr> wa_node_id = n, wa_success = False, wa_checksum = [], wa_error = Some (AckInternalError (show_error e)) \<rparr>"

text \<open>The tasks of a fan-out in the order in which they complete.\<close>

fun transmit ::
  "'c write_rpc \<Rightarrow> (Error \<Rightarrow> string) \<Rightarrow> (NodeId \<times> WriteCall) list \<Rightarrow> 'c \<Rightarrow> WriteAck list \<times> 'c" where
  "transmit wr show_error [] c = ([], c)"
| "transmit wr show_error ((n, a) # jobs) c =
     (case wr n a c of
        (r, c1) \<Rightarrow>
          (case transmit wr show_error jobs c1 of
             (acks, c2) \<Rightarrow>
               (case r of
                  None \<Rightarrow> (acks, c2)
                | Some (Inr ack) \<Rightarrow> (ack # acks, c2)
                | Some (Inl e) \<Rightarrow> (failed_ack show_error n e # acks, c2))))"

section \<open>The replicated write pipeline\<close>

record WriteRequest =
  rw_volume_id :: VolumeId
  rw_block_range :: block_range
  rw_data :: bytes
  rw_extent_blocks :: u64

record WriteCtx =
  wx_cache :: MetadataCache
  wx_session :: ClientSession
  wx_watermark :: u64
  wx_stale :: StaleEpochHandler

text \<open>
  What an attempt meets: the answers of the metadata service and the order in which the tasks of a
  fan-out complete.
\<close>

record AttemptEnv =
  ae_refresh :: refresher
  ae_lookup :: operation_lookup
  ae_schedule :: "(NodeId \<times> WriteCall) list \<Rightarrow> (NodeId \<times> WriteCall) list"

text \<open>The digests and texts the pipelines use.\<close>

record ClientLib =
  cb_fmt :: "uuid \<Rightarrow> string"
  cb_digest :: "bytes \<Rightarrow> bytes"
  cb_checksum :: "bytes \<Rightarrow> checksum"
  cb_show :: "Error \<Rightarrow> string"

definition available_nodes :: "MetadataCache \<Rightarrow> NodeId list" where
  "available_nodes c = map na_node_id (cache_list_nodes c)"

definition required_acks :: "ProtectionPolicy \<Rightarrow> nat" where
  "required_acks p =
     (case p of
        Replicated n \<Rightarrow> (let total = unat n in if total > 1 then total div 2 + 1 else total)
      | ErasureCoded k m \<Rightarrow> unat (k + m))"

definition replica_nodes :: "ClientLib \<Rightarrow> ProtectionPolicy \<Rightarrow> VolumeId \<Rightarrow> u64 \<Rightarrow> NodeId list \<Rightarrow> NodeId list" where
  "replica_nodes lib p v extent_num nodes =
     (case p of
        Replicated n \<Rightarrow> select_nodes (cb_digest lib) v extent_num nodes (unat n)
      | ErasureCoded k m \<Rightarrow> select_ec_nodes (cb_digest lib) v extent_num nodes k m)"

definition not_cached :: "ClientLib \<Rightarrow> VolumeId \<Rightarrow> Error" where
  "not_cached lib v = Storage (''volume '' @ cb_fmt lib v @ '' not found in cache'')"

text \<open>What follows the fan-out in both pipelines: a stale epoch anywhere wins over missing acks.\<close>

definition refresh_after_stale :: "AttemptEnv \<Rightarrow> EpochId \<Rightarrow> WriteCtx \<Rightarrow> WriteCtx" where
  "refresh_after_stale env epoch x =
     (let (r, h, c) = handle_stale_epoch (ae_refresh env) epoch (wx_stale x, wx_cache x)
      in x\<lparr> wx_stale := h, wx_cache := c \<rparr>)"

definition stale_ack :: "WriteAck \<Rightarrow> bool" where
  "stale_ack a \<longleftrightarrow> wa_error a = Some AckStaleEpoch"

definition write_calls ::
  "ClientLib \<Rightarrow> WriteRequest \<Rightarrow> OperationId \<Rightarrow> SessionId \<Rightarrow> EpochId \<Rightarrow> u64 \<Rightarrow> NodeId list \<Rightarrow> (NodeId \<times> WriteCall) list" where
  "write_calls lib request op session epoch extent_num nodes =
     map (\<lambda>n. (n, \<lparr> wc_operation_id = op, wc_session_id = session, wc_volume_id = rw_volume_id request,
        wc_extent_id = extent_id_for_extent (cb_digest lib) (rw_volume_id request) extent_num,
        wc_extent_version = extent_version, wc_epoch = epoch, wc_data = rw_data request,
        wc_checksum = cb_checksum lib (rw_data request) \<rparr>)) nodes"

definition execute_once ::
  "ClientLib \<Rightarrow> 'c write_rpc \<Rightarrow> AttemptEnv \<Rightarrow> WriteRequest \<Rightarrow> OperationId \<Rightarrow> WriteCtx \<times> 'c \<Rightarrow>
   (WriteOutcome, Error) result \<times> WriteCtx \<times> 'c" where
  "execute_once lib wr env request op st =
     (let (x, cl) = st; cache = wx_cache x; epoch = mc_epoch cache in
      if sh_paused (wx_stale x) then (Inl (Storage ''writes paused due to stale epoch''), st)
      else case cache_get_volume (cb_fmt lib) cache (rw_volume_id request) of
        None \<Rightarrow> (Inl (not_cached lib (rw_volume_id request)), st)
      | Some info \<Rightarrow>
          (let extent_num = fst (rw_block_range request) div max (rw_extent_blocks request) 1;
               required = required_acks (cv_protection info);
               nodes = replica_nodes lib (cv_protection info) (rw_volume_id request) extent_num (available_nodes cache)
           in if nodes = [] then (Inl (Storage ''no replica nodes available''), st)
              else
                (let calls = write_calls lib request op (ss_session_id (wx_session x)) epoch extent_num nodes;
                     (acks, cl') = transmit wr (cb_show lib) (ae_schedule env calls) cl;
                     acked = length (filter wa_success acks)
                 in if list_ex stale_ack acks then (Inr StaleEpoch, refresh_after_stale env epoch x, cl')
                    else if acked < required then (Inr (InsufficientAcks acked required), x, cl')
                    else (Inr (Committed epoch), x\<lparr> wx_watermark := snd (advance_to epoch (wx_watermark x)) \<rparr>, cl'))))"

text \<open>A write that the metadata service reports as committed before a retry.\<close>

definition adopt_committed :: "ClientLib \<Rightarrow> WriteRequest \<Rightarrow> CommittedMapping \<Rightarrow> WriteCtx \<Rightarrow> WriteCtx" where
  "adopt_committed lib request m x =
     (let block_size = (case cache_get_volume (cb_fmt lib) (wx_cache x) (rw_volume_id request) of
            Some v \<Rightarrow> ucast (cv_block_size v) | None \<Rightarrow> 4096);
          base = \<lparr> cm_extent_id = ct_extent_id m, cm_extent_version = ct_extent_version m,
                   cm_replica_locations = ct_replica_locations m, cm_checksums = ct_checksums m,
                   cm_size_bytes = of_nat (length (rw_data request)), cm_extent_offset = 0 \<rparr>
      in x\<lparr> wx_watermark := snd (advance_to (ct_epoch m) (wx_watermark x)),
            wx_cache := set_extent_mapping_range (cb_fmt lib) (rw_volume_id request) (rw_block_range request)
                          block_size base (wx_cache x) \<rparr>)"

fun execute_attempts ::
  "ClientLib \<Rightarrow> 'c write_rpc \<Rightarrow> (nat \<Rightarrow> AttemptEnv) \<Rightarrow> nat \<Rightarrow> nat \<Rightarrow> Error \<Rightarrow> WriteRequest \<Rightarrow> OperationId \<Rightarrow> WriteCtx \<times> 'c \<Rightarrow>
   (WriteOutcome, Error) result \<times> WriteCtx \<times> 'c" where
  "execute_attempts lib wr env attempt 0 last_error request op st = (Inl last_error, st)"
| "execute_attempts lib wr env attempt (Suc left) last_error request op st =
     (case (if attempt > 0 then ae_lookup (env attempt) op else Inr None) of
        Inr (Some m) \<Rightarrow> (Inr (Committed (ct_epoch m)), adopt_committed lib request m (fst st), snd st)
      | _ \<Rightarrow>
          (case execute_once lib wr (env attempt) request op st of
             (Inr outcome, st') \<Rightarrow> (Inr outcome, st')
           | (Inl e, st') \<Rightarrow> execute_attempts lib wr env (attempt + 1) left e request op st'))"

definition execute_with_op_id ::
  "ClientLib \<Rightarrow> 'c write_rpc \<Rightarrow> (nat \<Rightarrow> AttemptEnv) \<Rightarrow> u32 \<Rightarrow> WriteRequest \<Rightarrow> OperationId \<Rightarrow> WriteCtx \<times> 'c \<Rightarrow>
   (WriteOutcome, Error) result \<times> WriteCtx \<times> 'c" where
  "execute_with_op_id lib wr env max_retries request op st =
     execute_attempts lib wr env 0 (unat max_retries + 1) (Storage ''write failed after retries'') request op st"

definition execute ::
  "ClientLib \<Rightarrow> 'c write_rpc \<Rightarrow> (nat \<Rightarrow> AttemptEnv) \<Rightarrow> u32 \<Rightarrow> OperationId \<Rightarrow> WriteRequest \<Rightarrow> WriteCtx \<times> 'c \<Rightarrow>
   (WriteOutcome, Error) result \<times> WriteCtx \<times> 'c" where
  "execute lib wr env max_retries gen request st =
     (let (op, session) = next_operation_id gen (wx_session (fst st))
      in execute_with_op_id lib wr env max_retries request op ((fst st)\<lparr> wx_session := session \<rparr>, snd st))"

text \<open>Extent versions from a counter that is seeded once with the clock in microseconds.\<close>

definition next_extent_version :: "u64 \<Rightarrow> u64 option \<Rightarrow> u64 \<times> u64 option" where
  "next_extent_version now counter =
     (let cur = (case counter of None \<Rightarrow> now | Some c \<Rightarrow> c) in (cur, Some (cur + 1)))"

section \<open>Erasure coding\<close>

text \<open>
  The Reed-Solomon code is a library: \<^verbatim>\<open>rs_new\<close> gives the error text for invalid parameters,
  \<^verbatim>\<open>rs_encode\<close> fills in the parity shards, \<^verbatim>\<open>rs_reconstruct\<close> the missing ones.
\<close>

record RsLib =
  rs_new :: "nat \<Rightarrow> nat \<Rightarrow> string option"
  rs_encode :: "nat \<Rightarrow> nat \<Rightarrow> bytes list \<Rightarrow> (bytes list, string) result"
  rs_reconstruct :: "nat \<Rightarrow> nat \<Rightarrow> bytes option list \<Rightarrow> (bytes option list, string) result"

record EcFragment =
  ef_index :: nat
  ef_is_data :: bool
  ef_data :: bytes

record EncodedStripe =
  es_fragments :: "EcFragment list"
  es_original_data_len :: nat

definition data_shard :: "bytes \<Rightarrow> nat \<Rightarrow> nat \<Rightarrow> bytes" where
  "data_shard data frag_size i =
     (let chunk = take frag_size (drop (i * frag_size) data) in chunk @ replicate (frag_size - length chunk) 0)"

definition encode_data :: "RsLib \<Rightarrow> bytes \<Rightarrow> nat \<Rightarrow> nat \<Rightarrow> (EncodedStripe, Error) result" where
  "encode_data rs data k m =
     (if data = [] then Inl (Storage ''empty data for EC encoding'')
      else case rs_new rs k m of
        Some e \<Rightarrow> Inl (Storage (''invalid EC parameters: '' @ e))
      | None \<Rightarrow>
          (let frag_size = div_ceil (length data) k;
               shards = map (data_shard data frag_size) [0..<k] @ replicate m (replicate frag_size 0)
           in case rs_encode rs k m shards of
                Inl e \<Rightarrow> Inl (Storage (''EC encoding failed: '' @ e))
              | Inr full \<Rightarrow>
                  Inr \<lparr> es_fragments = map (\<lambda>(i, s). \<lparr> ef_index = i, ef_is_data = i < k, ef_data = s \<rparr>) (enumerate 0 full),
                        es_original_data_len = length data \<rparr>))"

definition fragment_calls ::
  "ClientLib \<Rightarrow> VolumeId \<Rightarrow> OperationId \<Rightarrow> SessionId \<Rightarrow> EpochId \<Rightarrow> u64 \<Rightarrow> NodeId list \<Rightarrow> EncodedStripe \<Rightarrow> (NodeId \<times> WriteCall) list" where
  "fragment_calls lib v op session epoch extent_num nodes stripe =
     map (\<lambda>(n, f). (n, \<lparr> wc_operation_id = op, wc_session_id = session, wc_volume_id = v,
        wc_extent_id = extent_id_for_extent (cb_digest lib) v extent_num, wc_extent_version = extent_version,
        wc_epoch = epoch, wc_data = ef_data f, wc_checksum = cb_checksum lib (ef_data f) \<rparr>))
       (zip nodes (es_fragments stripe))"

definition ec_execute_once ::
  "ClientLib \<Rightarrow> RsLib \<Rightarrow> 'c write_rpc \<Rightarrow> AttemptEnv \<Rightarrow> VolumeId \<Rightarrow> block_range \<Rightarrow> bytes \<Rightarrow> OperationId \<Rightarrow> WriteCtx \<times> 'c \<Rightarrow>
   (WriteOutcome, Error) result \<times> WriteCtx \<times> 'c" where
  "ec_execute_once lib rs wr env v r data op st =
     (let (x, cl) = st; cache = wx_cache x; epoch = mc_epoch cache in
      if sh_paused (wx_stale x) then (Inl (Storage ''writes paused due to stale epoch''), st)
      else case cache_get_volume (cb_fmt lib) cache v of
        None \<Rightarrow> (Inl (not_cached lib v), st)
      | Some info \<Rightarrow>
          (case cv_protection info of
             Replicated _ \<Rightarrow> (Inl (Storage ''EC write pipeline requires ErasureCoded protection policy''), st)
           | ErasureCoded k m \<Rightarrow>
               (let nodes = available_nodes cache; total = unat k + unat m;
                    extent_num = fst r div max (cached_extent_blocks info) 1
                in if length nodes < total then
                     (Inl (Storage (''insufficient nodes: have '' @ decimal (length nodes) @ '', need '' @ decimal total)), st)
                   else case encode_data rs data (unat k) (unat m) of
                     Inl e \<Rightarrow> (Inl e, st)
                   | Inr stripe \<Rightarrow>
                       (let calls = fragment_calls lib v op (ss_session_id (wx_session x)) epoch extent_num
                                      (select_ec_nodes (cb_digest lib) v extent_num nodes k m) stripe;
                            (acks, cl') = transmit wr (cb_show lib) (ae_schedule env calls) cl;
                            good = filter wa_success acks;
                            required = unat k + min 1 (unat m)
                        in if list_ex stale_ack acks then (Inr StaleEpoch, refresh_after_stale env epoch x, cl')
                           else if length good < required then (Inr (InsufficientAcks (length good) required), x, cl')
                           else
                             (Inr (Committed epoch),
                              x\<lparr> wx_watermark := snd (advance_to epoch (wx_watermark x)),
                                 wx_cache := set_extent_mapping_range (cb_fmt lib) v r (ucast (cv_block_size info))
                                   \<lparr> cm_extent_id = extent_id_for_extent (cb_digest lib) v extent_num,
                                     cm_extent_version = extent_version, cm_replica_locations = map wa_node_id good,
                                     cm_checksums = map (\<lambda>a. str_bytes (wa_checksum a)) good,
                                     cm_size_bytes = of_nat (length data), cm_extent_offset = 0 \<rparr> cache \<rparr>, cl')))))"

fun ec_execute_attempts ::
  "ClientLib \<Rightarrow> RsLib \<Rightarrow> 'c write_rpc \<Rightarrow> (nat \<Rightarrow> AttemptEnv) \<Rightarrow> nat \<Rightarrow> nat \<Rightarrow> Error \<Rightarrow> VolumeId \<Rightarrow> block_range \<Rightarrow> bytes \<Rightarrow>
   OperationId \<Rightarrow> WriteCtx \<times> 'c \<Rightarrow> (WriteOutcome, Error) result \<times> WriteCtx \<times> 'c" where
  "ec_execute_attempts lib rs wr env attempt 0 last_error v r data op st = (Inl last_error, st)"
| "ec_execute_attempts lib rs wr env attempt (Suc left) last_error v r data op st =
     (case ec_execute_once lib rs wr (env attempt) v r data op st of
        (Inr outcome, st') \<Rightarrow> (Inr outcome, st')
      | (Inl e, st') \<Rightarrow> ec_execute_attempts lib rs wr env (attempt + 1) left e v r data op st')"

definition ec_execute ::
  "ClientLib \<Rightarrow> RsLib \<Rightarrow> 'c write_rpc \<Rightarrow> (nat \<Rightarrow> AttemptEnv) \<Rightarrow> u32 \<Rightarrow> OperationId \<Rightarrow> VolumeId \<Rightarrow> block_range \<Rightarrow> bytes \<Rightarrow>
   WriteCtx \<times> 'c \<Rightarrow> (WriteOutcome, Error) result \<times> WriteCtx \<times> 'c" where
  "ec_execute lib rs wr env max_retries gen v r data st =
     (let (op, session) = next_operation_id gen (wx_session (fst st))
      in ec_execute_attempts lib rs wr env 0 (unat max_retries + 1) (Storage ''EC write failed after retries'')
           v r data op ((fst st)\<lparr> wx_session := session \<rparr>, snd st))"

text \<open>
  Read-modify-write of a stripe; \<^const>\<open>None\<close> is the panic of an offset beyond the stripe.
\<close>

definition splice_stripe :: "bytes \<Rightarrow> bytes \<Rightarrow> nat \<Rightarrow> bytes option" where
  "splice_stripe new_data stripe off =
     (if off > length stripe then None
      else (let n = min (length new_data) (length stripe - off)
            in Some (take off stripe @ take n new_data @ drop (off + n) stripe)))"

definition partial_stripe_write ::
  "ClientLib \<Rightarrow> RsLib \<Rightarrow> 'c write_rpc \<Rightarrow> (nat \<Rightarrow> AttemptEnv) \<Rightarrow> u32 \<Rightarrow> OperationId \<Rightarrow> VolumeId \<Rightarrow> block_range \<Rightarrow> bytes \<Rightarrow>
   bytes \<Rightarrow> nat \<Rightarrow> WriteCtx \<times> 'c \<Rightarrow> ((WriteOutcome, Error) result \<times> WriteCtx \<times> 'c) option" where
  "partial_stripe_write lib rs wr env max_retries gen v r new_data stripe off st =
     (case cache_get_volume (cb_fmt lib) (wx_cache (fst st)) v of
        None \<Rightarrow> Some (Inl (not_cached lib v), st)
      | Some info \<Rightarrow>
          (case cv_protection info of
             Replicated _ \<Rightarrow> Some (Inl (Storage ''partial stripe write requires ErasureCoded policy''), st)
           | ErasureCoded _ _ \<Rightarrow>
               map_option (\<lambda>data. ec_execute lib rs wr env max_retries gen v r data st) (splice_stripe new_data stripe off)))"

section \<open>Coalescing of adjacent writes\<close>

record CoalescingConfig =
  cf_max_delay :: nat
  cf_max_bytes :: nat
  cf_enabled :: bool

record PendingWrite =
  pw_volume_id :: VolumeId
  pw_block_range :: block_range
  pw_data :: bytes
  pw_received_at :: nat

record CoalescingBuffer =
  co_config :: CoalescingConfig
  co_pending :: "(u64, PendingWrite) btree"
  co_stripe_size :: u64

definition merge_pending :: "PendingWrite \<Rightarrow> PendingWrite \<Rightarrow> PendingWrite" where
  "merge_pending existing w =
     existing\<lparr> pw_data := pw_data existing @ pw_data w,
       pw_block_range := (min (fst (pw_block_range existing)) (fst (pw_block_range w)),
                          max (snd (pw_block_range existing)) (snd (pw_block_range w))) \<rparr>"

definition flush_all :: "CoalescingBuffer \<Rightarrow> PendingWrite list \<times> CoalescingBuffer" where
  "flush_all b = (bt_values (co_pending b), b\<lparr> co_pending := [] \<rparr>)"

text \<open>\<^const>\<open>None\<close> is the division by a zero stripe size.\<close>

definition add_write :: "nat \<Rightarrow> PendingWrite \<Rightarrow> CoalescingBuffer \<Rightarrow> (PendingWrite list \<times> CoalescingBuffer) option" where
  "add_write now w b =
     (if \<not> cf_enabled (co_config b) then Some ([w], b)
      else if co_stripe_size b = 0 then None
      else
        (let key = fst (pw_block_range w) div co_stripe_size b * co_stripe_size b;
             pending = co_pending b;
             total = sum_list (map (\<lambda>w. length (pw_data w)) (bt_values pending));
             should_flush = total + length (pw_data w) \<ge> cf_max_bytes (co_config b);
             time_exceeded = list_ex (\<lambda>w. now - pw_received_at w \<ge> cf_max_delay (co_config b)) (bt_values pending);
             b1 = b\<lparr> co_pending := bt_insert key (case bt_get pending key of
                        Some existing \<Rightarrow> merge_pending existing w | None \<Rightarrow> w) pending \<rparr>
         in Some (if should_flush \<or> time_exceeded then flush_all b1 else ([], b1))))"

section \<open>Facts about the attempts\<close>

definition cache_nodes_ok :: "(uuid \<Rightarrow> string) \<Rightarrow> MetadataCache \<Rightarrow> bool" where
  "cache_nodes_ok fmt c \<longleftrightarrow>
     bt_wf (mc_cluster_map c) \<and> (\<forall>kn \<in> set (mc_cluster_map c). fst kn = fmt (na_node_id (snd kn)))"

lemma available_nodes_distinct:
  assumes "cache_nodes_ok fmt c"
  shows "distinct (available_nodes c)"
proof -
  have "map fst (mc_cluster_map c) = map fmt (available_nodes c)"
    using assms by (auto simp: cache_nodes_ok_def available_nodes_def cache_list_nodes_def bt_values_def)
  then have "distinct (map fmt (available_nodes c))"
    using bt_wf_distinct assms by (metis cache_nodes_ok_def)
  then show ?thesis by (simp add: distinct_map)
qed

lemma nodes_ok_insert:
  assumes "bt_wf m" "\<forall>kn \<in> set m. fst kn = fmt (na_node_id (snd kn))"
  shows "\<forall>kn \<in> set (bt_insert (fmt (na_node_id n)) n m). fst kn = fmt (na_node_id (snd kn))"
proof
  fix kn assume kn: "kn \<in> set (bt_insert (fmt (na_node_id n)) n m)"
  then have "map_of (bt_insert (fmt (na_node_id n)) n m) (fst kn) = Some (snd kn)"
    using assms(1) by (simp only: bt_get_iff[OF bt_wf_insert] prod.collapse)
  then show "fst kn = fmt (na_node_id (snd kn))"
    using assms bt_get_iff[OF assms(1), of "fst kn" "snd kn"] by (auto split: if_splits)
qed

lemma nodes_ok_fold:
  assumes "bt_wf m" "\<forall>kn \<in> set m. fst kn = fmt (na_node_id (snd kn))"
  shows "bt_wf (fold (\<lambda>n. bt_insert (fmt (na_node_id n)) n) nodes m) \<and>
    (\<forall>kn \<in> set (fold (\<lambda>n. bt_insert (fmt (na_node_id n)) n) nodes m). fst kn = fmt (na_node_id (snd kn)))"
  using assms
proof (induction nodes arbitrary: m)
  case (Cons n nodes)
  from Cons.IH[OF bt_wf_insert[OF Cons.prems(1)] nodes_ok_insert[OF Cons.prems]] show ?case by simp
qed simp

lemma cache_nodes_ok_intros:
  "cache_nodes_ok fmt cache_new" "cache_nodes_ok fmt c \<Longrightarrow> cache_nodes_ok fmt (set_node fmt n a c)"
  "cache_nodes_ok fmt (cache_refresh fmt e nodes vols c)"
  using nodes_ok_fold[of "[]" fmt nodes] nodes_ok_insert[of "mc_cluster_map c" fmt "\<lparr> na_node_id = n, na_addr = a \<rparr>"]
  by (simp_all add: cache_nodes_ok_def cache_new_def cache_refresh_def set_node_def)

definition extent_of :: "WriteRequest \<Rightarrow> u64" where
  "extent_of request = fst (rw_block_range request) div max (rw_extent_blocks request) 1"

lemma advance_to_le: "version \<le> snd (advance_to version wm)"
  by (simp add: advance_to_def)

lemma execute_once_error: "execute_once lib wr env request op st = (Inl e, st') \<Longrightarrow> st' = st"
  by (auto simp: execute_once_def Let_def split: prod.splits if_splits option.splits)

lemma execute_once_error_env:
  "execute_once lib wr env request op st = (Inl e, st') \<Longrightarrow> execute_once lib wr env' request op st = (Inl e, st')"
  by (auto simp: execute_once_def Let_def split: prod.splits if_splits option.splits)

text \<open>The checks before a stripe is sent; they do not depend on what the attempt meets.\<close>

lemma ec_execute_once_cases:
  fixes rs :: RsLib
  obtains (refused) e where "\<And>env. ec_execute_once lib rs wr env v r data op st = (Inl e, st)"
  | (sent) info k m stripe where "\<not> sh_paused (wx_stale (fst st))"
      "cache_get_volume (cb_fmt lib) (wx_cache (fst st)) v = Some info" "cv_protection info = ErasureCoded k m"
      "unat k + unat m \<le> length (available_nodes (wx_cache (fst st)))" "encode_data rs data (unat k) (unat m) = Inr stripe"
proof -
  obtain x c where st: "st = (x, c)" by fastforce
  consider "sh_paused (wx_stale x)" | "\<not> sh_paused (wx_stale x)" "cache_get_volume (cb_fmt lib) (wx_cache x) v = None"
    | info n where "\<not> sh_paused (wx_stale x)" "cache_get_volume (cb_fmt lib) (wx_cache x) v = Some info" "cv_protection info = Replicated n"
    | info k m where "\<not> sh_paused (wx_stale x)" "cache_get_volume (cb_fmt lib) (wx_cache x) v = Some info" "cv_protection info = ErasureCoded k m"
    by (metis ProtectionPolicy.exhaust option.exhaust)
  then show thesis
  proof cases
    case (4 info k m)
    show thesis
    proof (cases "length (available_nodes (wx_cache x)) < unat k + unat m")
      case True
      then show thesis by (intro refused) (simp add: ec_execute_once_def st 4)
    next
      case False
      show thesis
      proof (cases "encode_data rs data (unat k) (unat m)")
        case (Inl e)
        then show thesis using False by (intro refused) (simp add: ec_execute_once_def st 4)
      next
        case (Inr stripe)
        then show thesis using False by (intro sent[of info k m stripe]) (simp_all add: st 4)
      qed
    qed
  qed (rule refused, simp add: ec_execute_once_def st)+
qed

lemma ec_execute_once_sent:
  assumes "\<not> sh_paused (wx_stale (fst st))" "cache_get_volume (cb_fmt lib) (wx_cache (fst st)) v = Some info"
    "cv_protection info = ErasureCoded k m" "unat k + unat m \<le> length (available_nodes (wx_cache (fst st)))"
    "encode_data rs data (unat k) (unat m) = Inr stripe"
  shows "\<exists>outcome. fst (ec_execute_once lib rs wr env v r data op st) = Inr outcome"
  using assms by (cases st) (simp add: ec_execute_once_def Let_def split: prod.split)

lemma ec_execute_once_error:
  assumes "ec_execute_once lib rs wr env v r data op st = (Inl e, st')"
  shows "st' = st" "ec_execute_once lib rs wr env' v r data op st = (Inl e, st')"
  using assms ec_execute_once_sent[of st lib v _ _ _ rs data _ wr env r op]
  by (cases rule: ec_execute_once_cases[of lib rs wr v r data op st]; fastforce)+

lemma ec_execute_attempts_single:
  "ec_execute_attempts lib rs wr env i (Suc left) e v r data op st = ec_execute_once lib rs wr (env i) v r data op st"
proof (induction left arbitrary: i e)
  case 0
  show ?case by (simp split: prod.split sum.split)
next
  case (Suc left)
  obtain res st' where o: "ec_execute_once lib rs wr (env i) v r data op st = (res, st')" by (metis surj_pair)
  show ?case
  proof (cases res)
    case (Inl e')
    note er = ec_execute_once_error[OF o[unfolded Inl]]
    show ?thesis using Suc.IH[of "i + 1" e'] er(2)[of "env (i + 1)"] er(1) o Inl
      by (subst ec_execute_attempts.simps(2)) (simp only: prod.case sum.case)
  qed (subst ec_execute_attempts.simps(2), simp only: o prod.case sum.case)
qed

lemma execute_attempts_unreported:
  assumes "\<nexists>m. ae_lookup (env i) op = Inr (Some m)"
  shows "execute_attempts lib wr env i (Suc left) e request op st =
    (case execute_once lib wr (env i) request op st of
       (Inr outcome, st') \<Rightarrow> (Inr outcome, st')
     | (Inl e, st') \<Rightarrow> execute_attempts lib wr env (i + 1) left e request op st')"
proof (cases "ae_lookup (env i) op")
  case (Inr a)
  with assms have "a = None" by (cases a) auto
  with Inr show ?thesis by simp
qed simp

lemma execute_attempts_single:
  assumes "\<forall>i. \<nexists>m. ae_lookup (env i) op = Inr (Some m)"
  shows "execute_attempts lib wr env i (Suc left) e request op st = execute_once lib wr (env i) request op st"
proof (induction left arbitrary: i e)
  case 0
  show ?case by (subst execute_attempts_unreported) (use assms in \<open>auto split: prod.split sum.split\<close>)
next
  case (Suc left)
  obtain r st' where o: "execute_once lib wr (env i) request op st = (r, st')" by (metis surj_pair)
  show ?case
  proof (cases r)
    case (Inl e')
    note er = execute_once_error[OF o[unfolded Inl]] execute_once_error_env[OF o[unfolded Inl], of "env (i + 1)"]
    show ?thesis using Suc.IH[of "i + 1" e'] er o Inl assms
      by (subst execute_attempts_unreported) (simp_all only: prod.case sum.case not_False_eq_True)
  qed (subst execute_attempts_unreported, use assms in blast, simp only: o prod.case sum.case)
qed

section \<open>The contract of the data nodes\<close>

text \<open>
  What the pipelines rely on. \<^verbatim>\<open>held c n x v\<close> is the data that node \<^verbatim>\<open>n\<close> has stored for version \<^verbatim>\<open>v\<close> of extent
  \<^verbatim>\<open>x\<close>; \<^verbatim>\<open>fresh c n op\<close> says that the node has not processed operation \<^verbatim>\<open>op\<close>. A successful ack of a fresh write
  means that the node holds the data, and a write touches only its own node and extent.
\<close>

locale write_plane =
  fixes wr :: "'c write_rpc"
    and held :: "'c \<Rightarrow> NodeId \<Rightarrow> ExtentId \<Rightarrow> u64 \<Rightarrow> bytes option"
    and fresh :: "'c \<Rightarrow> NodeId \<Rightarrow> OperationId \<Rightarrow> bool"
    and at_most :: "'c \<Rightarrow> NodeId \<Rightarrow> ExtentId \<Rightarrow> u64 \<Rightarrow> bytes \<Rightarrow> bool"
    and good :: "'c \<Rightarrow> bool"
  assumes wr_node: "wr n a c = (Some (Inr ack), c') \<Longrightarrow> wa_node_id ack = n"
    and wr_stores: "good c \<Longrightarrow> fresh c n (wc_operation_id a) \<Longrightarrow> wr n a c = (Some (Inr ack), c') \<Longrightarrow> wa_success ack \<Longrightarrow>
      held c' n (wc_extent_id a) (wc_extent_version a) = Some (wc_data a)"
    and wr_frame: "good c \<Longrightarrow> wr n a c = (r, c') \<Longrightarrow> n' \<noteq> n \<or> x \<noteq> wc_extent_id a \<Longrightarrow> held c' n' x v = held c n' x v"
    and wr_good: "good c \<Longrightarrow> wr n a c = (r, c') \<Longrightarrow> good c'"
    and wr_fresh: "good c \<Longrightarrow> wr n a c = (r, c') \<Longrightarrow> fresh c n' op \<Longrightarrow> n' \<noteq> n \<or> op \<noteq> wc_operation_id a \<Longrightarrow> fresh c' n' op"
    and at_most_held: "at_most c n x v data \<Longrightarrow> held c n x v = None \<or> held c n x v = Some data"
    and wr_at_most: "good c \<Longrightarrow> wr n a c = (r, c') \<Longrightarrow> at_most c n' x v data \<Longrightarrow>
      n' \<noteq> n \<or> x \<noteq> wc_extent_id a \<or> v = wc_extent_version a \<and> data = wc_data a \<Longrightarrow> at_most c' n' x v data"
begin

lemma transmit_good: "good c \<Longrightarrow> good (snd (transmit wr show_error jobs c))"
proof (induction jobs arbitrary: c)
  case (Cons j jobs)
  obtain n a where j: "j = (n, a)" by fastforce
  obtain r c1 where w: "wr n a c = (r, c1)" by fastforce
  with Cons have "good (snd (transmit wr show_error jobs c1))" by (auto intro: wr_good)
  then show ?case by (auto simp: j w split: prod.split option.split sum.split)
qed simp

lemma transmit_frame:
  assumes "good c" "\<forall>(n, a) \<in> set jobs. n' \<noteq> n \<or> x \<noteq> wc_extent_id a"
  shows "held (snd (transmit wr show_error jobs c)) n' x v = held c n' x v"
  using assms
proof (induction jobs arbitrary: c)
  case (Cons j jobs)
  obtain n a where j: "j = (n, a)" by fastforce
  obtain r c1 where w: "wr n a c = (r, c1)" by fastforce
  have "held (snd (transmit wr show_error jobs c1)) n' x v = held c1 n' x v"
    using Cons w by (auto intro: wr_good)
  moreover have "held c1 n' x v = held c n' x v" using wr_frame[OF Cons.prems(1) w] Cons.prems(2) j by auto
  ultimately show ?case by (auto simp: j w split: prod.split option.split sum.split)
qed simp

lemma transmit_fresh:
  assumes "good c" "fresh c n' op" "\<forall>(n, a) \<in> set jobs. n' \<noteq> n \<or> op \<noteq> wc_operation_id a"
  shows "fresh (snd (transmit wr show_error jobs c)) n' op"
  using assms
proof (induction jobs arbitrary: c)
  case (Cons j jobs)
  obtain n a where j: "j = (n, a)" by fastforce
  obtain r c1 where w: "wr n a c = (r, c1)" by fastforce
  have "good c1" "fresh c1 n' op" using wr_good[OF Cons.prems(1) w] wr_fresh[OF Cons.prems(1) w] Cons.prems j by auto
  then have "fresh (snd (transmit wr show_error jobs c1)) n' op" using Cons by auto
  then show ?case by (auto simp: j w split: prod.split option.split sum.split)
qed simp

lemma transmit_at_most:
  assumes "good c" "at_most c n' x v data"
    and "\<forall>(n, a) \<in> set jobs. n' \<noteq> n \<or> x \<noteq> wc_extent_id a \<or> v = wc_extent_version a \<and> data = wc_data a"
  shows "at_most (snd (transmit wr show_error jobs c)) n' x v data"
  using assms
proof (induction jobs arbitrary: c)
  case (Cons j jobs)
  obtain n a where j: "j = (n, a)" by fastforce
  obtain r c1 where w: "wr n a c = (r, c1)" by fastforce
  have "n' \<noteq> n \<or> x \<noteq> wc_extent_id a \<or> v = wc_extent_version a \<and> data = wc_data a" using Cons.prems(3) j by auto
  then have "at_most c1 n' x v data" by (rule wr_at_most[OF Cons.prems(1) w Cons.prems(2)])
  moreover have "good c1" by (rule wr_good[OF Cons.prems(1) w])
  ultimately have "at_most (snd (transmit wr show_error jobs c1)) n' x v data" using Cons.IH Cons.prems(3) by auto
  then show ?case by (auto simp: j w split: prod.split option.split sum.split)
qed simp

lemma transmit_nodes:
  "transmit wr show_error jobs c = (acks, c') \<Longrightarrow> set (map wa_node_id acks) \<subseteq> fst ` set jobs \<and>
     (distinct (map fst jobs) \<longrightarrow> distinct (map wa_node_id acks))"
proof (induction jobs arbitrary: c acks c')
  case (Cons j jobs)
  obtain n a where j: "j = (n, a)" by fastforce
  obtain r c1 where w: "wr n a c = (r, c1)" by fastforce
  obtain acks1 c2 where t: "transmit wr show_error jobs c1 = (acks1, c2)" by fastforce
  have 1: "acks = acks1 \<or> (\<exists>k. acks = k # acks1 \<and> wa_node_id k = n)"
    using Cons.prems wr_node[of n a c] by (auto simp: j w t failed_ack_def split: option.splits sum.splits)
  then show ?case using Cons.IH[OF t] by (auto simp: j image_iff) force+
qed simp

lemma transmit_held:
  assumes "transmit wr show_error jobs c = (acks, c')" "good c" "distinct (map fst jobs)"
    and "\<forall>(n, a) \<in> set jobs. fresh c n (wc_operation_id a)" "ack \<in> set acks" "wa_success ack"
  shows "\<exists>a. (wa_node_id ack, a) \<in> set jobs \<and> held c' (wa_node_id ack) (wc_extent_id a) (wc_extent_version a) = Some (wc_data a)"
  using assms
proof (induction jobs arbitrary: c acks c')
  case (Cons j jobs)
  obtain n a where j: "j = (n, a)" by fastforce
  obtain r c1 where w: "wr n a c = (r, c1)" by fastforce
  obtain acks1 c2 where t: "transmit wr show_error jobs c1 = (acks1, c2)" by fastforce
  have c': "c' = c2" using Cons.prems(1) by (auto simp: j w t split: option.splits sum.splits)
  note g = wr_good[OF Cons.prems(2) w]
  have out: "\<forall>(n', a') \<in> set jobs. n \<noteq> n'" using Cons.prems(3) j by force
  have fr: "\<forall>(n', a') \<in> set jobs. fresh c1 n' (wc_operation_id a')"
    using Cons.prems(4) out wr_fresh[OF Cons.prems(2) w] by (auto simp: j) fastforce
  show ?case
  proof (cases "ack \<in> set acks1")
    case True
    then show ?thesis using Cons.IH[OF t g _ fr True] Cons.prems(3,6) by (auto simp: c' j)
  next
    case False
    then have "r = Some (Inr ack)"
      using Cons.prems(1,5,6) by (auto simp: j w t failed_ack_def split: option.splits sum.splits)
    then have "wa_node_id ack = n" "held c1 n (wc_extent_id a) (wc_extent_version a) = Some (wc_data a)"
      using wr_node w wr_stores[OF Cons.prems(2) _ w[unfolded \<open>r = _\<close>]] Cons.prems(4,6) j by auto
    moreover have "held c2 n x v = held c1 n x v" for x v
      using transmit_frame[OF g, of jobs n x show_error v] out t by auto
    ultimately show ?thesis by (auto simp: j c')
  qed
qed simp

end

context write_plane
begin

lemma fan_out_held:
  assumes "transmit wr show_error (sched calls) c = (acks, c')" "good c" "mset (sched calls) = mset calls"
    and "distinct (map fst calls)" "\<forall>(n, a) \<in> set calls. fresh c n (wc_operation_id a)"
  defines "S \<equiv> wa_node_id ` set (filter wa_success acks)"
  shows "card S = length (filter wa_success acks)"
    and "\<forall>n \<in> S. \<exists>a. (n, a) \<in> set calls \<and> held c' n (wc_extent_id a) (wc_extent_version a) = Some (wc_data a)"
proof -
  have sc: "set (sched calls) = set calls" using assms(3) by (rule mset_eq_setD)
  have "mset (map fst (sched calls)) = mset (map fst calls)" by (simp add: assms(3))
  then have d: "distinct (map fst (sched calls))" using assms(4) by (metis mset_eq_imp_distinct_iff)
  then have da: "distinct (map wa_node_id acks)" using transmit_nodes[OF assms(1)] by blast
  then have "inj_on wa_node_id (set (filter wa_success acks))" by (auto simp: distinct_map intro: inj_on_subset)
  then have "card S = card (set (filter wa_success acks))" unfolding S_def by (rule card_image)
  moreover have "card (set (filter wa_success acks)) = length (filter wa_success acks)"
    using da by (intro distinct_card distinct_filter) (simp add: distinct_map)
  ultimately show "card S = length (filter wa_success acks)" by (simp only:)
  show "\<forall>n \<in> S. \<exists>a. (n, a) \<in> set calls \<and> held c' n (wc_extent_id a) (wc_extent_version a) = Some (wc_data a)"
    using transmit_held[OF assms(1,2) d] assms(5) unfolding sc S_def by fastforce
qed

lemma execute_once_committed:
  assumes "execute_once lib wr env request op (x, c) = (Inr (Committed e), x', c')"
    and "good c" "cache_nodes_ok (cb_fmt lib) (wx_cache x)" "\<forall>n. fresh c n op" "\<forall>jobs. mset (ae_schedule env jobs) = mset jobs"
  shows "\<exists>info S. cache_get_volume (cb_fmt lib) (wx_cache x) (rw_volume_id request) = Some info \<and>
    S \<subseteq> set (replica_nodes lib (cv_protection info) (rw_volume_id request) (extent_of request) (available_nodes (wx_cache x))) \<and>
    required_acks (cv_protection info) \<le> card S \<and>
    (\<forall>n \<in> S. held c' n (extent_id_for_extent (cb_digest lib) (rw_volume_id request) (extent_of request)) extent_version =
       Some (rw_data request)) \<and>
    e = mc_epoch (wx_cache x) \<and> e \<le> wx_watermark x' \<and> wx_cache x' = wx_cache x"
proof -
  obtain info where info: "cache_get_volume (cb_fmt lib) (wx_cache x) (rw_volume_id request) = Some info"
    using assms(1) by (auto simp: execute_once_def Let_def split: if_splits option.splits)
  let ?nodes = "replica_nodes lib (cv_protection info) (rw_volume_id request) (extent_of request) (available_nodes (wx_cache x))"
  let ?calls = "write_calls lib request op (ss_session_id (wx_session x)) (mc_epoch (wx_cache x)) (extent_of request) ?nodes"
  obtain acks c2 where t: "transmit wr (cb_show lib) (ae_schedule env ?calls) c = (acks, c2)" by fastforce
  have enough: "required_acks (cv_protection info) \<le> length (filter wa_success acks)"
    and out: "e = mc_epoch (wx_cache x)" "c' = c2" "x' = x\<lparr> wx_watermark := snd (advance_to e (wx_watermark x)) \<rparr>"
    using assms(1) t by (auto simp: execute_once_def Let_def info extent_of_def split: if_splits)
  have "distinct ?nodes" using available_nodes_distinct[OF assms(3)]
    by (auto simp: replica_nodes_def select_ec_nodes_def distinct_select_nodes split: ProtectionPolicy.split)
  then have d: "distinct (map fst ?calls)" by (simp add: write_calls_def comp_def)
  have "\<forall>(n, a) \<in> set ?calls. fresh c n (wc_operation_id a)" using assms(4) by (auto simp: write_calls_def)
  note fan = fan_out_held[where sched = "ae_schedule env" and calls = ?calls, OF t assms(2) assms(5)[rule_format] d this]
  have "\<forall>n \<in> wa_node_id ` set (filter wa_success acks). n \<in> set ?nodes \<and>
      held c2 n (extent_id_for_extent (cb_digest lib) (rw_volume_id request) (extent_of request)) extent_version = Some (rw_data request)"
    using fan(2) by (auto simp: write_calls_def)
  then show ?thesis using enough fan(1)
    by (intro exI[of _ info] exI[of _ "wa_node_id ` set (filter wa_success acks)"]) (auto simp: info out advance_to_le)
qed

lemma execute_once_frame:
  assumes "good c" "x \<noteq> extent_id_for_extent (cb_digest lib) (rw_volume_id request) (extent_of request)"
    and "\<forall>jobs. mset (ae_schedule env jobs) = mset jobs"
  shows "held (snd (snd (execute_once lib wr env request op (w, c)))) n x v = held c n x v"
proof -
  have "held (snd (transmit wr (cb_show lib) (ae_schedule env (write_calls lib request op sess ep
      (extent_of request) nodes)) c)) n x v = held c n x v" for sess ep nodes
    by (rule transmit_frame[OF assms(1)]) (use assms(2) mset_eq_setD[OF assms(3)[rule_format]] in \<open>auto simp: write_calls_def\<close>)
  then show ?thesis
    by (auto simp: execute_once_def extent_of_def Let_def split: option.split prod.split) (metis snd_conv)+
qed

lemma ec_execute_once_committed:
  assumes "ec_execute_once lib rs wr env v r data op (x, c) = (Inr (Committed e), x', c')"
    and "good c" "cache_nodes_ok (cb_fmt lib) (wx_cache x)" "\<forall>n. fresh c n op" "\<forall>jobs. mset (ae_schedule env jobs) = mset jobs"
  shows "\<exists>info k m stripe I. cache_get_volume (cb_fmt lib) (wx_cache x) v = Some info \<and> cv_protection info = ErasureCoded k m \<and>
    encode_data rs data (unat k) (unat m) = Inr stripe \<and>
    unat k + min 1 (unat m) \<le> card I \<and> I \<subseteq> {..<length (es_fragments stripe)} \<and>
    (\<forall>i \<in> I. i < length (select_ec_nodes (cb_digest lib) v (fst r) (available_nodes (wx_cache x)) k m) \<and>
       held c' (select_ec_nodes (cb_digest lib) v (fst r) (available_nodes (wx_cache x)) k m ! i)
         (extent_id_for_extent (cb_digest lib) v (fst r)) extent_version = Some (ef_data (es_fragments stripe ! i))) \<and>
    e = mc_epoch (wx_cache x) \<and> e \<le> wx_watermark x'"
proof (cases rule: ec_execute_once_cases[of lib rs wr v r data op "(x, c)"])
  case (refused e')
  then show ?thesis using assms(1) by simp
next
  case (sent info k m stripe)
  let ?nodes = "select_ec_nodes (cb_digest lib) v (fst r) (available_nodes (wx_cache x)) k m"
  let ?calls = "fragment_calls lib v op (ss_session_id (wx_session x)) (mc_epoch (wx_cache x)) (fst r) ?nodes stripe"
  obtain acks c2 where t: "transmit wr (cb_show lib) (ae_schedule env ?calls) c = (acks, c2)" by fastforce
  have "fst r div max (cached_extent_blocks info) 1 = fst r" by (simp add: cached_extent_blocks_def)
  moreover define ca where "ca = wx_cache (fst (snd (ec_execute_once lib rs wr env v r data op (x, c))))"
  ultimately have run: "ec_execute_once lib rs wr env v r data op (x, c) =
    (if list_ex stale_ack acks then (Inr StaleEpoch, refresh_after_stale env (mc_epoch (wx_cache x)) x, c2)
     else if length (filter wa_success acks) < unat k + min 1 (unat m)
     then (Inr (InsufficientAcks (length (filter wa_success acks)) (unat k + min 1 (unat m))), x, c2)
     else (Inr (Committed (mc_epoch (wx_cache x))),
       x\<lparr> wx_watermark := snd (advance_to (mc_epoch (wx_cache x)) (wx_watermark x)),
          wx_cache := ca \<rparr>, c2))"
    using sent t unfolding ca_def by (simp add: ec_execute_once_def Let_def)
  have enough: "unat k + min 1 (unat m) \<le> length (filter wa_success acks)"
    using run assms(1) by (cases "list_ex stale_ack acks"; cases "length (filter wa_success acks) < unat k + min 1 (unat m)") auto
  then have out: "e = mc_epoch (wx_cache x)" "c' = c2" "wx_watermark x' = snd (advance_to e (wx_watermark x))"
    using run assms(1) by (auto split: if_splits)
  have dn: "distinct ?nodes" using available_nodes_distinct[OF assms(3)] by (simp add: select_ec_nodes_def distinct_select_nodes)
  have "map fst ?calls = take (length (es_fragments stripe)) ?nodes"
    by (simp add: fragment_calls_def comp_def case_prod_unfold map_fst_zip_take[unfolded comp_def] min_def)
  then have d: "distinct (map fst ?calls)" using dn by (simp add: distinct_take)
  have "\<forall>(n, a) \<in> set ?calls. fresh c n (wc_operation_id a)" using assms(4) by (auto simp: fragment_calls_def)
  note fan = fan_out_held[where sched = "ae_schedule env" and calls = ?calls, OF t assms(2) assms(5)[rule_format] d this]
  let ?S = "wa_node_id ` set (filter wa_success acks)"
  let ?I = "{i. i < length (es_fragments stripe) \<and> i < length ?nodes \<and> ?nodes ! i \<in> ?S}"
  have at: "\<exists>i. i < length (es_fragments stripe) \<and> i < length ?nodes \<and> n = ?nodes ! i \<and>
      held c2 n (extent_id_for_extent (cb_digest lib) v (fst r)) extent_version = Some (ef_data (es_fragments stripe ! i))"
    if "n \<in> ?S" for n
    using fan(2) that by (fastforce simp: fragment_calls_def set_zip)
  have "?S \<subseteq> (\<lambda>i. ?nodes ! i) ` ?I"
  proof
    fix n assume n: "n \<in> ?S"
    from at[OF n] obtain i where "i < length (es_fragments stripe)" "i < length ?nodes" "n = ?nodes ! i" by blast
    then show "n \<in> (\<lambda>i. ?nodes ! i) ` ?I" using n by (intro image_eqI[of _ _ i]) simp_all
  qed
  moreover have fin: "finite ?I" by (rule finite_subset[of _ "{..<length ?nodes}"]) auto
  ultimately have "card ?S \<le> card ?I" by (rule surj_card_le[rotated])
  moreover have "held c2 (?nodes ! i) (extent_id_for_extent (cb_digest lib) v (fst r)) extent_version = Some (ef_data (es_fragments stripe ! i))"
    if "i \<in> ?I" for i
  proof -
    from that obtain j where "j < length ?nodes" "?nodes ! i = ?nodes ! j"
      "held c2 (?nodes ! i) (extent_id_for_extent (cb_digest lib) v (fst r)) extent_version = Some (ef_data (es_fragments stripe ! j))"
      using at[of "?nodes ! i"] by blast
    then show ?thesis using that nth_eq_iff_index_eq[OF dn, of i j] by simp
  qed
  ultimately show ?thesis using sent enough fan(1) out
    by (intro exI[of _ info] exI[of _ k] exI[of _ m] exI[of _ stripe] exI[of _ ?I]) (auto simp: advance_to_le)
qed

lemma ec_execute_once_at_most:
  assumes "ec_execute_once lib rs wr env v r data op (x, c) = (out, x', c')" "good c" "cache_nodes_ok (cb_fmt lib) (wx_cache x)"
    and "\<forall>jobs. mset (ae_schedule env jobs) = mset jobs"
    and "cache_get_volume (cb_fmt lib) (wx_cache x) v = Some info" "cv_protection info = ErasureCoded k m"
    and "encode_data rs data (unat k) (unat m) = Inr stripe"
    and "nodes = select_ec_nodes (cb_digest lib) v (fst r) (available_nodes (wx_cache x)) k m"
    and "i < length nodes" "i < length (es_fragments stripe)"
    and "at_most c (nodes ! i) (extent_id_for_extent (cb_digest lib) v (fst r)) extent_version (ef_data (es_fragments stripe ! i))"
  shows "good c' \<and> at_most c' (nodes ! i) (extent_id_for_extent (cb_digest lib) v (fst r)) extent_version (ef_data (es_fragments stripe ! i))"
proof -
  let ?calls = "fragment_calls lib v op (ss_session_id (wx_session x)) (mc_epoch (wx_cache x)) (fst r) nodes stripe"
  have "fst r div max (cached_extent_blocks info) 1 = fst r" by (simp add: cached_extent_blocks_def)
  then have "c' = c \<or> c' = snd (transmit wr (cb_show lib) (ae_schedule env ?calls) c)"
    using assms(1,5-8) by (auto simp: ec_execute_once_def Let_def split: if_splits prod.splits)
  moreover have dn: "distinct nodes" using available_nodes_distinct[OF assms(3)] by (simp add: assms(8) select_ec_nodes_def distinct_select_nodes)
  have "nodes ! i \<noteq> n \<or> extent_version = wc_extent_version a \<and> ef_data (es_fragments stripe ! i) = wc_data a" if "(n, a) \<in> set ?calls" for n a
  proof -
    from that obtain j where "j < length nodes" "j < length (es_fragments stripe)" "n = nodes ! j" "wc_data a = ef_data (es_fragments stripe ! j)"
      "wc_extent_version a = extent_version" by (auto simp: fragment_calls_def set_zip)
    then show ?thesis using nth_eq_iff_index_eq[OF dn, of i j] assms(9) by auto
  qed
  then have "at_most (snd (transmit wr (cb_show lib) (ae_schedule env ?calls) c)) (nodes ! i)
      (extent_id_for_extent (cb_digest lib) v (fst r)) extent_version (ef_data (es_fragments stripe ! i))"
    using mset_eq_setD[OF assms(4)[rule_format]] by (intro transmit_at_most[OF assms(2,11)]) auto
  ultimately show ?thesis using assms(2,11) transmit_good[OF assms(2)] by auto
qed

end

section \<open>Stripes\<close>

lemma data_shard_length [simp]: "length (data_shard data f i) = f"
  by (simp add: data_shard_def Let_def)

lemma concat_shards:
  "concat (map (data_shard data f) [0..<n]) = take (n * f) data @ replicate (n * f - length data) 0"
proof (induction n)
  case (Suc n)
  have "data_shard data f n = take f (drop (n * f) data) @ replicate (f - (length data - n * f)) 0"
    by (simp add: data_shard_def Let_def min_def)
  moreover have "replicate (n * f - length data) (0::u8) @ take f (drop (n * f) data) = take f (drop (n * f) data) @ replicate (n * f - length data) 0"
    by (cases "length data \<le> n * f") simp_all
  moreover have "n * f - length data + (f - (length data - n * f)) = f + n * f - length data" by arith
  ultimately show ?case using Suc
    by (simp add: take_add[of "n * f" f, unfolded add.commute[of "n * f"]] flip: replicate_add) (metis append.assoc replicate_add)
qed simp

lemma concat_all_shards:
  assumes "0 < k"
  shows "concat (map (data_shard data (div_ceil (length data) k)) [0..<k]) =
    data @ replicate (k * div_ceil (length data) k - length data) 0"
  using div_ceil_bounds(1)[OF assms, of "length data"] by (simp add: concat_shards mult.commute)

section \<open>Coalescing\<close>

abbreviation pending_bytes :: "CoalescingBuffer \<Rightarrow> nat" where
  "pending_bytes b \<equiv> sum_list (map (\<lambda>w. length (pw_data w)) (bt_values (co_pending b)))"

lemma sum_values_insert:
  fixes m :: "('k::linorder, 'v) btree"
  assumes "bt_wf m"
  shows "sum_list (map f (bt_values (bt_insert k v m))) + (case bt_get m k of Some v' \<Rightarrow> f v' | None \<Rightarrow> (0::nat)) =
    sum_list (map f (bt_values m)) + f v"
  using assms
proof (induction k v m rule: bt_insert.induct)
  case (2 k v k' v' m)
  show ?case
  proof (cases "k < k'")
    case True
    then have "bt_get m k = None" using 2(2) by (auto simp: map_of_eq_None_iff)
    then show ?thesis using True by (auto simp: bt_values_def)
  next
    case False
    then show ?thesis using 2 by (cases "k = k'") (auto simp: bt_values_def not_less_iff_gr_or_eq split: option.splits)
  qed
qed (simp add: bt_values_def)

section \<open>Properties\<close>

text \<open>
  Retrying a write is the same as trying it once: an attempt fails with an error only before any
  data node was contacted and without changing anything, for a reason that the next attempt meets
  again. So the retry loops of both pipelines return what their first attempt returns, unless the
  metadata service reports the operation as committed.
\<close>

theorem retries_are_one_attempt:
  assumes "\<forall>i. \<nexists>m. ae_lookup (env i) gen = Inr (Some m)"
  shows "execute lib wr env max_retries gen request (x, c) =
      execute_once lib wr (env 0) request gen (x\<lparr> wx_session := snd (next_operation_id gen (wx_session x)) \<rparr>, c) \<and>
    ec_execute lib rs wr env max_retries gen v r data (x, c) =
      ec_execute_once lib rs wr (env 0) v r data gen (x\<lparr> wx_session := snd (next_operation_id gen (wx_session x)) \<rparr>, c)"
  by (simp add: execute_def execute_with_op_id_def ec_execute_def next_operation_id_def
      execute_attempts_single[OF assms] ec_execute_attempts_single del: execute_attempts.simps ec_execute_attempts.simps)

text \<open>
  The coalescing buffer keeps every byte: what a call hands out and what stays in the buffer
  together have the bytes that were buffered and the bytes of the new write, and the buffer stays
  ordered by stripe.
\<close>

theorem coalescing_conserves_bytes:
  assumes "bt_wf (co_pending b)" "add_write now w b = Some (flushed, b')"
  shows "bt_wf (co_pending b') \<and>
    sum_list (map (\<lambda>w. length (pw_data w)) flushed) + pending_bytes b' = pending_bytes b + length (pw_data w)"
proof (cases "cf_enabled (co_config b)")
  case False
  then show ?thesis using assms by (auto simp: add_write_def)
next
  case True
  let ?key = "fst (pw_block_range w) div co_stripe_size b * co_stripe_size b"
  let ?v = "case bt_get (co_pending b) ?key of Some existing \<Rightarrow> merge_pending existing w | None \<Rightarrow> w"
  let ?m = "bt_insert ?key ?v (co_pending b)"
  have "length (pw_data ?v) = (case bt_get (co_pending b) ?key of Some e \<Rightarrow> length (pw_data e) | None \<Rightarrow> 0) + length (pw_data w)"
    by (simp add: merge_pending_def split: option.split)
  then have total: "sum_list (map (\<lambda>w. length (pw_data w)) (bt_values ?m)) = pending_bytes b + length (pw_data w)"
    using sum_values_insert[OF assms(1), of "\<lambda>w. length (pw_data w)" ?key ?v] by (simp split: option.splits)
  have "co_stripe_size b \<noteq> 0" using assms(2) True by (auto simp: add_write_def)
  then have "(flushed, b') = flush_all (b\<lparr> co_pending := ?m \<rparr>) \<or> (flushed, b') = ([], b\<lparr> co_pending := ?m \<rparr>)"
    using assms(2) True by (auto simp: add_write_def Let_def split: if_splits)
  then show ?thesis
  proof
    assume "(flushed, b') = flush_all (b\<lparr> co_pending := ?m \<rparr>)"
    then have "flushed = bt_values ?m" "co_pending b' = []" by (simp_all add: flush_all_def)
    then show ?thesis using total by (simp add: bt_values_def)
  next
    assume "(flushed, b') = ([], b\<lparr> co_pending := ?m \<rparr>)"
    then have "flushed = []" "co_pending b' = ?m" by simp_all
    then show ?thesis using total assms(1) by simp
  qed
qed

text \<open>
  Coalescing does not keep blocks in place: when a write to a block is followed by a write to the
  block before it in the same stripe, the buffer merges them into one write that starts at the earlier
  block but whose data starts with the later one, and that goes to the volume of the first write
  whatever the volume of the second.
\<close>

theorem coalescing_misplaces_blocks:
  assumes "cf_enabled (co_config b)" "co_pending b = []" "co_stripe_size b \<noteq> 0"
    and "pw_block_range w1 = (n + 1, n + 2)" "pw_block_range w2 = (n, n + 1)" "n < n + 1" "n + 1 < n + 2"
    and "(n + 1) div co_stripe_size b = n div co_stripe_size b"
    and "length (pw_data w1) + length (pw_data w2) < cf_max_bytes (co_config b)"
    and "t2 - pw_received_at w1 < cf_max_delay (co_config b)"
  shows "\<exists>b1 b2. add_write t1 w1 b = Some ([], b1) \<and> add_write t2 w2 b1 = Some ([], b2) \<and>
    map pw_volume_id (fst (flush_all b2)) = [pw_volume_id w1] \<and>
    map pw_block_range (fst (flush_all b2)) = [(n, n + 2)] \<and>
    map pw_data (fst (flush_all b2)) = [pw_data w1 @ pw_data w2]"
proof -
  let ?key = "n div co_stripe_size b * co_stripe_size b"
  let ?b1 = "b\<lparr> co_pending := [(?key, w1)] \<rparr>"
  have 1: "add_write t1 w1 b = Some ([], ?b1)"
    using assms by (simp add: add_write_def bt_values_def)
  have m: "min (n + 1) n = n" "max (n + 2) (n + 1) = n + 2" using assms(6,7) by (simp_all add: min_def max_def)
  have 2: "add_write t2 w2 ?b1 = Some ([], ?b1\<lparr> co_pending := [(?key, merge_pending w1 w2)] \<rparr>)"
    using assms by (simp add: add_write_def bt_values_def)
  show ?thesis
    by (intro exI[of _ ?b1] exI conjI, rule 1, rule 2) (simp_all add: flush_all_def bt_values_def merge_pending_def assms m)
qed

section \<open>Concrete instances\<close>

definition demo_buffer :: CoalescingBuffer where
  "demo_buffer = \<lparr> co_config = \<lparr> cf_max_delay = 5, cf_max_bytes = 64, cf_enabled = True \<rparr>, co_pending = [], co_stripe_size = 4 \<rparr>"

definition demo_pending :: "u64 \<Rightarrow> bytes \<Rightarrow> PendingWrite" where
  "demo_pending block data = \<lparr> pw_volume_id = 3, pw_block_range = (block, block + 1), pw_data = data, pw_received_at = 10 \<rparr>"

theorem coalescing_conserves_bytes_witness:
  "\<exists>b'. add_write 11 (demo_pending 1 [7, 7]) demo_buffer = Some ([], b') \<and> pending_bytes b' = 2"
proof -
  have "add_write 11 (demo_pending 1 [7, 7]) demo_buffer =
    Some ([], demo_buffer\<lparr> co_pending := [(0, demo_pending 1 [7, 7])] \<rparr>)"
    by code_simp
  moreover from coalescing_conserves_bytes[OF _ this]
  have "pending_bytes (demo_buffer\<lparr> co_pending := [(0, demo_pending 1 [7, 7])] \<rparr>) = 2"
    by (simp add: demo_buffer_def demo_pending_def bt_values_def)
  ultimately show ?thesis by blast
qed

theorem coalescing_misplaces_blocks_witness:
  "\<exists>b1 b2. add_write 10 (demo_pending 1 [1, 1]) demo_buffer = Some ([], b1) \<and> add_write 11 (demo_pending 0 [2, 2]) b1 = Some ([], b2) \<and>
     map pw_block_range (fst (flush_all b2)) = [(0, 2)] \<and> map pw_data (fst (flush_all b2)) = [[1, 1, 2, 2]]"
proof -
  have "(1::u64) div 4 = 0" by code_simp
  then show ?thesis
    using coalescing_misplaces_blocks[of demo_buffer "demo_pending 1 [1, 1]" 0 "demo_pending 0 [2, 2]" 11 10]
    by (auto simp: demo_buffer_def demo_pending_def)
qed

definition demo_lib :: ClientLib where
  "demo_lib = \<lparr> cb_fmt = unary_text, cb_digest = demo_digest, cb_checksum = sum_hash, cb_show = (\<lambda>_. ''error'') \<rparr>"

definition demo_attempt :: AttemptEnv where
  "demo_attempt = \<lparr> ae_refresh = (\<lambda>c. (Inr (mc_epoch c), c)), ae_lookup = (\<lambda>_. Inr None), ae_schedule = id \<rparr>"

definition demo_paused :: WriteCtx where
  "demo_paused = \<lparr> wx_cache = cache_new, wx_session = \<lparr> ss_session_id = 2, ss_volume_id = 3, ss_operation_counter = 0 \<rparr>,
     wx_watermark = 0, wx_stale = \<lparr> sh_paused = True, sh_refresh_count = 0 \<rparr> \<rparr>"

theorem retries_are_one_attempt_witness:
  "fst (execute demo_lib (\<lambda>n a c. (None, c)) (\<lambda>_. demo_attempt) 3 8
     \<lparr> rw_volume_id = 3, rw_block_range = (0, 1), rw_data = [1], rw_extent_blocks = 1 \<rparr> (demo_paused, ())) =
   Inl (Storage ''writes paused due to stale epoch'')"
proof -
  have "\<forall>i::nat. \<nexists>m. ae_lookup ((\<lambda>_. demo_attempt) i) 8 = Inr (Some m)" by (simp add: demo_attempt_def)
  note retries_are_one_attempt[OF this, THEN conjunct1, of demo_lib "\<lambda>n a c. (None, c)" 3 _ demo_paused "()"]
  then show ?thesis by (simp add: execute_once_def demo_paused_def)
qed

end
