(* ===== verification/BlockDevice.thy ===== *)
theory BlockDevice
  imports WritePath DataNode
begin

text \<open>
  The block device of a mounted volume: the handler that turns requests of the kernel into writes and
  reads of extents (\<^verbatim>\<open>blockyard-ublk/src/block_handler.rs\<close>) and the device with its start, stop and request
  paths (\<^verbatim>\<open>blockyard-ublk/src/ublk.rs\<close>). The calls to the data nodes are the arguments \<^verbatim>\<open>wr\<close> and \<^verbatim>\<open>rd\<close>; \<^verbatim>\<open>data_plane\<close>
  extends the contract of the write pipelines by what reads rely on.
\<close>

section \<open>Requests\<close>

datatype IoOperation = IoRead | IoWrite | IoFlush | IoDiscard

record IoRequest =
  io_operation :: IoOperation
  io_offset_bytes :: u64
  io_length_bytes :: u32
  io_data :: "bytes option"
  io_tag :: u64

text \<open>\<^const>\<open>None\<close> is the division by a zero block size.\<close>

definition io_block_range :: "IoRequest \<Rightarrow> u64 \<Rightarrow> block_range option" where
  "io_block_range q bs =
     (if bs = 0 then None
      else Some (io_offset_bytes q div bs, of_nat (div_ceil (unat (io_offset_bytes q + ucast (io_length_bytes q))) (unat bs))))"

record VolumeConfig =
  vc_volume_id :: VolumeId
  vc_size_bytes :: u64
  vc_block_size :: u32
  vc_protection :: ProtectionPolicy
  vc_extent_size :: u64

definition extent_blocks :: "VolumeConfig \<Rightarrow> u64" where
  "extent_blocks cfg = max (vc_extent_size cfg div ucast (max (vc_block_size cfg) 1)) 1"

section \<open>The handler's state\<close>

record BlockHandler =
  bh_config :: VolumeConfig
  bh_lease :: LeaseManager
  bh_ctx :: WriteCtx

text \<open>
  What a request meets: per extent of a write the generated operation id and the answers to each
  attempt, and the answer to a refresh before a read. \<^verbatim>\<open>hv_order\<close> is the order in which the fragment
  reads of a stripe complete.
\<close>

record HandlerEnv =
  hv_op :: "nat \<Rightarrow> OperationId"
  hv_attempt :: "nat \<Rightarrow> nat \<Rightarrow> AttemptEnv"
  hv_refresh :: refresher
  hv_order :: "(nat \<times> NodeId) list \<Rightarrow> (nat \<times> NodeId) list"

definition max_retries :: u32 where
  "max_retries = 3"

section \<open>Writes\<close>

definition write_extent ::
  "ClientLib \<Rightarrow> RsLib \<Rightarrow> 'c write_rpc \<Rightarrow> (nat \<Rightarrow> AttemptEnv) \<Rightarrow> OperationId \<Rightarrow> VolumeConfig \<Rightarrow> block_range \<Rightarrow> bytes \<Rightarrow>
   WriteCtx \<times> 'c \<Rightarrow> (WriteOutcome, Error) result \<times> WriteCtx \<times> 'c" where
  "write_extent lib rs wr env op cfg r chunk st =
     (case vc_protection cfg of
        Replicated _ \<Rightarrow>
          execute lib wr env max_retries op
            \<lparr> rw_volume_id = vc_volume_id cfg, rw_block_range = r, rw_data = chunk, rw_extent_blocks = extent_blocks cfg \<rparr> st
      | ErasureCoded _ _ \<Rightarrow> ec_execute lib rs wr env max_retries op (vc_volume_id cfg) r chunk st)"

fun outcome_error :: "WriteOutcome \<Rightarrow> Error option" where
  "outcome_error (Committed _) = None"
| "outcome_error StaleEpoch = Some (Storage ''write rejected: stale epoch'')"
| "outcome_error (InsufficientAcks acked required) =
     Some (Storage (''write failed: insufficient acks ('' @ decimal acked @ ''/'' @ decimal required @ '')''))"
| "outcome_error (MetadataCommitFailed reason) = Some (Storage (''write failed: metadata commit failed: '' @ reason))"

text \<open>
  The loop over the extents of a request. The result \<^const>\<open>None\<close> means that the loop has not ended
  after \<^verbatim>\<open>fuel\<close> iterations, which happens only when the start of the next extent wraps around.
\<close>

primrec write_loop ::
  "ClientLib \<Rightarrow> RsLib \<Rightarrow> 'c write_rpc \<Rightarrow> HandlerEnv \<Rightarrow> VolumeConfig \<Rightarrow> bytes \<Rightarrow> u64 \<Rightarrow> nat \<Rightarrow> nat \<Rightarrow> nat \<Rightarrow> u64 \<Rightarrow> WriteCtx \<times> 'c \<Rightarrow>
   ((unit, Error) result \<times> WriteCtx \<times> 'c) option" where
  "write_loop lib rs wr env cfg data end_block 0 i off cur st = (if cur < end_block then None else Some (Inr (), st))"
| "write_loop lib rs wr env cfg data end_block (Suc fuel) i off cur st =
     (if \<not> cur < end_block then Some (Inr (), st)
      else
        (let extent_num = cur div extent_blocks cfg;
             next_start = (extent_num + 1) * extent_blocks cfg;
             stop = min next_start end_block;
             byte_len = min (unat (stop - cur) * unat (vc_block_size cfg)) (length data - off);
             chunk = take byte_len (drop off data)
         in case write_extent lib rs wr (hv_attempt env i) (hv_op env i) cfg (cur, stop) chunk st of
              (Inl e, st') \<Rightarrow> Some (Inl e, st')
            | (Inr outcome, st') \<Rightarrow>
                (case outcome_error outcome of
                   Some e \<Rightarrow> Some (Inl e, st')
                 | None \<Rightarrow> write_loop lib rs wr env cfg data end_block fuel (i + 1) (off + byte_len) stop st')))"

definition device_write ::
  "ClientLib \<Rightarrow> RsLib \<Rightarrow> 'c write_rpc \<Rightarrow> HandlerEnv \<Rightarrow> IoRequest \<Rightarrow> BlockHandler \<times> 'c \<Rightarrow>
   ((bytes option, Error) result \<times> BlockHandler \<times> 'c) option" where
  "device_write lib rs wr env q s =
     (let (h, c) = s in
      if lm_state (bh_lease h) \<noteq> LsActive then Some (Inl (AuthError ''write lease not active''), s)
      else case check_write_allowed (bh_lease h) of
        Inl e \<Rightarrow> Some (Inl e, s)
      | Inr _ \<Rightarrow>
          (case io_block_range q (ucast (vc_block_size (bh_config h))) of
             None \<Rightarrow> None
           | Some r \<Rightarrow>
               (case io_data q of
                  None \<Rightarrow> Some (Inl (Storage ''write request missing data''), s)
                | Some data \<Rightarrow>
                    map_option (\<lambda>(res, x, c'). (case res of Inl e \<Rightarrow> Inl e | Inr _ \<Rightarrow> Inr None, h\<lparr> bh_ctx := x \<rparr>, c'))
                      (write_loop lib rs wr env (bh_config h) data (snd r) (unat (snd r) - unat (fst r)) 0 0 (fst r) (bh_ctx h, c)))))"

section \<open>Reads\<close>

record ReadCall =
  rl_volume_id :: VolumeId
  rl_extent_id :: ExtentId
  rl_extent_version :: u64
  rl_offset :: u64
  rl_length :: u64

text \<open>A read call to a node: the data or the text of the error.\<close>

type_synonym 'c read_rpc = "NodeId \<Rightarrow> ReadCall \<Rightarrow> 'c \<Rightarrow> (bytes, string) result \<times> 'c"

fun read_from_replicas ::
  "(uuid \<Rightarrow> string) \<Rightarrow> 'c read_rpc \<Rightarrow> MetadataCache \<Rightarrow> ReadCall \<Rightarrow> NodeId list \<Rightarrow> string option \<Rightarrow> 'c \<Rightarrow> (bytes, Error) result \<times> 'c" where
  "read_from_replicas fmt rd cache q [] last_error c =
     (Inl (case last_error of
             Some e \<Rightarrow> Storage (''all replicas failed: '' @ e)
           | None \<Rightarrow> Storage ''no reachable replicas''), c)"
| "read_from_replicas fmt rd cache q (n # ns) last_error c =
     (if get_node fmt cache n = None then read_from_replicas fmt rd cache q ns last_error c
      else case rd n q c of
        (Inr data, c') \<Rightarrow> (Inr data, c')
      | (Inl e, c') \<Rightarrow> read_from_replicas fmt rd cache q ns (Some e) c')"

definition block_call :: "ClientLib \<Rightarrow> VolumeConfig \<Rightarrow> u64 \<Rightarrow> u64 \<Rightarrow> u64 \<Rightarrow> ReadCall" where
  "block_call lib cfg block_num block_size len =
     (let (extent_num, block_offset) = block_to_extent block_num (extent_blocks cfg) in
      \<lparr> rl_volume_id = vc_volume_id cfg, rl_extent_id = extent_id_for_extent (cb_digest lib) (vc_volume_id cfg) extent_num,
        rl_extent_version = extent_version, rl_offset = block_offset * block_size, rl_length = len \<rparr>)"

definition block_replicas :: "ClientLib \<Rightarrow> VolumeConfig \<Rightarrow> MetadataCache \<Rightarrow> u64 \<Rightarrow> NodeId list" where
  "block_replicas lib cfg cache block_num =
     select_nodes (cb_digest lib) (vc_volume_id cfg) (fst (block_to_extent block_num (extent_blocks cfg)))
       (available_nodes cache) (case vc_protection cfg of Replicated n \<Rightarrow> unat n | ErasureCoded _ _ \<Rightarrow> 1)"

text \<open>
  One block of a replicated volume: the requested length of a single-block request, or a whole block.
  An error of all replicas reads as zeros.
\<close>

definition read_block ::
  "ClientLib \<Rightarrow> 'c read_rpc \<Rightarrow> VolumeConfig \<Rightarrow> MetadataCache \<Rightarrow> u64 \<Rightarrow> u64 \<Rightarrow> u64 \<Rightarrow> 'c \<Rightarrow> bytes \<times> 'c" where
  "read_block lib rd cfg cache block_num block_size len c =
     (let nodes = block_replicas lib cfg cache block_num in
      if nodes = [] then (replicate (unat len) 0, c)
      else case read_from_replicas (cb_fmt lib) rd cache (block_call lib cfg block_num block_size len) nodes None c of
        (Inr data, c') \<Rightarrow> (data, c')
      | (Inl _, c') \<Rightarrow> (replicate (unat len) 0, c'))"

definition read_single_block ::
  "ClientLib \<Rightarrow> 'c read_rpc \<Rightarrow> VolumeConfig \<Rightarrow> MetadataCache \<Rightarrow> IoRequest \<Rightarrow> u64 \<Rightarrow> u64 \<Rightarrow> 'c \<Rightarrow> bytes \<times> 'c" where
  "read_single_block lib rd cfg cache q block_num block_size c =
     read_block lib rd cfg cache block_num block_size (ucast (io_length_bytes q)) c"

definition read_single_block_data ::
  "ClientLib \<Rightarrow> 'c read_rpc \<Rightarrow> VolumeConfig \<Rightarrow> MetadataCache \<Rightarrow> u64 \<Rightarrow> u64 \<Rightarrow> 'c \<Rightarrow> bytes \<times> 'c" where
  "read_single_block_data lib rd cfg cache block_num block_size c =
     read_block lib rd cfg cache block_num block_size block_size c"

fun read_fragments ::
  "'c read_rpc \<Rightarrow> ReadCall \<Rightarrow> (nat \<times> NodeId) list \<Rightarrow> 'c \<Rightarrow> (nat \<times> (bytes, string) result) list \<times> 'c" where
  "read_fragments rd q [] c = ([], c)"
| "read_fragments rd q ((i, n) # jobs) c =
     (case rd n q c of
        (r, c1) \<Rightarrow> (case read_fragments rd q jobs c1 of (rest, c2) \<Rightarrow> ((i, r) # rest, c2)))"

definition fragment_at :: "(nat \<times> (bytes, string) result) list \<Rightarrow> nat \<Rightarrow> bytes option" where
  "fragment_at results i = (case map_of results i of Some (Inr data) \<Rightarrow> Some data | _ \<Rightarrow> None)"

definition stripe_block :: "bytes \<Rightarrow> nat \<Rightarrow> nat \<Rightarrow> bytes" where
  "stripe_block stripe off bs =
     (if off \<ge> length stripe then replicate bs 0
      else (let block = take bs (drop off stripe) in block @ replicate (bs - length block) 0))"

definition read_ec_block_data ::
  "ClientLib \<Rightarrow> RsLib \<Rightarrow> 'c read_rpc \<Rightarrow> ((nat \<times> NodeId) list \<Rightarrow> (nat \<times> NodeId) list) \<Rightarrow> VolumeConfig \<Rightarrow> MetadataCache \<Rightarrow>
   u64 \<Rightarrow> u64 \<Rightarrow> 'c \<Rightarrow> (bytes, Error) result \<times> 'c" where
  "read_ec_block_data lib rs rd order cfg cache block_num block_size c =
     (let aligned_start = block_num div extent_blocks cfg * extent_blocks cfg;
          block_offset = block_num - aligned_start;
          q = \<lparr> rl_volume_id = vc_volume_id cfg,
                rl_extent_id = extent_id_for_extent (cb_digest lib) (vc_volume_id cfg) aligned_start,
                rl_extent_version = extent_version, rl_offset = 0, rl_length = 0 \<rparr>
      in case vc_protection cfg of
           Replicated _ \<Rightarrow> (Inl (Storage ''EC read called on non-EC volume''), c)
         | ErasureCoded k m \<Rightarrow>
             (let total = unat k + unat m;
                  nodes = select_nodes (cb_digest lib) (vc_volume_id cfg) aligned_start (available_nodes cache) total
              in if nodes = [] then (Inr (replicate (unat block_size) 0), c)
                 else
                   (let (results, c') = read_fragments rd q (order (enumerate 0 nodes)) c;
                        shards = map (fragment_at results) [0..<total]
                    in if list_all (\<lambda>s. s = None) shards then (Inr (replicate (unat block_size) 0), c')
                       else case rs_new rs (unat k) (unat m) of
                         Some e \<Rightarrow> (Inl (Storage (''Reed-Solomon init failed: '' @ e)), c')
                       | None \<Rightarrow>
                           (case rs_reconstruct rs (unat k) (unat m) shards of
                              Inl e \<Rightarrow> (Inl (Storage (''EC reconstruction failed: '' @ e)), c')
                            | Inr full \<Rightarrow>
                                (Inr (stripe_block (concat (map (\<lambda>s. case s of Some d \<Rightarrow> d | None \<Rightarrow> []) (take (unat k) full)))
                                        (unat (block_offset * block_size)) (unat block_size)), c')))))"

definition read_data_block ::
  "ClientLib \<Rightarrow> RsLib \<Rightarrow> 'c read_rpc \<Rightarrow> HandlerEnv \<Rightarrow> VolumeConfig \<Rightarrow> MetadataCache \<Rightarrow> u64 \<Rightarrow> u64 \<Rightarrow> 'c \<Rightarrow> (bytes, Error) result \<times> 'c" where
  "read_data_block lib rs rd env cfg cache block_num block_size c =
     (case vc_protection cfg of
        ErasureCoded _ _ \<Rightarrow> read_ec_block_data lib rs rd (hv_order env) cfg cache block_num block_size c
      | Replicated _ \<Rightarrow> (let (data, c') = read_single_block_data lib rd cfg cache block_num block_size c in (Inr data, c')))"

fun read_blocks ::
  "ClientLib \<Rightarrow> RsLib \<Rightarrow> 'c read_rpc \<Rightarrow> HandlerEnv \<Rightarrow> VolumeConfig \<Rightarrow> MetadataCache \<Rightarrow> u64 \<Rightarrow> u64 list \<Rightarrow> 'c \<Rightarrow>
   (bytes, Error) result \<times> 'c" where
  "read_blocks lib rs rd env cfg cache bs [] c = (Inr [], c)"
| "read_blocks lib rs rd env cfg cache bs (b # blocks) c =
     (case read_data_block lib rs rd env cfg cache b bs c of
        (Inl e, c1) \<Rightarrow> (Inl e, c1)
      | (Inr data, c1) \<Rightarrow>
          (case read_blocks lib rs rd env cfg cache bs blocks c1 of
             (Inl e, c2) \<Rightarrow> (Inl e, c2)
           | (Inr rest, c2) \<Rightarrow> (Inr (data @ rest), c2)))"

definition device_read ::
  "ClientLib \<Rightarrow> RsLib \<Rightarrow> 'c read_rpc \<Rightarrow> HandlerEnv \<Rightarrow> IoRequest \<Rightarrow> BlockHandler \<times> 'c \<Rightarrow>
   ((bytes option, Error) result \<times> BlockHandler \<times> 'c) option" where
  "device_read lib rs rd env q s =
     (let (h, c) = s; cfg = bh_config h; x = bh_ctx h;
          (refreshed, cache) =
            (if watermark_is_fresh (wx_watermark x) (mc_epoch (wx_cache x)) then (Inr (), wx_cache x)
             else case hv_refresh env (wx_cache x) of
               (Inl e, ca) \<Rightarrow> (Inl e, ca)
             | (Inr _, ca) \<Rightarrow> (Inr (), ca));
          h' = h\<lparr> bh_ctx := x\<lparr> wx_cache := cache \<rparr> \<rparr>;
          bs = ucast (vc_block_size cfg)
      in case refreshed of
           Inl e \<Rightarrow> Some (Inl e, h', c)
         | Inr _ \<Rightarrow>
             (case io_block_range q bs of
                None \<Rightarrow> None
              | Some r \<Rightarrow>
                  (let num_blocks = unat (snd r - fst r) in
                   if num_blocks \<le> 1 then
                     (case vc_protection cfg of
                        ErasureCoded _ _ \<Rightarrow>
                          (let (res, c') = read_ec_block_data lib rs rd (hv_order env) cfg cache (fst r) bs c
                           in Some (map_sum id Some res, h', c'))
                      | Replicated _ \<Rightarrow>
                          (let (data, c') = read_single_block lib rd cfg cache q (fst r) bs c in Some (Inr (Some data), h', c')))
                   else
                     (let (res, c') = read_blocks lib rs rd env cfg cache bs (range_blocks r) c
                      in Some (map_sum id (\<lambda>d. Some (take (unat (io_length_bytes q)) d)) res, h', c')))))"

definition handle_io ::
  "ClientLib \<Rightarrow> RsLib \<Rightarrow> 'c write_rpc \<Rightarrow> 'c read_rpc \<Rightarrow> HandlerEnv \<Rightarrow> IoRequest \<Rightarrow> BlockHandler \<times> 'c \<Rightarrow>
   ((bytes option, Error) result \<times> BlockHandler \<times> 'c) option" where
  "handle_io lib rs wr rd env q s =
     (case io_operation q of
        IoWrite \<Rightarrow> device_write lib rs wr env q s
      | IoRead \<Rightarrow> device_read lib rs rd env q s
      | IoFlush \<Rightarrow> Some (Inr None, s)
      | IoDiscard \<Rightarrow> Some (Inr None, s))"

section \<open>The device\<close>

datatype DeviceMode = DmIdle | DmMock | DmKernel string int

record UblkDevice =
  ud_device_size_bytes :: u64
  ud_running :: bool
  ud_mode :: DeviceMode

definition device_path :: "UblkDevice \<Rightarrow> string option" where
  "device_path d = (case ud_mode d of DmKernel p _ \<Rightarrow> Some p | _ \<Rightarrow> None)"

definition ublk_start :: "UblkDevice \<Rightarrow> (unit, Error) result \<times> UblkDevice" where
  "ublk_start d =
     (if ud_device_size_bytes d = 0 then (Inl (Config ''device size must be > 0''), d)
      else (Inr (), d\<lparr> ud_mode := DmMock, ud_running := True \<rparr>))"

definition ublk_stop :: "UblkDevice \<Rightarrow> UblkDevice" where
  "ublk_stop d = d\<lparr> ud_running := False, ud_mode := DmIdle \<rparr>"

definition submit_io ::
  "(IoRequest \<Rightarrow> 's \<Rightarrow> ((bytes option, Error) result \<times> 's) option) \<Rightarrow> UblkDevice \<Rightarrow> IoRequest \<Rightarrow> 's \<Rightarrow>
   ((bytes option, Error) result \<times> 's) option" where
  "submit_io handler d q s =
     (if \<not> ud_running d then Some (Inl (Storage ''device not running''), s) else handler q s)"

text \<open>
  A command of the kernel: operation flags, first sector, number of sectors and the command's buffer. It
  completes with a byte count or an error number; \<^const>\<open>None\<close> is a panic.
\<close>

record IoDesc =
  id_op_flags :: u32
  id_start_sector :: u64
  id_nr_sectors :: u32

datatype Completion = IoResult int | IoErrno int

definition decode_op :: "u32 \<Rightarrow> IoOperation option" where
  "decode_op flags =
     (let op = take_bit 8 flags in
      if op = 0 then Some IoRead else if op = 1 then Some IoWrite
      else if op = 2 then Some IoFlush else if op = 3 then Some IoDiscard else None)"

definition kernel_io ::
  "(IoRequest \<Rightarrow> 's \<Rightarrow> ((bytes option, Error) result \<times> 's) option) \<Rightarrow> u64 \<Rightarrow> IoDesc \<Rightarrow> bytes \<Rightarrow> 's \<Rightarrow>
   (Completion \<times> bytes \<times> 's) option" where
  "kernel_io handler tag iod buf s =
     (let len = id_nr_sectors iod * 512 in
      case decode_op (id_op_flags iod) of
        None \<Rightarrow> Some (IoErrno (- 95), buf, s)
      | Some op \<Rightarrow>
          if op = IoWrite \<and> length buf < unat len then None
          else
            (case handler \<lparr> io_operation = op, io_offset_bytes = id_start_sector iod * 512, io_length_bytes = len,
                            io_data = (if op = IoWrite then Some (take (unat len) buf) else None), io_tag = tag \<rparr> s of
               None \<Rightarrow> None
             | Some (Inl _, s') \<Rightarrow> Some (IoErrno (- 5), buf, s')
             | Some (Inr data, s') \<Rightarrow>
                 Some (IoResult (sint len),
                       (case data of
                          Some d \<Rightarrow> if op = IoRead then take (min (length d) (length buf)) d @ drop (length d) buf else buf
                        | None \<Rightarrow> buf), s')))"

section \<open>The contract of the data nodes for reads\<close>

text \<open>
  A successful read returns a range of what the node holds, a read changes neither what is held nor
  whether other nodes serve reads, and a node that serves a call answers it and stays as it is.
\<close>

locale data_plane = write_plane wr held fresh at_most good
  for wr :: "'c write_rpc" and held :: "'c \<Rightarrow> NodeId \<Rightarrow> ExtentId \<Rightarrow> u64 \<Rightarrow> bytes option"
    and fresh :: "'c \<Rightarrow> NodeId \<Rightarrow> OperationId \<Rightarrow> bool" and at_most :: "'c \<Rightarrow> NodeId \<Rightarrow> ExtentId \<Rightarrow> u64 \<Rightarrow> bytes \<Rightarrow> bool"
    and good :: "'c \<Rightarrow> bool" +
  fixes rd :: "'c read_rpc" and serves :: "'c \<Rightarrow> NodeId \<Rightarrow> ReadCall \<Rightarrow> bool"
  assumes rd_sound: "good c \<Longrightarrow> rd n q c = (Inr d, c') \<Longrightarrow>
      \<exists>data. held c n (rl_extent_id q) (rl_extent_version q) = Some data \<and> read_range data (rl_offset q) (rl_length q) = Some d"
    and rd_good: "good c \<Longrightarrow> rd n q c = (r, c') \<Longrightarrow> good c'"
    and rd_held: "good c \<Longrightarrow> rd n q c = (r, c') \<Longrightarrow> held c' n' x v = held c n' x v"
    and rd_serves: "good c \<Longrightarrow> rd n q c = (r, c') \<Longrightarrow> n' \<noteq> n \<Longrightarrow> serves c' n' q' = serves c n' q'"
    and rd_live: "good c \<Longrightarrow> serves c n q \<Longrightarrow> held c n (rl_extent_id q) (rl_extent_version q) = Some data \<Longrightarrow>
      read_range data (rl_offset q) (rl_length q) = Some d \<Longrightarrow> rd n q c = (Inr d, c)"
begin

lemma read_from_replicas_held:
  assumes "good c" "\<exists>n \<in> set nodes. get_node fmt cache n \<noteq> None"
    and "\<forall>n \<in> set nodes. serves c n q \<and> (\<exists>data. held c n (rl_extent_id q) (rl_extent_version q) = Some data \<and>
           read_range data (rl_offset q) (rl_length q) = Some d)"
  shows "read_from_replicas fmt rd cache q nodes last_error c = (Inr d, c)"
  using assms(2,3)
proof (induction nodes)
  case (Cons n ns)
  then obtain data where "held c n (rl_extent_id q) (rl_extent_version q) = Some data" "read_range data (rl_offset q) (rl_length q) = Some d"
    and "serves c n q" by auto
  note rd_live[OF assms(1) this(3,1,2)]
  then show ?case using Cons by (cases "get_node fmt cache n") auto
qed simp

lemma read_from_replicas_sound:
  assumes "good c" "read_from_replicas fmt rd cache q nodes last_error c = (Inr d, c')"
  shows "\<exists>n \<in> set nodes. \<exists>data. held c n (rl_extent_id q) (rl_extent_version q) = Some data \<and>
    read_range data (rl_offset q) (rl_length q) = Some d"
  using assms
proof (induction nodes arbitrary: last_error c)
  case (Cons n ns)
  obtain r c1 where r: "rd n q c = (r, c1)" by fastforce
  show ?case
  proof (cases "get_node fmt cache n = None \<or> (\<exists>e. r = Inl e)")
    case True
    have same: "held c1 n' x v = held c n' x v" for n' x v by (rule rd_held[OF Cons.prems(1) r])
    from True have "(\<exists>le. read_from_replicas fmt rd cache q ns le c = (Inr d, c')) \<or> (\<exists>le. read_from_replicas fmt rd cache q ns le c1 = (Inr d, c'))"
      using Cons.prems(2) r by (auto split: if_splits sum.splits)
    then show ?thesis using Cons.IH[OF Cons.prems(1)] Cons.IH[OF rd_good[OF Cons.prems(1) r]] same by fastforce
  next
    case False
    then have "r = Inr d" using Cons.prems(2) r by (cases r) auto
    then show ?thesis using rd_sound[OF Cons.prems(1) r[unfolded \<open>r = _\<close>]] by auto
  qed
qed simp

end

end
