(* ===== verification/DeviceIo.thy ===== *)
theory DeviceIo
  imports BlockDevice
begin

text \<open>
  What the block device guarantees over data nodes that keep the contract of \<^verbatim>\<open>data_plane\<close>: the loop over the
  extents of a write ends and leaves every replica of the extents with the request's bytes, whole-extent
  writes are read back, a write inside an extent is misplaced, stripes are rebuilt from any sufficient set
  of fragments, and blocks that no node holds read as zeros.
\<close>

section \<open>Facts about the write loop\<close>

lemma extent_blocks_pos: "extent_blocks cfg \<noteq> 0" "0 < unat (extent_blocks cfg)" "max (extent_blocks cfg) 1 = extent_blocks cfg"
proof -
  have "1 \<le> extent_blocks cfg" by (simp add: extent_blocks_def)
  then show "extent_blocks cfg \<noteq> 0" by (metis le_zero_eq word_coorder.extremum_uniqueI zero_neq_one)
  then show "0 < unat (extent_blocks cfg)" by (simp add: unat_gt_0)
  show "max (extent_blocks cfg) 1 = extent_blocks cfg" using \<open>1 \<le> _\<close> by (simp add: max_def)
qed

text \<open>One iteration on the values of the words, when the start of the next extent does not wrap.\<close>

lemma next_extent_start:
  fixes cur eb :: u64
  assumes "eb \<noteq> 0" "unat cur + unat eb < 2 ^ 64"
  shows "unat ((cur div eb + 1) * eb) = (unat cur div unat eb + 1) * unat eb" "cur < (cur div eb + 1) * eb"
proof -
  let ?q = "unat cur div unat eb"
  have le: "?q * unat eb \<le> unat cur" by simp
  have lt: "unat cur < (?q + 1) * unat eb"
    using dividend_less_div_times[of "unat eb" "unat cur"] assms(1) by (simp add: unat_gt_0 algebra_simps)
  have "(?q + 1) * unat eb = ?q * unat eb + unat eb" by simp
  with le assms(2) have b: "(?q + 1) * unat eb < 2 ^ 64" by linarith
  have "?q + 1 < 2 ^ 64"
  proof -
    have "1 \<le> unat eb" using assms(1) by (simp add: Suc_le_eq unat_gt_0)
    then have "?q + 1 \<le> (?q + 1) * unat eb" using mult_le_mono2[of 1 "unat eb" "?q + 1"] by (simp only: mult_1_right)
    then show ?thesis using b by (rule le_less_trans)
  qed
  then have "unat (cur div eb + 1) = ?q + 1" by (subst unat_add_lem[THEN iffD1]) (simp_all add: unat_div)
  then show 1: "unat ((cur div eb + 1) * eb) = (?q + 1) * unat eb"
    using b by (subst unat_mult_lem[THEN iffD1]) simp_all
  show "cur < (cur div eb + 1) * eb" using lt by (simp add: word_less_nat_alt 1)
qed


lemma execute_single:
  assumes "\<forall>i. \<nexists>m. ae_lookup (env i) gen = Inr (Some m)"
  shows "execute lib wr env mr gen request (x, c) =
    execute_once lib wr (env 0) request gen (x\<lparr> wx_session := snd (next_operation_id gen (wx_session x)) \<rparr>, c)"
  by (simp add: execute_def execute_with_op_id_def next_operation_id_def execute_attempts_single[OF assms] del: execute_attempts.simps)

lemma execute_once_jobs:
  assumes "\<forall>jobs. mset (ae_schedule env jobs) = mset jobs"
  shows "\<exists>jobs. snd (snd (execute_once lib wr env request op (x, c))) = snd (transmit wr (cb_show lib) jobs c) \<and>
    (\<forall>(n, a) \<in> set jobs. wc_operation_id a = op \<and>
       wc_extent_id a = extent_id_for_extent (cb_digest lib) (rw_volume_id request) (extent_of request))"
proof -
  have jobs: "\<forall>(n, a) \<in> set (ae_schedule env (write_calls lib request op sess ep en nodes)). wc_operation_id a = op \<and>
      wc_extent_id a = extent_id_for_extent (cb_digest lib) (rw_volume_id request) en" for sess ep en nodes
    unfolding mset_eq_setD[OF assms[rule_format]] by (auto simp: write_calls_def)
  have none: ?thesis if "snd (snd (execute_once lib wr env request op (x, c))) = c"
    by (rule exI[of _ "[]"]) (simp add: that)
  show ?thesis
  proof (cases "sh_paused (wx_stale x) \<or> cache_get_volume (cb_fmt lib) (wx_cache x) (rw_volume_id request) = None")
    case True
    then show ?thesis by (intro none) (auto simp: execute_once_def Let_def)
  next
    case False
    then obtain info where info: "\<not> sh_paused (wx_stale x)" "cache_get_volume (cb_fmt lib) (wx_cache x) (rw_volume_id request) = Some info" by auto
    let ?nodes = "replica_nodes lib (cv_protection info) (rw_volume_id request) (extent_of request) (available_nodes (wx_cache x))"
    let ?jobs = "ae_schedule env (write_calls lib request op (ss_session_id (wx_session x)) (mc_epoch (wx_cache x)) (extent_of request) ?nodes)"
    show ?thesis
    proof (cases "?nodes = []")
      case True
      then show ?thesis using info by (intro none) (simp add: execute_once_def extent_of_def Let_def)
    next
      case ne: False
      obtain acks c2 where t: "transmit wr (cb_show lib) ?jobs c = (acks, c2)" by fastforce
      then have "snd (snd (execute_once lib wr env request op (x, c))) = c2"
        using info ne by (simp add: execute_once_def extent_of_def Let_def)
      then show ?thesis using t jobs by (intro exI[of _ ?jobs]) auto
    qed
  qed
qed

context write_plane
begin

lemma execute_once_keeps:
  fixes lib request op x
  assumes "good c" "\<forall>jobs. mset (ae_schedule env jobs) = mset jobs"
  defines "c' \<equiv> snd (snd (execute_once lib wr env request op (x, c)))"
  shows "good c'" "fresh c n op' \<Longrightarrow> op' \<noteq> op \<Longrightarrow> fresh c' n op'"
    "e \<noteq> extent_id_for_extent (cb_digest lib) (rw_volume_id request) (extent_of request) \<Longrightarrow> held c' n e v = held c n e v"
proof -
  obtain jobs where j: "c' = snd (transmit wr (cb_show lib) jobs c)"
    "\<forall>(n, a) \<in> set jobs. wc_operation_id a = op \<and>
       wc_extent_id a = extent_id_for_extent (cb_digest lib) (rw_volume_id request) (extent_of request)"
    unfolding c'_def using execute_once_jobs[OF assms(2), of lib wr request op x c] by (elim exE conjE)
  show "good c'" unfolding j(1) by (rule transmit_good[OF assms(1)])
  show "fresh c' n op'" if "fresh c n op'" "op' \<noteq> op"
    unfolding j(1) by (rule transmit_fresh[OF assms(1) that(1)]) (use j(2) that(2) in fastforce)
  show "held c' n e v = held c n e v" if "e \<noteq> extent_id_for_extent (cb_digest lib) (rw_volume_id request) (extent_of request)"
    unfolding j(1) by (rule transmit_frame[OF assms(1)]) (use j(2) that in fastforce)
qed

text \<open>With one or two replicas a commit means that every replica holds the data.\<close>

lemma committed_everywhere:
  assumes "execute_once lib wr env request op (x, c) = (Inr (Committed e), x', c')"
    and "good c" "cache_nodes_ok (cb_fmt lib) (wx_cache x)" "\<forall>n. fresh c n op" "\<forall>jobs. mset (ae_schedule env jobs) = mset jobs"
    and "cache_get_volume (cb_fmt lib) (wx_cache x) (rw_volume_id request) = Some info" "cv_protection info = Replicated r" "unat r \<le> 2"
  shows "\<forall>n \<in> set (select_nodes (cb_digest lib) (rw_volume_id request) (extent_of request) (available_nodes (wx_cache x)) (unat r)).
    held c' n (extent_id_for_extent (cb_digest lib) (rw_volume_id request) (extent_of request)) extent_version = Some (rw_data request)"
proof -
  let ?nodes = "select_nodes (cb_digest lib) (rw_volume_id request) (extent_of request) (available_nodes (wx_cache x)) (unat r)"
  from execute_once_committed[OF assms(1-5)] assms(6,7) obtain S where S: "S \<subseteq> set ?nodes" "required_acks (Replicated r) \<le> card S"
    "\<forall>n \<in> S. held c' n (extent_id_for_extent (cb_digest lib) (rw_volume_id request) (extent_of request)) extent_version = Some (rw_data request)"
    by (auto simp: replica_nodes_def)
  have "unat r = 0 \<or> unat r = 1 \<or> unat r = 2" using assms(8) by arith
  then have "required_acks (Replicated r) = unat r" by (auto simp: required_acks_def Let_def)
  moreover have "card (set ?nodes) \<le> unat r"
    by (rule order_trans[OF card_length]) (simp add: length_select_nodes)
  ultimately have "card (set ?nodes) \<le> card S" using S(2) by linarith
  then have "S = set ?nodes" by (rule card_seteq[OF finite_set S(1)])
  with S(3) show ?thesis by simp
qed

end

definition env_ok :: "HandlerEnv \<Rightarrow> nat \<Rightarrow> bool" where
  "env_ok env m \<longleftrightarrow> inj_on (hv_op env) {..<m} \<and>
     (\<forall>j k. (\<forall>jobs. mset (ae_schedule (hv_attempt env j k) jobs) = mset jobs) \<and>
        (\<nexists>m. ae_lookup (hv_attempt env j k) (hv_op env j) = Inr (Some m)))"

definition volume_ok :: "ClientLib \<Rightarrow> VolumeConfig \<Rightarrow> MetadataCache \<Rightarrow> bool" where
  "volume_ok lib cfg cache \<longleftrightarrow> cache_nodes_ok (cb_fmt lib) cache \<and> inj (extent_id_for_extent (cb_digest lib) (vc_volume_id cfg)) \<and>
     (\<exists>info. cache_get_volume (cb_fmt lib) cache (vc_volume_id cfg) = Some info \<and> cv_protection info = vc_protection cfg)"

abbreviation block_extent :: "ClientLib \<Rightarrow> VolumeConfig \<Rightarrow> u64 \<Rightarrow> ExtentId" where
  "block_extent lib cfg b \<equiv> extent_id_for_extent (cb_digest lib) (vc_volume_id cfg) (b div extent_blocks cfg)"

text \<open>The bytes of block \<^verbatim>\<open>b\<close> in an extent's data, and in the data of a request that starts at block \<^verbatim>\<open>s\<close>.\<close>

definition block_of_extent :: "VolumeConfig \<Rightarrow> u64 \<Rightarrow> bytes \<Rightarrow> bytes" where
  "block_of_extent cfg b d = take (unat (vc_block_size cfg)) (drop (unat (b mod extent_blocks cfg) * unat (vc_block_size cfg)) d)"

definition block_of_request :: "VolumeConfig \<Rightarrow> u64 \<Rightarrow> u64 \<Rightarrow> bytes \<Rightarrow> bytes" where
  "block_of_request cfg s b d = take (unat (vc_block_size cfg)) (drop ((unat b - unat s) * unat (vc_block_size cfg)) d)"

lemma block_replicas_select:
  "vc_protection cfg = Replicated r \<Longrightarrow> block_replicas lib cfg cache b =
     select_nodes (cb_digest lib) (vc_volume_id cfg) (b div extent_blocks cfg) (available_nodes cache) (unat r)"
  by (simp add: block_replicas_def block_to_extent_def extent_blocks_pos Let_def)

lemma write_loop_done: "\<not> cur < e \<Longrightarrow> write_loop lib rs wr env cfg data e fuel i off cur st = Some (Inr (), st)"
  by (cases fuel) auto

lemma write_loop_committed:
  assumes "write_loop lib rs wr env cfg data e fuel i off cur (x, c) = Some (Inr (), x', c')" "cur < e"
    and "vc_protection cfg = Replicated r" "env_ok env m"
  defines "stop \<equiv> min ((cur div extent_blocks cfg + 1) * extent_blocks cfg) e"
  defines "n \<equiv> min (unat (stop - cur) * unat (vc_block_size cfg)) (length data - off)"
  obtains f ep x1 c1 where "fuel = Suc f"
    "execute_once lib wr (hv_attempt env i 0)
       \<lparr> rw_volume_id = vc_volume_id cfg, rw_block_range = (cur, stop), rw_data = take n (drop off data), rw_extent_blocks = extent_blocks cfg \<rparr>
       (hv_op env i) (x\<lparr> wx_session := snd (next_operation_id (hv_op env i) (wx_session x)) \<rparr>, c) = (Inr (Committed ep), x1, c1)"
    "write_loop lib rs wr env cfg data e f (i + 1) (off + n) stop (x1, c1) = Some (Inr (), x', c')"
proof -
  let ?q = "\<lparr> rw_volume_id = vc_volume_id cfg, rw_block_range = (cur, stop), rw_data = take n (drop off data), rw_extent_blocks = extent_blocks cfg \<rparr>"
  obtain f where f: "fuel = Suc f" using assms(1,2) by (cases fuel) auto
  have "\<forall>k. \<nexists>m. ae_lookup (hv_attempt env i k) (hv_op env i) = Inr (Some m)" using assms(4) by (simp add: env_ok_def)
  note single = execute_single[OF this, of lib wr max_retries ?q x c]
  obtain res x1 c1 where ex: "execute lib wr (hv_attempt env i) max_retries (hv_op env i) ?q (x, c) = (res, x1, c1)" by (metis surj_pair)
  have w: "write_extent lib rs wr (hv_attempt env i) (hv_op env i) cfg (cur, stop) (take n (drop off data)) (x, c) = (res, x1, c1)"
    using ex by (simp add: write_extent_def assms(3))
  have run: "Some (Inr (), x', c') = (case (res, x1, c1) of
      (Inl e, st') \<Rightarrow> Some (Inl e, st')
    | (Inr outcome, st') \<Rightarrow> (case outcome_error outcome of Some e \<Rightarrow> Some (Inl e, st')
        | None \<Rightarrow> write_loop lib rs wr env cfg data e f (i + 1) (off + n) stop st'))"
    unfolding w[symmetric] unfolding n_def stop_def using assms(1,2) by (simp add: f Let_def)
  obtain ep where res: "res = Inr (Committed ep)" using run
    by (cases res) (auto split: option.splits elim: outcome_error.elims)
  show thesis
    by (rule that[OF f trans[OF single[symmetric] ex[unfolded res]]]) (use run in \<open>simp add: res\<close>)
qed

text \<open>The blocks of one extent, when the request starts at an extent boundary.\<close>

lemma chunk_arith:
  fixes cur e eb :: u64
  assumes "eb \<noteq> 0" "cur < e" "unat e + unat eb < 2 ^ 64" "unat eb dvd unat cur"
  defines "stop \<equiv> min ((cur div eb + 1) * eb) e"
  shows "cur < stop" "stop \<le> e" "unat stop = min (unat cur + unat eb) (unat e)" "unat (stop - cur) = unat stop - unat cur"
    "stop < e \<Longrightarrow> unat eb dvd unat stop"
    "cur \<le> b \<Longrightarrow> b < stop \<Longrightarrow> b div eb = cur div eb \<and> unat (b mod eb) = unat b - unat cur"
    "stop \<le> b \<Longrightarrow> b < e \<Longrightarrow> b div eb \<noteq> cur div eb"
proof -
  have lt: "unat cur < unat e" using assms(2) by (simp add: word_less_nat_alt)
  have nw: "unat cur + unat eb < 2 ^ 64" using lt assms(3) by linarith
  have pos: "0 < unat eb" using assms(1) by (simp add: unat_gt_0)
  obtain k where k: "unat cur = unat eb * k" using assms(4) by (elim dvdE)
  have d: "unat cur div unat eb = k" using pos by (simp add: k)
  note nx = next_extent_start[OF assms(1) nw]
  have nx1: "unat ((cur div eb + 1) * eb) = unat cur + unat eb" unfolding nx(1) d by (simp add: k algebra_simps)
  show s: "unat stop = min (unat cur + unat eb) (unat e)" unfolding stop_def min_def by (simp add: word_le_nat_alt nx1)
  show cs: "cur < stop" using lt pos by (simp add: word_less_nat_alt s)
  show "stop \<le> e" by (simp add: stop_def)
  show "unat (stop - cur) = unat stop - unat cur" using cs by (intro unat_sub) simp
  show "unat eb dvd unat stop" if "stop < e"
  proof -
    have "unat stop < unat e" using that by (simp add: word_less_nat_alt)
    then have "unat stop = unat cur + unat eb" using s by linarith
    then show ?thesis using assms(4) by simp
  qed
  show "b div eb = cur div eb \<and> unat (b mod eb) = unat b - unat cur" if "cur \<le> b" "b < stop"
  proof -
    have b: "unat cur \<le> unat b" "unat b < unat cur + unat eb" using that s by (simp_all add: word_le_nat_alt word_less_nat_alt)
    then obtain i where i: "unat b = unat eb * k + i" "i < unat eb" using k by (metis le_Suc_ex nat_add_left_cancel_less)
    then have "unat b div unat eb = k" "unat b mod unat eb = i" using pos by simp_all
    then show ?thesis using i k d by (simp add: word_unat_eq_iff unat_div unat_mod)
  qed
  show "b div eb \<noteq> cur div eb" if "stop \<le> b" "b < e"
  proof -
    have "unat stop \<le> unat b" "unat b < unat e" using that by (simp_all add: word_le_nat_alt word_less_nat_alt)
    then have "unat eb * (k + 1) \<le> unat b" using s k by (simp add: algebra_simps)
    then have "k + 1 \<le> unat b div unat eb" using pos by (simp add: less_eq_div_iff_mult_less_eq mult.commute)
    then show ?thesis using d by (simp add: word_unat_eq_iff unat_div)
  qed
qed

lemma execute_once_watermark:
  assumes "execute_once lib wr env request op (x, c) = (Inr (Committed e), x', c')"
  shows "e = mc_epoch (wx_cache x)" "wx_cache x' = wx_cache x" "wx_watermark x' = snd (advance_to e (wx_watermark x))"
  using assms by (auto simp: execute_once_def Let_def split: if_splits option.splits prod.splits)

lemma take_of_chunk: "(i + 1) * bs \<le> n \<Longrightarrow> take bs (drop (i * bs) (take n xs)) = take bs (drop (i * bs) xs)"
  by (simp add: drop_take min_absorb1 le_diff_conv2)

context write_plane
begin

lemma write_loop_holds:
  assumes "write_loop lib rs wr env cfg data e fuel i off cur (x, c) = Some (Inr (), x', c')"
    and "vc_protection cfg = Replicated r" "unat r \<le> 2" "env_ok env m" "unat e + unat (extent_blocks cfg) < 2 ^ 64"
    and "volume_ok lib cfg (wx_cache x)" "good c" "\<forall>n j. i \<le> j \<and> j < m \<longrightarrow> fresh c n (hv_op env j)"
    and "unat (extent_blocks cfg) dvd unat cur" "off + (unat e - unat cur) * unat (vc_block_size cfg) = length data"
    and "i + fuel \<le> m"
  shows "wx_cache x' = wx_cache x \<and> good c' \<and> (wx_watermark x \<le> mc_epoch (wx_cache x) \<longrightarrow> wx_watermark x' \<le> mc_epoch (wx_cache x)) \<and>
    (\<forall>b n. cur \<le> b \<and> b < e \<and> n \<in> set (block_replicas lib cfg (wx_cache x) b) \<longrightarrow>
      (\<exists>d. held c' n (block_extent lib cfg b) extent_version = Some d \<and>
         (unat (b mod extent_blocks cfg) + 1) * unat (vc_block_size cfg) \<le> length d \<and>
         block_of_extent cfg b d = block_of_request cfg cur b (drop off data))) \<and>
    (\<forall>k n v. (\<forall>b. cur \<le> b \<and> b < e \<longrightarrow> b div extent_blocks cfg \<noteq> k) \<longrightarrow>
      held c' n (extent_id_for_extent (cb_digest lib) (vc_volume_id cfg) k) v = held c n (extent_id_for_extent (cb_digest lib) (vc_volume_id cfg) k) v)"
  using assms(1,6-11)
proof (induction fuel arbitrary: i off cur x c)
  case 0
  then have "\<not> cur < e" by (auto split: if_splits)
  moreover from this have "x' = x" "c' = c" using 0 write_loop_done[OF \<open>\<not> cur < e\<close>] by (metis Pair_inject option.inject)+
  ultimately show ?case using 0 by (auto simp: not_less)
next
  case (Suc fuel)
  show ?case
  proof (cases "cur < e")
    case False
    then have "x' = x" "c' = c" using Suc.prems(1) by simp_all
    then show ?thesis using False Suc.prems by (auto simp: not_less)
  next
    case True
    let ?eb = "extent_blocks cfg" and ?bs = "unat (vc_block_size cfg)"
    let ?stop = "min ((cur div ?eb + 1) * ?eb) e"
    let ?n = "min (unat (?stop - cur) * ?bs) (length data - off)"
    let ?q = "\<lparr> rw_volume_id = vc_volume_id cfg, rw_block_range = (cur, ?stop), rw_data = take ?n (drop off data), rw_extent_blocks = ?eb \<rparr>"
    let ?x = "x\<lparr> wx_session := snd (next_operation_id (hv_op env i) (wx_session x)) \<rparr>"
    note ar = chunk_arith[OF extent_blocks_pos(1) True assms(5) Suc.prems(5)]
    from write_loop_committed[OF Suc.prems(1) True assms(2,4)] obtain f ep x1 c1 where f: "Suc fuel = Suc f"
      and ex: "execute_once lib wr (hv_attempt env i 0) ?q (hv_op env i) (?x, c) = (Inr (Committed ep), x1, c1)"
      and rest: "write_loop lib rs wr env cfg data e f (i + 1) (off + ?n) ?stop (x1, c1) = Some (Inr (), x', c')" .
    have sched: "\<forall>jobs. mset (ae_schedule (hv_attempt env i 0) jobs) = mset jobs" using assms(4) by (simp add: env_ok_def)
    have eo: "extent_of ?q = cur div ?eb" by (simp add: extent_of_def extent_blocks_pos)
    obtain info where info: "cache_get_volume (cb_fmt lib) (wx_cache ?x) (rw_volume_id ?q) = Some info" "cv_protection info = Replicated r"
      using Suc.prems(2) assms(2) by (auto simp: volume_ok_def)
    have vok: "cache_nodes_ok (cb_fmt lib) (wx_cache ?x)" and inj: "inj (extent_id_for_extent (cb_digest lib) (vc_volume_id cfg))"
      using Suc.prems(2) by (simp_all add: volume_ok_def)
    have fr: "\<forall>n. fresh c n (hv_op env i)" using Suc.prems(4,7) by simp
    note ev = committed_everywhere[OF ex Suc.prems(3) vok fr sched info assms(3), unfolded eo]
    note wm = execute_once_watermark[OF ex]
    have kp: "good c1" "\<And>n op. fresh c n op \<Longrightarrow> op \<noteq> hv_op env i \<Longrightarrow> fresh c1 n op"
      "\<And>n k v. k \<noteq> cur div ?eb \<Longrightarrow> held c1 n (extent_id_for_extent (cb_digest lib) (vc_volume_id cfg) k) v =
         held c n (extent_id_for_extent (cb_digest lib) (vc_volume_id cfg) k) v"
      using execute_once_keeps[OF Suc.prems(3) sched, where lib = lib and request = ?q and op = "hv_op env i" and x = ?x, unfolded ex snd_conv eo] inj
      by (simp_all add: inj_eq)
    have len: "?n = (unat ?stop - unat cur) * ?bs" "unat ?stop \<le> unat e"
    proof -
      show le: "unat ?stop \<le> unat e" using ar(2) by (simp add: word_le_nat_alt)
      have "length data - off = (unat e - unat cur) * ?bs" using Suc.prems(6) by linarith
      moreover have "(unat ?stop - unat cur) * ?bs \<le> (unat e - unat cur) * ?bs" using le by (intro mult_le_mono1 diff_le_mono)
      ultimately show "?n = (unat ?stop - unat cur) * ?bs" unfolding ar(4) by (simp only: min_absorb1)
    qed
    have cache: "wx_cache x1 = wx_cache x" using wm(2) by simp
    have tail: "wx_cache x' = wx_cache x1 \<and> good c' \<and> (wx_watermark x1 \<le> mc_epoch (wx_cache x1) \<longrightarrow> wx_watermark x' \<le> mc_epoch (wx_cache x1)) \<and>
      (\<forall>b n. ?stop \<le> b \<and> b < e \<and> n \<in> set (block_replicas lib cfg (wx_cache x1) b) \<longrightarrow>
        (\<exists>d. held c' n (block_extent lib cfg b) extent_version = Some d \<and> (unat (b mod ?eb) + 1) * ?bs \<le> length d \<and>
           block_of_extent cfg b d = block_of_request cfg ?stop b (drop (off + ?n) data))) \<and>
      (\<forall>k n v. (\<forall>b. ?stop \<le> b \<and> b < e \<longrightarrow> b div ?eb \<noteq> k) \<longrightarrow>
        held c' n (extent_id_for_extent (cb_digest lib) (vc_volume_id cfg) k) v = held c1 n (extent_id_for_extent (cb_digest lib) (vc_volume_id cfg) k) v)"
    proof (cases "?stop < e")
      case s: True
      have "\<forall>n j. i + 1 \<le> j \<and> j < m \<longrightarrow> fresh c1 n (hv_op env j)"
      proof (intro allI impI)
        fix n j assume j: "i + 1 \<le> j \<and> j < m"
        then have "hv_op env j \<noteq> hv_op env i" using assms(4) Suc.prems(7) by (auto simp: env_ok_def inj_on_eq_iff)
        then show "fresh c1 n (hv_op env j)" using kp(2) Suc.prems(4) j by simp
      qed
      moreover have "off + ?n + (unat e - unat ?stop) * ?bs = length data"
      proof -
        have "(unat ?stop - unat cur) + (unat e - unat ?stop) = unat e - unat cur" using ar(1) len(2) by (simp add: word_less_nat_alt)
        then have "(unat ?stop - unat cur) * ?bs + (unat e - unat ?stop) * ?bs = (unat e - unat cur) * ?bs"
          by (simp only: add_mult_distrib[symmetric])
        then show ?thesis using Suc.prems(6) len(1) by linarith
      qed
      ultimately show ?thesis using rest f Suc.prems(2,7) cache kp(1) ar(5)[OF s]
        by (intro Suc.IH[of "i + 1" "off + ?n"]) simp_all
    next
      case False
      then have "x' = x1" "c' = c1" using trans[OF rest[symmetric] write_loop_done[OF False]] by simp_all
      then show ?thesis using False kp(1) by (auto simp: not_less)
    qed
    have blocks: "\<exists>d. held c' n (block_extent lib cfg b) extent_version = Some d \<and> (unat (b mod ?eb) + 1) * ?bs \<le> length d \<and>
           block_of_extent cfg b d = block_of_request cfg cur b (drop off data)"
      if b: "cur \<le> b" "b < e" and n: "n \<in> set (block_replicas lib cfg (wx_cache x) b)" for b n
    proof (cases "b < ?stop")
      case True
      note inb = ar(6)[OF b(1) True]
      let ?d = "take ?n (drop off data)"
      have "held c' n (extent_id_for_extent (cb_digest lib) (vc_volume_id cfg) (cur div ?eb)) extent_version =
          held c1 n (extent_id_for_extent (cb_digest lib) (vc_volume_id cfg) (cur div ?eb)) extent_version"
        using tail ar(7) by blast
      then have h: "held c' n (block_extent lib cfg b) extent_version = Some ?d"
        using ev n inb by (simp add: block_replicas_select[OF assms(2)])
      have "unat b - unat cur + 1 \<le> unat ?stop - unat cur" using True b(1) by (simp add: word_less_nat_alt word_le_nat_alt)
      then have fit: "(unat b - unat cur + 1) * ?bs \<le> ?n" unfolding len(1) by (rule mult_le_mono1)
      moreover have "?n \<le> length (drop off data)" by simp
      ultimately have "(unat (b mod ?eb) + 1) * ?bs \<le> length ?d" using inb by simp
      moreover have "block_of_extent cfg b ?d = block_of_request cfg cur b (drop off data)"
        using fit inb by (simp only: block_of_extent_def block_of_request_def take_of_chunk)
      ultimately show ?thesis using h by blast
    next
      case False
      then obtain d where d: "held c' n (block_extent lib cfg b) extent_version = Some d" "(unat (b mod ?eb) + 1) * ?bs \<le> length d"
        "block_of_extent cfg b d = block_of_request cfg ?stop b (drop (off + ?n) data)"
        using tail[THEN conjunct2, THEN conjunct2, THEN conjunct2, THEN conjunct1, rule_format, of b n] b(2) n
        unfolding cache not_less by blast
      have "(unat b - unat ?stop) * ?bs + (unat ?stop - unat cur) * ?bs = (unat b - unat cur) * ?bs"
        using False ar(1) by (simp add: word_less_nat_alt not_less flip: add_mult_distrib)
      then have "block_of_request cfg ?stop b (drop (off + ?n) data) = block_of_request cfg cur b (drop off data)"
        unfolding len(1) by (simp add: block_of_request_def add.commute add.left_commute)
      then show ?thesis using d by auto
    qed
    have "wx_watermark x' \<le> mc_epoch (wx_cache x)" if "wx_watermark x \<le> mc_epoch (wx_cache x)"
    proof -
      have "wx_watermark x1 \<le> mc_epoch (wx_cache x1)" using that wm by (simp add: advance_to_def)
      then show ?thesis using tail cache by simp
    qed
    moreover have "held c' n (extent_id_for_extent (cb_digest lib) (vc_volume_id cfg) k) v =
        held c n (extent_id_for_extent (cb_digest lib) (vc_volume_id cfg) k) v"
      if "\<forall>b. cur \<le> b \<and> b < e \<longrightarrow> b div ?eb \<noteq> k" for k n v
    proof -
      have "k \<noteq> cur div ?eb" using that True by blast
      moreover have "\<forall>b. ?stop \<le> b \<and> b < e \<longrightarrow> b div ?eb \<noteq> k" using that order_trans[OF less_imp_le[OF ar(1)]] by blast
      ultimately show ?thesis using tail kp(3) by metis
    qed
    ultimately show ?thesis using tail cache blocks by auto
  qed
qed

end

section \<open>Termination of the write loop\<close>

lemma write_loop_terminates:
  assumes "unat e + unat (extent_blocks cfg) < 2 ^ 64" "unat e - unat cur \<le> fuel"
  shows "write_loop lib rs wr env cfg data e fuel i off cur st \<noteq> None"
  using assms(2)
proof (induction fuel arbitrary: i off cur st)
  case 0
  then show ?case by (simp add: word_less_nat_alt)
next
  case (Suc fuel)
  show ?case
  proof (cases "cur < e")
    case True
    let ?stop = "min ((cur div extent_blocks cfg + 1) * extent_blocks cfg) e"
    have "unat cur < unat e" using True by (simp add: word_less_nat_alt)
    then have nw: "unat cur + unat (extent_blocks cfg) < 2 ^ 64" using assms(1) by linarith
    have "cur < ?stop" using next_extent_start(2)[OF extent_blocks_pos(1) nw] True by simp
    then have "unat e - unat ?stop \<le> fuel" using Suc.prems \<open>unat cur < unat e\<close> by (simp add: word_less_nat_alt)
    note Suc.IH[OF this]
    then show ?thesis using True by (simp add: Let_def split: prod.split sum.split option.split)
  qed (simp add: write_loop_done)
qed

section \<open>Reading blocks back\<close>

lemma extent_bytes:
  assumes "vc_block_size cfg \<noteq> 0"
  shows "unat (extent_blocks cfg) * unat (vc_block_size cfg) < 2 ^ 64"
proof -
  have one: "max (vc_block_size cfg) 1 = vc_block_size cfg" using assms
    by (metis linorder_not_le max.absorb1 max.absorb2 word_less_1)
  let ?n = "vc_extent_size cfg div ucast (vc_block_size cfg)"
  have n: "unat ?n * unat (vc_block_size cfg) \<le> unat (vc_extent_size cfg)" by (simp add: unat_div unat_ucast_u32)
  consider "extent_blocks cfg = ?n" | "extent_blocks cfg = 1" unfolding extent_blocks_def one by (metis max_def)
  then show ?thesis
  proof cases
    case 1
    then show ?thesis using n unat_lt_power[of "vc_extent_size cfg"] by simp
  next
    case 2
    then show ?thesis using unat_lt_power[of "vc_block_size cfg"] by simp
  qed
qed

lemma block_call_bound:
  assumes "vc_block_size cfg \<noteq> 0"
  shows "(unat (b mod extent_blocks cfg) + 1) * unat (vc_block_size cfg) < 2 ^ 64"
proof -
  have "unat (b mod extent_blocks cfg) < unat (extent_blocks cfg)" using extent_blocks_pos(2) by (simp add: unat_mod)
  then have "(unat (b mod extent_blocks cfg) + 1) * unat (vc_block_size cfg) \<le> unat (extent_blocks cfg) * unat (vc_block_size cfg)"
    by (intro mult_le_mono1) simp
  then show ?thesis using extent_bytes[OF assms(1)] by linarith
qed

lemma block_call_offset:
  assumes "vc_block_size cfg \<noteq> 0"
  shows "unat (rl_offset (block_call lib cfg b (ucast (vc_block_size cfg)) len)) = unat (b mod extent_blocks cfg) * unat (vc_block_size cfg)"
proof -
  have "rl_offset (block_call lib cfg b (ucast (vc_block_size cfg)) len) = (b mod extent_blocks cfg) * ucast (vc_block_size cfg)"
    by (simp add: block_call_def block_to_extent_def extent_blocks_pos Let_def)
  then show ?thesis using block_call_bound[OF assms, of b]
    by (simp only:) (subst unat_mult_lem[THEN iffD1], simp_all add: unat_ucast_u32)
qed

lemma block_call_range:
  fixes lib
  assumes "vc_block_size cfg \<noteq> 0" "(unat (b mod extent_blocks cfg) + 1) * unat (vc_block_size cfg) \<le> length d"
  defines "q \<equiv> block_call lib cfg b (ucast (vc_block_size cfg)) (ucast (vc_block_size cfg))"
  shows "read_range d (rl_offset q) (ucast (vc_block_size cfg)) = Some (block_of_extent cfg b d)"
proof -
  let ?m = "unat (b mod extent_blocks cfg)" and ?bs = "unat (vc_block_size cfg)" and ?len = "ucast (vc_block_size cfg) :: u64"
  have o: "unat (rl_offset q) = ?m * ?bs" unfolding q_def by (rule block_call_offset[OF assms(1)])
  have l: "unat ?len = ?bs" "?len \<noteq> 0" using assms(1) by (simp_all add: unat_ucast_u32 unat_eq_0[symmetric])
  have "vec_len_ok (unat ?len)" unfolding l vec_len_ok_def using uint_lt2p[of "vc_block_size cfg"] by simp
  then obtain p where p: "read_range d (rl_offset q) ?len = Some p" "length p = ?bs"
    "\<forall>i < ?bs. p ! i = (if ?m * ?bs + i < length d then d ! (?m * ?bs + i) else 0)"
    using read_range_spec[of "rl_offset q" ?len d] l(2) block_call_bound[OF assms(1), of b] by (auto simp: o l)
  have "p = block_of_extent cfg b d"
    using p(2,3) assms(2) by (intro nth_equalityI) (auto simp: block_of_extent_def algebra_simps)
  with p(1) show ?thesis by simp
qed

lemma cached_node:
  assumes "cache_nodes_ok fmt cache" "n \<in> set (available_nodes cache)"
  shows "get_node fmt cache n \<noteq> None"
proof -
  from assms(2) obtain k a where "(k, a) \<in> set (mc_cluster_map cache)" "na_node_id a = n"
    by (auto simp: available_nodes_def cache_list_nodes_def bt_values_def)
  moreover from this have "k = fmt n" using assms(1) by (auto simp: cache_nodes_ok_def)
  ultimately show ?thesis using assms(1) by (auto simp: get_node_def cache_nodes_ok_def bt_get_iff)
qed

context data_plane
begin

lemma read_block_held:
  assumes "good c" "cache_nodes_ok (cb_fmt lib) cache" "block_replicas lib cfg cache b \<noteq> []"
    and "\<forall>n \<in> set (block_replicas lib cfg cache b).
       serves c n (block_call lib cfg b (ucast (vc_block_size cfg)) (ucast (vc_block_size cfg))) \<and>
       (\<exists>d. held c n (block_extent lib cfg b) extent_version = Some d \<and>
          read_range d (rl_offset (block_call lib cfg b (ucast (vc_block_size cfg)) (ucast (vc_block_size cfg)))) (ucast (vc_block_size cfg)) = Some p)"
  shows "read_block lib rd cfg cache b (ucast (vc_block_size cfg)) (ucast (vc_block_size cfg)) c = (p, c)"
proof -
  let ?q = "block_call lib cfg b (ucast (vc_block_size cfg)) (ucast (vc_block_size cfg))"
  have x: "rl_extent_id ?q = block_extent lib cfg b" "rl_extent_version ?q = extent_version" "rl_length ?q = ucast (vc_block_size cfg)"
    by (simp_all add: block_call_def block_to_extent_def extent_blocks_pos Let_def)
  have "\<exists>n \<in> set (block_replicas lib cfg cache b). get_node (cb_fmt lib) cache n \<noteq> None"
  proof -
    obtain n where n: "n \<in> set (block_replicas lib cfg cache b)" using assms(3) by (meson list.set_sel(1))
    then have "n \<in> set (available_nodes cache)" unfolding block_replicas_def by (rule subsetD[OF set_select_nodes])
    with n show ?thesis using cached_node[OF assms(2)] by blast
  qed
  moreover have "\<forall>n \<in> set (block_replicas lib cfg cache b). serves c n ?q \<and>
      (\<exists>d. held c n (rl_extent_id ?q) (rl_extent_version ?q) = Some d \<and> read_range d (rl_offset ?q) (rl_length ?q) = Some p)"
    unfolding x using assms(4) by blast
  ultimately have "read_from_replicas (cb_fmt lib) rd cache ?q (block_replicas lib cfg cache b) None c = (Inr p, c)"
    by (intro read_from_replicas_held assms(1))
  then show ?thesis using assms(3) by (simp add: read_block_def)
qed

lemma read_blocks_held:
  assumes "\<And>b. b \<in> set blocks \<Longrightarrow> read_block lib rd cfg cache b (ucast (vc_block_size cfg)) (ucast (vc_block_size cfg)) c = (p b, c)"
    and "vc_protection cfg = Replicated r"
  shows "read_blocks lib rs rd env cfg cache (ucast (vc_block_size cfg)) blocks c = (Inr (concat (map p blocks)), c)"
  using assms(1)
  by (induction blocks) (simp_all add: read_data_block_def assms(2) read_single_block_data_def)

end

lemma aligned_block_range:
  assumes "bs \<noteq> (0 :: u32)" "unat bs dvd unat (io_offset_bytes q)" "unat bs dvd unat (io_length_bytes q)"
    and "unat (io_offset_bytes q) + unat (io_length_bytes q) < 2 ^ 64"
  obtains s e where "io_block_range q (ucast bs) = Some (s, e)" "unat s * unat bs = unat (io_offset_bytes q)"
    "unat e * unat bs = unat (io_offset_bytes q) + unat (io_length_bytes q)"
proof -
  let ?o = "unat (io_offset_bytes q)" and ?l = "unat (io_length_bytes q)"
  have pos: "0 < unat bs" using assms(1) by (simp add: unat_gt_0)
  have b: "unat (ucast bs :: u64) = unat bs" by (rule unat_ucast_u32)
  have b0: "ucast bs \<noteq> (0 :: u64)" using pos b by (metis less_irrefl unat_0)
  have sum: "unat (io_offset_bytes q + ucast (io_length_bytes q)) = ?o + ?l"
    using assms(4) by (subst unat_add_lem[THEN iffD1]) (simp_all add: unat_ucast_u32)
  obtain n where n: "?o + ?l = n * unat bs" using assms(2,3) by (metis dvd_add dvd_def mult.commute)
  have "n \<le> ?o + ?l" using pos n by simp
  then have un: "unat (of_nat n :: u64) = n" using assms(4) by (simp add: unat_of_nat)
  show thesis
  proof (rule that)
    show "io_block_range q (ucast bs) = Some (io_offset_bytes q div ucast bs, of_nat n)"
      using pos b0 by (simp add: io_block_range_def sum b n)
    show "unat (io_offset_bytes q div ucast bs) * unat bs = ?o" using assms(2) by (simp add: unat_div b)
    show "unat (of_nat n :: u64) * unat bs = ?o + ?l" by (simp add: un n)
  qed
qed

lemma concat_slices: "concat (map (\<lambda>i. take m (drop (i * m) xs)) [0..<n]) = take (n * m) xs"
proof (induction n)
  case (Suc n)
  then show ?case by (simp add: take_add add.commute[of m])
qed simp

lemma concat_request_blocks:
  assumes "s \<le> e" "length data = (unat e - unat s) * unat (vc_block_size cfg)"
  shows "concat (map (\<lambda>b. block_of_request cfg s b data) (range_blocks (s, e))) = data"
proof -
  have "unat (s + of_nat i) - unat s = i" if "i < unat e - unat s" for i
  proof -
    have i: "unat (of_nat i :: u64) = i" using that unat_lt_power[of e] by (simp add: unat_of_nat)
    have "unat s + unat (of_nat i :: u64) < 2 ^ LENGTH(64)" using that unat_lt_power[of e] i by simp
    then show ?thesis using unat_add_lem[of s "of_nat i"] i by simp
  qed
  then have "map (\<lambda>b. block_of_request cfg s b data) (range_blocks (s, e)) =
    map (\<lambda>i. take (unat (vc_block_size cfg)) (drop (i * unat (vc_block_size cfg)) data)) [0..<unat e - unat s]"
    by (simp add: range_blocks_def block_of_request_def)
  then show ?thesis by (simp add: concat_slices assms(2))
qed

context data_plane
begin

lemma write_readback:
  assumes "device_write lib rs wr env q (h, c) = Some (Inr None, h', c')"
    and "io_data q = Some data" "length data = unat (io_length_bytes q)" "io_length_bytes q \<noteq> 0"
    and "vc_protection (bh_config h) = Replicated r" "0 < unat r" "unat r \<le> 2" "vc_block_size (bh_config h) \<noteq> 0"
    and "unat (vc_block_size (bh_config h)) * unat (extent_blocks (bh_config h)) dvd unat (io_offset_bytes q)"
    and "unat (vc_block_size (bh_config h)) dvd unat (io_length_bytes q)"
    and "unat (io_offset_bytes q) + unat (io_length_bytes q) + unat (vc_block_size (bh_config h)) * unat (extent_blocks (bh_config h)) < 2 ^ 64"
    and "env_ok env (unat (io_length_bytes q))" "volume_ok lib (bh_config h) (wx_cache (bh_ctx h))" "available_nodes (wx_cache (bh_ctx h)) \<noteq> []"
    and "wx_watermark (bh_ctx h) \<le> mc_epoch (wx_cache (bh_ctx h))"
    and "good c" "\<forall>n j. fresh c n (hv_op env j)"
    and "\<forall>n b. n \<in> set (block_replicas lib (bh_config h) (wx_cache (bh_ctx h)) b) \<longrightarrow> serves c' n (block_call lib (bh_config h) b
           (ucast (vc_block_size (bh_config h))) (ucast (vc_block_size (bh_config h))))"
  shows "device_read lib rs rd env' (q\<lparr> io_operation := IoRead, io_data := None \<rparr>) (h', c') = Some (Inr (Some data), h', c')"
proof -
  let ?cfg = "bh_config h" and ?cache = "wx_cache (bh_ctx h)" and ?q = "q\<lparr> io_operation := IoRead, io_data := None \<rparr>"
  let ?bs = "unat (vc_block_size ?cfg)" and ?eb = "unat (extent_blocks ?cfg)"
  have "?bs dvd unat (io_offset_bytes q)" using assms(9) by (rule dvd_mult_left)
  moreover have nw: "unat (io_offset_bytes q) + unat (io_length_bytes q) < 2 ^ 64" using assms(11) by linarith
  ultimately obtain s e where r: "io_block_range q (ucast (vc_block_size ?cfg)) = Some (s, e)"
    "unat s * ?bs = unat (io_offset_bytes q)" "unat e * ?bs = unat (io_offset_bytes q) + unat (io_length_bytes q)"
    using aligned_block_range[OF assms(8) _ assms(10)] by blast
  have r': "io_block_range ?q (ucast (vc_block_size ?cfg)) = Some (s, e)" unfolding r(1)[symmetric] by (simp add: io_block_range_def)
  have pos: "0 < ?bs" using assms(8) by (simp add: unat_gt_0)
  have l: "length data = (unat e - unat s) * ?bs" "0 < unat (io_length_bytes q)"
    using r(2,3) assms(3,4) by (simp_all add: diff_mult_distrib unat_gt_0)
  then have se: "unat s < unat e" by (cases "unat s < unat e") (use assms(3) in auto)
  have al: "?eb dvd unat s" using assms(9) pos unfolding r(2)[symmetric] by (simp add: mult.commute)
  have room: "unat e + ?eb < 2 ^ 64"
  proof -
    have "(unat e + ?eb) * ?bs < 2 ^ 64" using assms(11) r(3) by (simp add: algebra_simps)
    moreover have "unat e + ?eb \<le> (unat e + ?eb) * ?bs" using mult_le_mono2[of 1 ?bs "unat e + ?eb"] pos by simp
    ultimately show ?thesis by (rule le_less_trans[rotated])
  qed
  obtain x where w: "write_loop lib rs wr env ?cfg data e (unat e - unat s) 0 0 s (bh_ctx h, c) = Some (Inr (), x, c')" "h' = h\<lparr> bh_ctx := x \<rparr>"
    using assms(1,2) r(1) by (auto simp: device_write_def split: if_splits sum.splits) (metis old.sum.exhaust old.unit.exhaust)
  have "unat e - unat s \<le> unat (io_length_bytes q)"
    using assms(3) l(1) mult_le_mono2[of 1 ?bs "unat e - unat s"] pos by simp
  note holds = write_loop_holds[OF w(1) assms(5,7,12) room assms(13,16) _ al] l(1) this
  have h: "wx_cache x = ?cache" "good c'" "wx_watermark x \<le> mc_epoch ?cache"
    "\<And>b n. s \<le> b \<Longrightarrow> b < e \<Longrightarrow> n \<in> set (block_replicas lib ?cfg ?cache b) \<Longrightarrow>
       \<exists>d. held c' n (block_extent lib ?cfg b) extent_version = Some d \<and> (unat (b mod extent_blocks ?cfg) + 1) * ?bs \<le> length d \<and>
         block_of_extent ?cfg b d = block_of_request ?cfg s b data"
    using holds assms(15,17) by simp_all
  have ok: "cache_nodes_ok (cb_fmt lib) ?cache" using assms(13) by (simp add: volume_ok_def)
  have block: "read_block lib rd ?cfg ?cache b (ucast (vc_block_size ?cfg)) (ucast (vc_block_size ?cfg)) c' = (block_of_request ?cfg s b data, c')"
    if "b \<in> set (range_blocks (s, e))" for b
  proof (rule read_block_held[OF h(2) ok])
    show "block_replicas lib ?cfg ?cache b \<noteq> []" using assms(5,6,14) by (simp add: block_replicas_select select_nodes_Nil_iff)
    have "s \<le> b" "b < e" using that by (simp_all add: set_range_blocks)
    then show "\<forall>n \<in> set (block_replicas lib ?cfg ?cache b).
       serves c' n (block_call lib ?cfg b (ucast (vc_block_size ?cfg)) (ucast (vc_block_size ?cfg))) \<and>
       (\<exists>d. held c' n (block_extent lib ?cfg b) extent_version = Some d \<and>
          read_range d (rl_offset (block_call lib ?cfg b (ucast (vc_block_size ?cfg)) (ucast (vc_block_size ?cfg)))) (ucast (vc_block_size ?cfg)) =
            Some (block_of_request ?cfg s b data))"
      using h(4) assms(18) block_call_range[OF assms(8)] by metis
  qed
  have h': "bh_config h' = ?cfg" "bh_ctx h' = x" using w(2) by simp_all
  have fresh: "watermark_is_fresh (wx_watermark x) (mc_epoch (wx_cache x))" using h(1,3) by (simp add: watermark_is_fresh_def)
  have nb: "unat (e - s) = unat e - unat s" using se by (intro unat_sub) (simp add: word_le_nat_alt)
  show ?thesis
  proof (cases "unat e - unat s \<le> 1")
    case True
    then have one: "unat e = unat s + 1" using se by simp
    then have len: "length data = ?bs" "ucast (io_length_bytes q) = (ucast (vc_block_size ?cfg) :: u64)"
      using l(1) assms(3) by (simp_all add: word_unat_eq_iff unat_ucast_u32)
    have "s \<in> set (range_blocks (s, e))" using se by (simp add: set_range_blocks word_less_nat_alt)
    note block[OF this]
    moreover have "block_of_request ?cfg s s data = data" by (simp add: block_of_request_def len(1))
    ultimately show ?thesis using fresh True r'
      by (simp add: device_read_def h' h(1) nb assms(5) read_single_block_def len(2) w(2))
  next
    case False
    have "read_blocks lib rs rd env' ?cfg ?cache (ucast (vc_block_size ?cfg)) (range_blocks (s, e)) c' =
      (Inr (concat (map (\<lambda>b. block_of_request ?cfg s b data) (range_blocks (s, e)))), c')"
      by (rule read_blocks_held[OF block assms(5)])
    also have "concat (map (\<lambda>b. block_of_request ?cfg s b data) (range_blocks (s, e))) = data"
      using concat_request_blocks[OF _ l(1)] se by (simp add: word_le_nat_alt)
    finally show ?thesis using fresh False r'
      by (simp add: device_read_def h' h(1) nb w(2) assms(3))
  qed
qed

end

section \<open>Writes inside an extent\<close>

lemma extent_start_block:
  fixes b eb :: u64
  assumes "eb \<noteq> 0"
  shows "(b div eb * eb) div eb = b div eb" "(b div eb * eb) mod eb = 0"
proof -
  have "unat b div unat eb * unat eb \<le> unat b" by simp
  also have "unat b < 2 ^ LENGTH(64)" by (rule unat_lt_power)
  finally have "unat (b div eb) * unat eb < 2 ^ LENGTH(64)" by (simp only: unat_div)
  then have u: "unat (b div eb * eb) = unat b div unat eb * unat eb" using unat_mult_lem[of "b div eb" eb] by (simp add: unat_div)
  have "0 < unat eb" using assms by (simp add: unat_gt_0)
  then show "(b div eb * eb) div eb = b div eb" "(b div eb * eb) mod eb = 0"
    by (simp_all add: word_unat_eq_iff unat_div unat_mod u)
qed

context data_plane
begin

lemma unaligned_write:
  assumes "device_write lib rs wr env q (h, c) = Some (Inr None, h', c')"
    and "io_data q = Some data" "length data = unat (vc_block_size (bh_config h))" "io_length_bytes q = vc_block_size (bh_config h)"
    and "vc_protection (bh_config h) = Replicated r" "0 < unat r" "unat r \<le> 2" "vc_block_size (bh_config h) \<noteq> 0"
    and "unat (vc_block_size (bh_config h)) dvd unat (io_offset_bytes q)"
    and "unat (io_offset_bytes q) + unat (vc_block_size (bh_config h)) + unat (vc_block_size (bh_config h)) * unat (extent_blocks (bh_config h)) < 2 ^ 64"
    and "env_ok env 1" "volume_ok lib (bh_config h) (wx_cache (bh_ctx h))" "available_nodes (wx_cache (bh_ctx h)) \<noteq> []"
    and "good c" "\<forall>n j. fresh c n (hv_op env j)"
    and "\<forall>n b. n \<in> set (block_replicas lib (bh_config h) (wx_cache (bh_ctx h)) b) \<longrightarrow> serves c' n (block_call lib (bh_config h) b
           (ucast (vc_block_size (bh_config h))) (ucast (vc_block_size (bh_config h))))"
    and "s = io_offset_bytes q div ucast (vc_block_size (bh_config h))" "s mod extent_blocks (bh_config h) \<noteq> 0"
    and "f = s div extent_blocks (bh_config h) * extent_blocks (bh_config h)"
  shows "read_block lib rd (bh_config h) (wx_cache (bh_ctx h)) s (ucast (vc_block_size (bh_config h))) (ucast (vc_block_size (bh_config h))) c' =
      (replicate (unat (vc_block_size (bh_config h))) 0, c') \<and>
    read_block lib rd (bh_config h) (wx_cache (bh_ctx h)) f (ucast (vc_block_size (bh_config h))) (ucast (vc_block_size (bh_config h))) c' =
      (data, c')"
proof -
  let ?cfg = "bh_config h" and ?cache = "wx_cache (bh_ctx h)"
  let ?bs = "unat (vc_block_size ?cfg)" and ?eb = "extent_blocks ?cfg" and ?len = "ucast (vc_block_size ?cfg) :: u64"
  have pos: "0 < ?bs" using assms(8) by (simp add: unat_gt_0)
  have "?bs dvd unat (io_length_bytes q)" "unat (io_offset_bytes q) + unat (io_length_bytes q) < 2 ^ 64" using assms(4,10) by simp_all
  from aligned_block_range[OF assms(8,9) this] obtain s' e where r: "io_block_range q ?len = Some (s', e)"
    "unat s' * ?bs = unat (io_offset_bytes q)" "unat e * ?bs = unat (io_offset_bytes q) + ?bs" using assms(4) by auto
  have s': "s' = s" using r(1) assms(17) by (simp add: io_block_range_def split: if_splits)
  have "unat e * ?bs = (unat s + 1) * ?bs" using r(2,3) s' by simp
  then have e: "unat e = unat s + 1" using pos by (metis mult_right_cancel not_less_iff_gr_or_eq)
  have se: "s < e" using e by (simp add: word_less_nat_alt)
  have room: "unat s + unat ?eb < 2 ^ 64"
  proof -
    have "(unat s + unat ?eb) * ?bs < 2 ^ 64" using assms(10) r(2) s' by (simp add: algebra_simps)
    moreover have "unat s + unat ?eb \<le> (unat s + unat ?eb) * ?bs" using mult_le_mono2[of 1 ?bs "unat s + unat ?eb"] pos by simp
    ultimately show ?thesis by (rule le_less_trans[rotated])
  qed
  have "s < (s div ?eb + 1) * ?eb" by (rule next_extent_start(2)[OF extent_blocks_pos(1) room])
  then have "unat e \<le> unat ((s div ?eb + 1) * ?eb)" using e by (simp add: word_less_nat_alt)
  then have stop: "min ((s div ?eb + 1) * ?eb) e = e" by (intro min_absorb2) (simp add: word_le_nat_alt)
  have one: "unat (e - s) = 1" using se e by (subst unat_sub) simp_all
  obtain x where w: "write_loop lib rs wr env ?cfg data e (unat e - unat s) 0 0 s (bh_ctx h, c) = Some (Inr (), x, c')"
    using assms(1,2) r(1) s' by (auto simp: device_write_def split: if_splits sum.splits) (metis old.sum.exhaust old.unit.exhaust)
  let ?q = "\<lparr> rw_volume_id = vc_volume_id ?cfg, rw_block_range = (s, e), rw_data = data, rw_extent_blocks = ?eb \<rparr>"
  let ?x = "(bh_ctx h)\<lparr> wx_session := snd (next_operation_id (hv_op env 0) (wx_session (bh_ctx h))) \<rparr>"
  have all: "take (min (1 * ?bs) (length data - 0)) (drop 0 data) = data" using assms(3) by simp
  obtain f0 ep x1 c1 where ex: "execute_once lib wr (hv_attempt env 0 0) ?q (hv_op env 0) (?x, c) = (Inr (Committed ep), x1, c1)"
    and rest: "write_loop lib rs wr env ?cfg data e f0 (0 + 1) (0 + min (1 * ?bs) (length data - 0)) e (x1, c1) = Some (Inr (), x, c')"
    by (rule write_loop_committed[OF w se assms(5,11), unfolded stop one all])
  have c1: "c1 = c'" using trans[OF rest[symmetric] write_loop_done[of e e]] by simp
  have sched: "\<forall>jobs. mset (ae_schedule (hv_attempt env 0 0) jobs) = mset jobs" using assms(11) by (simp add: env_ok_def)
  obtain info where info: "cache_get_volume (cb_fmt lib) (wx_cache ?x) (rw_volume_id ?q) = Some info" "cv_protection info = Replicated r"
    using assms(5,12) by (auto simp: volume_ok_def)
  have ok: "cache_nodes_ok (cb_fmt lib) ?cache" "cache_nodes_ok (cb_fmt lib) (wx_cache ?x)" using assms(12) by (simp_all add: volume_ok_def)
  have eo: "extent_of ?q = s div ?eb" by (simp add: extent_of_def extent_blocks_pos)
  have fr: "\<forall>n. fresh c n (hv_op env 0)" using assms(15) by blast
  note ev = committed_everywhere[OF ex assms(14) ok(2) fr sched info assms(7), unfolded eo c1]
  have gd: "good c'" using execute_once_keeps(1)[OF assms(14) sched, of lib ?q "hv_op env 0" ?x] ex c1 by simp
  have read: "read_block lib rd ?cfg ?cache b ?len ?len c' = (p, c')"
    if "b div ?eb = s div ?eb" "read_range data (rl_offset (block_call lib ?cfg b ?len ?len)) ?len = Some p" for b p
  proof (rule read_block_held[OF gd ok(1)])
    show "block_replicas lib ?cfg ?cache b \<noteq> []" using assms(5,6,13) by (simp add: block_replicas_select select_nodes_Nil_iff)
    show "\<forall>n \<in> set (block_replicas lib ?cfg ?cache b). serves c' n (block_call lib ?cfg b ?len ?len) \<and>
      (\<exists>d. held c' n (block_extent lib ?cfg b) extent_version = Some d \<and> read_range d (rl_offset (block_call lib ?cfg b ?len ?len)) ?len = Some p)"
      using ev assms(16) that by (auto simp: block_replicas_select[OF assms(5)])
  qed
  have len: "unat ?len = ?bs" "vec_len_ok ?bs" "?len \<noteq> 0"
    using uint_lt2p[of "vc_block_size ?cfg"] pos by (auto simp: unat_ucast_u32 vec_len_ok_def unat_eq_0[symmetric])
  have "read_range data (rl_offset (block_call lib ?cfg s ?len ?len)) ?len = Some (replicate ?bs 0)"
  proof -
    have o: "unat (rl_offset (block_call lib ?cfg s ?len ?len)) = unat (s mod ?eb) * ?bs" by (rule block_call_offset[OF assms(8)])
    have "1 \<le> unat (s mod ?eb)" using assms(18) by (simp add: Suc_le_eq unat_gt_0)
    then have "length data \<le> unat (s mod ?eb) * ?bs" using mult_le_mono1[of 1 "unat (s mod ?eb)" ?bs] assms(3) by simp
    then show ?thesis using len by (simp add: read_range_def o)
  qed
  moreover have "read_range data (rl_offset (block_call lib ?cfg f ?len ?len)) ?len = Some data"
  proof -
    have "rl_offset (block_call lib ?cfg f ?len ?len) = 0"
      using extent_start_block[OF extent_blocks_pos(1), of s] assms(19) by (simp add: block_call_def block_to_extent_def extent_blocks_pos Let_def)
    then show ?thesis using len pos assms(3) by (simp add: read_range_def)
  qed
  ultimately show ?thesis using read[of s] read[of f] extent_start_block[OF extent_blocks_pos(1), of s] assms(19) by simp
qed

end

section \<open>Stripes read back\<close>

text \<open>
  What is documented of the Reed-Solomon library: encoding keeps the data shards, and any \<^verbatim>\<open>k\<close> shards
  of an encoded stripe give back all of them.
\<close>

definition erasure_code_ok :: "RsLib \<Rightarrow> nat \<Rightarrow> nat \<Rightarrow> bool" where
  "erasure_code_ok rs k m \<longleftrightarrow> 0 < k \<and> rs_new rs k m = None \<and>
     (\<forall>shards full. length shards = k + m \<and> rs_encode rs k m shards = Inr full \<longrightarrow>
        length full = length shards \<and> take k full = take k shards \<and>
        (\<forall>got. length got = k + m \<and> (\<forall>i < k + m. got ! i = None \<or> got ! i = Some (full ! i)) \<and>
           k \<le> length (filter (\<lambda>s. s \<noteq> None) got) \<longrightarrow> rs_reconstruct rs k m got = Inr (map Some full)))"

lemma encode_data_fragments:
  assumes "encode_data rs data k m = Inr stripe" "erasure_code_ok rs k m"
  shows "length (es_fragments stripe) = k + m"
    "concat (map ef_data (take k (es_fragments stripe))) = data @ replicate (k * div_ceil (length data) k - length data) 0"
    "\<And>got. length got = k + m \<Longrightarrow> (\<forall>i < k + m. got ! i = None \<or> got ! i = Some (ef_data (es_fragments stripe ! i))) \<Longrightarrow>
       k \<le> length (filter (\<lambda>s. s \<noteq> None) got) \<Longrightarrow> rs_reconstruct rs k m got = Inr (map Some (map ef_data (es_fragments stripe)))"
proof -
  let ?f = "div_ceil (length data) k"
  let ?shards = "map (data_shard data ?f) [0..<k] @ replicate m (replicate ?f 0)"
  obtain full where full: "rs_encode rs k m ?shards = Inr full"
    "es_fragments stripe = map (\<lambda>(i, s). \<lparr> ef_index = i, ef_is_data = i < k, ef_data = s \<rparr>) (enumerate 0 full)"
    using assms(1) by (auto simp: encode_data_def Let_def split: if_splits option.splits sum.splits)
  have law: "length full = length ?shards" "take k full = take k ?shards"
    "\<And>got. length got = k + m \<Longrightarrow> (\<forall>i < k + m. got ! i = None \<or> got ! i = Some (full ! i)) \<Longrightarrow>
       k \<le> length (filter (\<lambda>s. s \<noteq> None) got) \<Longrightarrow> rs_reconstruct rs k m got = Inr (map Some full)"
    using assms(2)[unfolded erasure_code_ok_def, THEN conjunct2, THEN conjunct2, rule_format, of ?shards full] full(1) by simp_all
  have data: "map ef_data (es_fragments stripe) = full"
    unfolding full(2) by (rule nth_equalityI) (simp_all add: nth_enumerate_eq)
  then show "length (es_fragments stripe) = k + m" using law(1) by (metis add_diff_cancel_left' diff_zero length_append length_map length_replicate length_upt)
  then have nth: "ef_data (es_fragments stripe ! i) = full ! i" if "i < k + m" for i
    using that data by (metis nth_map)
  have "map ef_data (take k (es_fragments stripe)) = map (data_shard data ?f) [0..<k]"
    using data law(2) by (simp flip: take_map)
  then show "concat (map ef_data (take k (es_fragments stripe))) = data @ replicate (k * ?f - length data) 0"
    using concat_all_shards[of k data] assms(2) by (simp add: erasure_code_ok_def)
  show "rs_reconstruct rs k m got = Inr (map Some (map ef_data (es_fragments stripe)))"
    if "length got = k + m" "\<forall>i < k + m. got ! i = None \<or> got ! i = Some (ef_data (es_fragments stripe ! i))"
      "k \<le> length (filter (\<lambda>s. s \<noteq> None) got)" for got
    unfolding data using law(3)[OF that(1)] that nth by simp
qed

lemma stripe_block_inside: "off + bs \<le> length data \<Longrightarrow> 0 < bs \<Longrightarrow> stripe_block (data @ pad) off bs = take bs (drop off data)"
  by (simp add: stripe_block_def Let_def)

context data_plane
begin

lemma read_fragments_results:
  assumes "read_fragments rd q jobs c = (res, c')" "good c" "distinct (map snd jobs)" "distinct (map fst jobs)"
  shows "map fst res = map fst jobs \<and> (\<forall>(i, n) \<in> set jobs. \<exists>r. map_of res i = Some r \<and>
      (\<forall>d. r = Inr d \<longrightarrow> (\<exists>data. held c n (rl_extent_id q) (rl_extent_version q) = Some data \<and> read_range data (rl_offset q) (rl_length q) = Some d)) \<and>
      (\<forall>data d. serves c n q \<and> held c n (rl_extent_id q) (rl_extent_version q) = Some data \<and> read_range data (rl_offset q) (rl_length q) = Some d \<longrightarrow>
         r = Inr d))"
  using assms
proof (induction jobs arbitrary: c res)
  case (Cons j jobs)
  obtain i n where j: "j = (i, n)" by fastforce
  obtain r c1 where r: "rd n q c = (r, c1)" by fastforce
  obtain res1 where res: "read_fragments rd q jobs c1 = (res1, c')" "res = (i, r) # res1"
    using Cons.prems(1) by (auto simp: j r split: prod.splits)
  note good = Cons.prems(2)
  have ds: "distinct (map snd jobs)" "distinct (map fst jobs)" using Cons.prems by simp_all
  note ih = Cons.IH[OF res(1) rd_good[OF good r] ds]
  have head: "(\<forall>d. r = Inr d \<longrightarrow> (\<exists>data. held c n (rl_extent_id q) (rl_extent_version q) = Some data \<and> read_range data (rl_offset q) (rl_length q) = Some d)) \<and>
      (\<forall>data d. serves c n q \<and> held c n (rl_extent_id q) (rl_extent_version q) = Some data \<and> read_range data (rl_offset q) (rl_length q) = Some d \<longrightarrow>
         r = Inr d)"
    using rd_sound[OF good, of n q _ c1] rd_live[OF good, of n q] r by auto
  have "\<exists>r'. map_of res i' = Some r' \<and>
      (\<forall>d. r' = Inr d \<longrightarrow> (\<exists>data. held c n' (rl_extent_id q) (rl_extent_version q) = Some data \<and> read_range data (rl_offset q) (rl_length q) = Some d)) \<and>
      (\<forall>data d. serves c n' q \<and> held c n' (rl_extent_id q) (rl_extent_version q) = Some data \<and> read_range data (rl_offset q) (rl_length q) = Some d \<longrightarrow>
         r' = Inr d)" if in': "(i', n') \<in> set jobs" for i' n'
  proof -
    have "i' \<in> set (map fst jobs)" "n' \<in> set (map snd jobs)" using in' by (force simp: image_iff)+
    then have ne: "i' \<noteq> i" "n' \<noteq> n" using Cons.prems(3,4) by (auto simp: j)
    have "held c1 n' x v = held c n' x v" "serves c1 n' q = serves c n' q" for x v
      using rd_held[OF good r] rd_serves[OF good r ne(2)] by simp_all
    then show ?thesis using ih in' ne(1) by (fastforce simp: res(2))
  qed
  then show ?case using head ih by (auto simp: j res(2))
qed simp

lemma read_fragments_good: "good c \<Longrightarrow> read_fragments rd q jobs c = (res, c') \<Longrightarrow> good c'"
proof (induction jobs arbitrary: c res)
  case (Cons j jobs)
  obtain i n where j: "j = (i, n)" by fastforce
  obtain r c1 where r: "rd n q c = (r, c1)" by fastforce
  show ?case using Cons.prems(2) by (auto simp: j r split: prod.splits dest: Cons.IH[OF rd_good[OF Cons.prems(1) r]])
qed simp

lemma ec_shards:
  fixes nodes
  assumes "read_fragments rd q (order (enumerate 0 nodes)) c = (res, c')" "good c" "distinct nodes"
    and "mset (order (enumerate 0 nodes)) = mset (enumerate 0 nodes)" "rl_offset q = 0" "rl_length q = 0"
  shows "fragment_at res i = Some d \<Longrightarrow> i < length nodes \<and> held c (nodes ! i) (rl_extent_id q) (rl_extent_version q) = Some d"
    and "i < length nodes \<Longrightarrow> serves c (nodes ! i) q \<Longrightarrow> held c (nodes ! i) (rl_extent_id q) (rl_extent_version q) = Some d \<Longrightarrow>
      fragment_at res i = Some d"
proof -
  let ?jobs = "order (enumerate 0 nodes)"
  have sj: "set ?jobs = set (enumerate 0 nodes)" using assms(4) by (rule mset_eq_setD)
  have "distinct (map snd ?jobs) = distinct (map snd (enumerate 0 nodes))"
    by (rule mset_eq_imp_distinct_iff) (simp only: mset_map assms(4))
  moreover have "distinct (map fst ?jobs) = distinct (map fst (enumerate 0 nodes))"
    by (rule mset_eq_imp_distinct_iff) (simp only: mset_map assms(4))
  ultimately have ds: "distinct (map snd ?jobs)" "distinct (map fst ?jobs)" using assms(3) by simp_all
  have whole: "read_range data 0 0 = Some data" for data by (simp add: read_range_def)
  note res = read_fragments_results[OF assms(1,2) ds, unfolded assms(5,6) whole sj]
  have at: "(i, nodes ! i) \<in> set (enumerate 0 nodes)" if "i < length nodes" for i
    using that by (simp add: in_set_enumerate_eq)
  have dom: "i < length nodes" if m: "map_of res i = Some r" for i r
  proof -
    have "i \<in> fst ` set res" using map_of_SomeD[OF m] by (simp add: image_iff) (metis fst_conv)
    then have "i \<in> set (map fst ?jobs)" using conjunct1[OF res] by (metis list.set_map)
    then have "i \<in> fst ` set (enumerate 0 nodes)" by (simp only: list.set_map sj)
    then show ?thesis by (auto simp: in_set_enumerate_eq)
  qed
  have entry: "\<exists>r. map_of res i = Some r \<and>
      (\<forall>d. r = Inr d \<longrightarrow> held c (nodes ! i) (rl_extent_id q) (rl_extent_version q) = Some d) \<and>
      (\<forall>d. serves c (nodes ! i) q \<and> held c (nodes ! i) (rl_extent_id q) (rl_extent_version q) = Some d \<longrightarrow> r = Inr d)"
    if "i < length nodes" for i
    using bspec[OF conjunct2[OF res] at[OF that]] by auto
  show "i < length nodes \<and> held c (nodes ! i) (rl_extent_id q) (rl_extent_version q) = Some d" if f: "fragment_at res i = Some d"
  proof -
    have m: "map_of res i = Some (Inr d)" using f by (simp add: fragment_at_def split: option.splits sum.splits)
    obtain r where r: "map_of res i = Some r" "\<forall>d. r = Inr d \<longrightarrow> held c (nodes ! i) (rl_extent_id q) (rl_extent_version q) = Some d"
      using entry[OF dom[OF m]] by blast
    have "r = Inr d" using m r(1) by simp
    then show ?thesis using r(2) dom[OF m] by blast
  qed
  show "fragment_at res i = Some d"
    if "i < length nodes" "serves c (nodes ! i) q" "held c (nodes ! i) (rl_extent_id q) (rl_extent_version q) = Some d"
    using entry[OF that(1)] that(2,3) by (auto simp: fragment_at_def)
qed

lemma read_ec_stripe:
  fixes block :: u64 and cfg defines "start \<equiv> block div extent_blocks cfg * extent_blocks cfg"
  fixes lib :: ClientLib and cache defines "nodes \<equiv> \<lambda>total. select_nodes (cb_digest lib) (vc_volume_id cfg) start (available_nodes cache) total"
  defines "q \<equiv> \<lparr> rl_volume_id = vc_volume_id cfg, rl_extent_id = extent_id_for_extent (cb_digest lib) (vc_volume_id cfg) start,
      rl_extent_version = extent_version, rl_offset = 0, rl_length = 0 \<rparr>"
  assumes good: "good c" and prot: "vc_protection cfg = ErasureCoded k m"
    and order: "\<forall>jobs. mset (order jobs) = mset jobs"
    and nodes: "distinct (nodes (unat k + unat m))" "length (nodes (unat k + unat m)) = unat k + unat m"
    and stripe: "encode_data rs data (unat k) (unat m) = Inr stripe" "erasure_code_ok rs (unat k) (unat m)"
    and holds: "\<forall>i < unat k + unat m. held c (nodes (unat k + unat m) ! i) (rl_extent_id q) extent_version \<in> {None, Some (ef_data (es_fragments stripe ! i))}"
    and enough: "unat k \<le> card {i. i < unat k + unat m \<and> serves c (nodes (unat k + unat m) ! i) q \<and>
      held c (nodes (unat k + unat m) ! i) (rl_extent_id q) extent_version = Some (ef_data (es_fragments stripe ! i))}"
    and inside: "unat ((block - start) * bs) + unat bs \<le> length data" "0 < unat bs"
  shows "\<exists>c'. read_ec_block_data lib rs rd order cfg cache block bs c = (Inr (take (unat bs) (drop (unat ((block - start) * bs)) data)), c') \<and> good c'"
proof -
  let ?t = "unat k + unat m"
  obtain res c' where f: "read_fragments rd q (order (enumerate 0 (nodes ?t))) c = (res, c')" by fastforce
  have ql: "rl_offset q = 0" "rl_length q = 0" "rl_extent_version q = extent_version" by (simp_all add: q_def)
  note sh = ec_shards[where order = order, OF f good nodes(1) order[rule_format] ql(1,2), unfolded ql(3) nodes(2)]
  let ?shards = "map (fragment_at res) [0..<?t]"
  have each: "?shards ! i = None \<or> ?shards ! i = Some (ef_data (es_fragments stripe ! i))" if "i < ?t" for i
    using sh(1)[of i] holds that by (cases "fragment_at res i") auto
  let ?I = "{i. i < ?t \<and> serves c (nodes ?t ! i) q \<and> held c (nodes ?t ! i) (rl_extent_id q) extent_version = Some (ef_data (es_fragments stripe ! i))}"
  have "?I \<subseteq> {i. i < length ?shards \<and> ?shards ! i \<noteq> None}" using sh(2) by auto
  then have "card ?I \<le> card {i. i < length ?shards \<and> ?shards ! i \<noteq> None}" by (intro card_mono) simp_all
  also have "\<dots> = length (filter (\<lambda>s. s \<noteq> None) ?shards)" by (rule length_filter_conv_card[symmetric])
  finally have many: "unat k \<le> length (filter (\<lambda>s. s \<noteq> None) ?shards)" using enough by simp
  have k0: "0 < unat k" "rs_new rs (unat k) (unat m) = None" using stripe(2) by (simp_all add: erasure_code_ok_def)
  have some: "\<not> list_all (\<lambda>s. s = None) ?shards"
  proof
    assume "list_all (\<lambda>s. s = None) ?shards"
    then have "filter (\<lambda>s. s \<noteq> None) ?shards = []" by (simp add: list_all_iff)
    then show False using many k0(1) by (metis leD list.size(3))
  qed
  note enc = encode_data_fragments[OF stripe]
  have rec: "rs_reconstruct rs (unat k) (unat m) ?shards = Inr (map Some (map ef_data (es_fragments stripe)))"
    using each many by (intro enc(3)) auto
  have cat: "concat (map (\<lambda>s. case s of Some d \<Rightarrow> d | None \<Rightarrow> []) (take (unat k) (map Some (map ef_data (es_fragments stripe))))) =
      data @ replicate (unat k * div_ceil (length data) (unat k) - length data) 0"
    unfolding enc(2)[symmetric] by (simp add: take_map comp_def)
  have ne: "nodes ?t \<noteq> []" using nodes(2) k0(1) by auto
  have "read_ec_block_data lib rs rd order cfg cache block bs c =
      (Inr (stripe_block (data @ replicate (unat k * div_ceil (length data) (unat k) - length data) 0) (unat ((block - start) * bs)) (unat bs)), c')"
    using f ne some
    by (simp add: read_ec_block_data_def prot k0(2) rec cat Let_def flip: start_def nodes_def q_def del: map_map)
  then show ?thesis using stripe_block_inside[OF inside] read_fragments_good[OF good f] by auto
qed

lemma read_ec_mixed:
  fixes block :: u64 and cfg defines "start \<equiv> block div extent_blocks cfg * extent_blocks cfg"
  fixes lib :: ClientLib and cache defines "nodes \<equiv> \<lambda>total. select_nodes (cb_digest lib) (vc_volume_id cfg) start (available_nodes cache) total"
  defines "q \<equiv> \<lparr> rl_volume_id = vc_volume_id cfg, rl_extent_id = extent_id_for_extent (cb_digest lib) (vc_volume_id cfg) start,
      rl_extent_version = extent_version, rl_offset = 0, rl_length = 0 \<rparr>"
  assumes good: "good c" and prot: "vc_protection cfg = ErasureCoded k m"
    and order: "\<forall>jobs. mset (order jobs) = mset jobs"
    and nodes: "distinct (nodes (unat k + unat m))" "length (nodes (unat k + unat m)) = unat k + unat m"
    and lib: "0 < unat k" "rs_new rs (unat k) (unat m) = None"
      "\<forall>full. length full = unat k + unat m \<longrightarrow> rs_reconstruct rs (unat k) (unat m) (map Some full) = Inr (map Some full)"
    and holds: "length full = unat k + unat m" "\<forall>i < unat k + unat m. serves c (nodes (unat k + unat m) ! i) q \<and>
      held c (nodes (unat k + unat m) ! i) (rl_extent_id q) extent_version = Some (full ! i)"
  shows "fst (read_ec_block_data lib rs rd order cfg cache block bs c) =
    Inr (stripe_block (concat (take (unat k) full)) (unat ((block - start) * bs)) (unat bs))"
proof -
  let ?t = "unat k + unat m"
  obtain res c' where f: "read_fragments rd q (order (enumerate 0 (nodes ?t))) c = (res, c')" by fastforce
  have ql: "rl_offset q = 0" "rl_length q = 0" "rl_extent_version q = extent_version" by (simp_all add: q_def)
  note sh = ec_shards[where order = order, OF f good nodes(1) order[rule_format] ql(1,2), unfolded ql(3) nodes(2)]
  have shards: "map (fragment_at res) [0..<?t] = map Some full"
    using sh(2) holds by (intro nth_equalityI) simp_all
  have some: "\<not> list_all (\<lambda>s. s = None) (map Some full)" using holds(1) lib(1) by (cases full) auto
  have ne: "nodes ?t \<noteq> []" using nodes(2) lib(1) by auto
  have cat: "concat (map (\<lambda>s. case s of Some d \<Rightarrow> d | None \<Rightarrow> []) (take n (map Some full))) = concat (take n full)" for n
    by (simp add: take_map comp_def)
  show ?thesis
    using f ne some
    by (simp add: read_ec_block_data_def prot lib holds(1) shards cat Let_def flip: start_def nodes_def q_def)
qed

end

context data_plane
begin

lemma ec_write_readback:
  fixes block :: u64 and cfg defines "start \<equiv> block div extent_blocks cfg * extent_blocks cfg"
  fixes lib :: ClientLib and x defines "nodes \<equiv> \<lambda>total. select_nodes (cb_digest lib) (vc_volume_id cfg) start (available_nodes (wx_cache x)) total"
  defines "q \<equiv> \<lparr> rl_volume_id = vc_volume_id cfg, rl_extent_id = extent_id_for_extent (cb_digest lib) (vc_volume_id cfg) start,
      rl_extent_version = extent_version, rl_offset = 0, rl_length = 0 \<rparr>"
  assumes w: "ec_execute_once lib rs wr env (vc_volume_id cfg) (start, e') data op (x, c) = (Inr (Committed e), x', c')"
    and prot: "vc_protection cfg = ErasureCoded k m"
    and info: "cache_get_volume (cb_fmt lib) (wx_cache x) (vc_volume_id cfg) = Some info" "cv_protection info = ErasureCoded k m"
    and code: "erasure_code_ok rs (unat k) (unat m)" "unat k + unat m < 256"
    and good: "good c" "cache_nodes_ok (cb_fmt lib) (wx_cache x)" "\<forall>n. fresh c n op"
    and sched: "\<forall>jobs. mset (ae_schedule env jobs) = mset jobs" "\<forall>jobs. mset (order jobs) = mset jobs"
    and new: "\<forall>n d. at_most c n (rl_extent_id q) extent_version d"
    and serving: "card {i. i < unat k + unat m \<and> \<not> serves c' (nodes (unat k + unat m) ! i) q} \<le> min 1 (unat m)"
    and inside: "unat ((block - start) * bs) + unat bs \<le> length data" "0 < unat bs"
  shows "\<exists>c''. read_ec_block_data lib rs rd order cfg (wx_cache x) block bs c' = (Inr (take (unat bs) (drop (unat ((block - start) * bs)) data)), c'')"
proof -
  let ?t = "unat k + unat m" and ?X = "extent_id_for_extent (cb_digest lib) (vc_volume_id cfg) start"
  have qX: "rl_extent_id q = ?X" by (simp add: q_def)
  have "unat (k + m) = ?t" using code(2) by (simp add: unat_add_lem[THEN iffD1])
  then have sel: "select_ec_nodes (cb_digest lib) (vc_volume_id cfg) start (available_nodes (wx_cache x)) k m = nodes ?t"
    by (simp add: select_ec_nodes_def nodes_def)
  obtain I stripe where I: "encode_data rs data (unat k) (unat m) = Inr stripe" "unat k + min 1 (unat m) \<le> card I"
    "I \<subseteq> {..<length (es_fragments stripe)}"
    "\<forall>i \<in> I. i < length (nodes ?t) \<and> held c' (nodes ?t ! i) ?X extent_version = Some (ef_data (es_fragments stripe ! i))"
    using ec_execute_once_committed[OF w good sched(1)] info sel by auto
  note enc = encode_data_fragments[OF I(1) code(1)]
  have "?t \<le> length (available_nodes (wx_cache x))"
    using w info by (cases rule: ec_execute_once_cases[of lib rs wr "vc_volume_id cfg" "(start, e')" data op "(x, c)"]) simp_all
  then have lt: "length (nodes ?t) = ?t" by (simp add: nodes_def length_select_nodes)
  have dn: "distinct (nodes ?t)" using available_nodes_distinct[OF good(2)] by (simp add: nodes_def distinct_select_nodes)
  have keeps: "good c' \<and> at_most c' (nodes ?t ! i) ?X extent_version (ef_data (es_fragments stripe ! i))" if "i < ?t" for i
    using ec_execute_once_at_most[OF w good(1,2) sched(1) info I(1), unfolded fst_conv, OF sel[symmetric], of i] that lt enc(1) new qX by simp
  then have good': "good c'" using code(1) by (metis add_gr_0 erasure_code_ok_def)
  have holds: "\<forall>i < ?t. held c' (nodes ?t ! i) (rl_extent_id q) extent_version \<in> {None, Some (ef_data (es_fragments stripe ! i))}"
  proof (intro allI impI)
    fix i assume i: "i < ?t"
    from at_most_held[OF conjunct2[OF keeps[OF i]]] show "held c' (nodes ?t ! i) (rl_extent_id q) extent_version \<in> {None, Some (ef_data (es_fragments stripe ! i))}"
      by (simp add: qX)
  qed
  let ?J = "{i. i < ?t \<and> serves c' (nodes ?t ! i) q \<and> held c' (nodes ?t ! i) (rl_extent_id q) extent_version = Some (ef_data (es_fragments stripe ! i))}"
  have "I \<subseteq> ?J \<union> {i. i < ?t \<and> \<not> serves c' (nodes ?t ! i) q}" using I(4) lt qX by auto
  then have "card I \<le> card (?J \<union> {i. i < ?t \<and> \<not> serves c' (nodes ?t ! i) q})" by (intro card_mono) auto
  also have "\<dots> \<le> card ?J + card {i. i < ?t \<and> \<not> serves c' (nodes ?t ! i) q}" by (rule card_Un_le)
  finally have "unat k \<le> card ?J" using I(2) serving by linarith
  then show ?thesis
    using read_ec_stripe[where c = c' and cfg = cfg and lib = lib and cache = "wx_cache x" and block = block and order = order and bs = bs,
        OF good' prot sched(2) _ _ I(1) code(1)] dn lt holds inside
    unfolding nodes_def q_def start_def by blast
qed

end

lemma div_ceil_le: "0 < b \<Longrightarrow> div_ceil a b \<le> a"
proof -
  assume b: "0 < b"
  have "a div b \<le> a div b * b" using b by simp
  moreover have "a = a div b * b + a mod b" by simp
  ultimately show ?thesis unfolding div_ceil_def by (simp only: split: if_split) linarith
qed

lemma block_range_end:
  assumes "io_block_range q bs = Some r"
  shows "unat (snd r) \<le> unat (io_offset_bytes q + ucast (io_length_bytes q))"
proof -
  let ?n = "unat (io_offset_bytes q + ucast (io_length_bytes q))"
  have b: "bs \<noteq> 0" and r: "snd r = of_nat (div_ceil ?n (unat bs))" using assms by (auto simp: io_block_range_def split: if_splits)
  have le: "div_ceil ?n (unat bs) \<le> ?n" using b by (intro div_ceil_le) (simp add: unat_gt_0)
  then have "div_ceil ?n (unat bs) < 2 ^ 64" by (rule le_less_trans) (use unsigned_less[of "io_offset_bytes q + ucast (io_length_bytes q)"] in simp)
  then show ?thesis using le r by (simp add: unsigned_of_nat take_bit_nat_eq_self)
qed

section \<open>Blocks that no node holds\<close>

lemma length_concat_zeros: "concat (map (\<lambda>_. replicate n 0) xs) = replicate (length xs * n) 0"
  by (induction xs) (simp_all add: replicate_add)

context data_plane
begin

lemma read_from_replicas_keeps:
  assumes "good c" "read_from_replicas fmt rd cache q nodes last_error c = (r, c')"
  shows "good c' \<and> (\<forall>n x v. held c' n x v = held c n x v)"
  using assms
proof (induction nodes arbitrary: last_error c)
  case (Cons n ns)
  obtain r1 c1 where r: "rd n q c = (r1, c1)" by fastforce
  have "good c1" "\<forall>n' x v. held c1 n' x v = held c n' x v" using rd_good[OF Cons.prems(1) r] rd_held[OF Cons.prems(1) r] by simp_all
  then show ?case using Cons.IH[OF Cons.prems(1)] Cons.IH[OF \<open>good c1\<close>] Cons.prems(2)
    by (auto simp: r split: if_splits sum.splits)
qed simp

lemma read_block_unheld:
  assumes "good c" "\<forall>n. held c n (block_extent lib cfg b) extent_version = None"
  shows "\<exists>c'. read_block lib rd cfg cache b bs len c = (replicate (unat len) 0, c') \<and> good c' \<and> (\<forall>n x v. held c' n x v = held c n x v)"
proof -
  let ?q = "block_call lib cfg b bs len"
  have x: "rl_extent_id ?q = block_extent lib cfg b" "rl_extent_version ?q = extent_version"
    by (simp_all add: block_call_def block_to_extent_def extent_blocks_pos Let_def)
  obtain r c' where r: "read_from_replicas (cb_fmt lib) rd cache ?q (block_replicas lib cfg cache b) None c = (r, c')" by fastforce
  have "\<exists>e. r = Inl e"
    using read_from_replicas_sound[OF assms(1), of "cb_fmt lib" cache ?q "block_replicas lib cfg cache b" None _ c'] r assms(2) x
    by (cases r) auto
  then show ?thesis using r read_from_replicas_keeps[OF assms(1) r] assms(1)
    by (cases "block_replicas lib cfg cache b = []") (auto simp: read_block_def Let_def)
qed

lemma read_blocks_unheld:
  assumes "vc_protection cfg = Replicated r" "good c" "\<forall>b \<in> set blocks. \<forall>n. held c n (block_extent lib cfg b) extent_version = None"
  shows "\<exists>c'. read_blocks lib rs rd env cfg cache bs blocks c = (Inr (concat (map (\<lambda>_. replicate (unat bs) 0) blocks)), c')"
  using assms(2,3)
proof (induction blocks arbitrary: c)
  case (Cons b blocks)
  obtain c1 where c1: "read_block lib rd cfg cache b bs bs c = (replicate (unat bs) 0, c1)" "good c1" "\<forall>n x v. held c1 n x v = held c n x v"
    using read_block_unheld[OF Cons.prems(1), of lib cfg b cache bs bs] Cons.prems(2) by auto
  obtain c2 where "read_blocks lib rs rd env cfg cache bs blocks c1 = (Inr (concat (map (\<lambda>_. replicate (unat bs) 0) blocks)), c2)"
    using Cons.IH[OF c1(2)] c1(3) Cons.prems(2) by auto
  then show ?case using c1(1) by (simp add: read_data_block_def assms(1) read_single_block_data_def)
qed simp

lemma device_read_unheld:
  assumes "vc_protection (bh_config h) = Replicated r" "vc_block_size (bh_config h) \<noteq> 0" "good c"
    and "unat (io_offset_bytes q) + unat (io_length_bytes q) < 2 ^ 64"
    and "wx_watermark (bh_ctx h) \<le> mc_epoch (wx_cache (bh_ctx h))"
    and "\<forall>n b. held c n (block_extent lib (bh_config h) b) extent_version = None"
  shows "\<exists>c'. device_read lib rs rd env q (h, c) = Some (Inr (Some (replicate (unat (io_length_bytes q)) 0)), h, c')"
proof -
  let ?cfg = "bh_config h" and ?cache = "wx_cache (bh_ctx h)" and ?len = "unat (io_length_bytes q)" and ?off = "unat (io_offset_bytes q)"
  let ?bs = "ucast (vc_block_size ?cfg) :: u64"
  have b: "unat ?bs = unat (vc_block_size ?cfg)" by (rule unat_ucast_u32)
  have b0: "0 < unat ?bs" "?bs \<noteq> 0" using assms(2) b by (auto simp: unat_gt_0) (metis less_irrefl unat_0 unat_gt_0)
  have fresh: "watermark_is_fresh (wx_watermark (bh_ctx h)) (mc_epoch ?cache)" using assms(5) by (simp add: watermark_is_fresh_def)
  have sum: "unat (io_offset_bytes q + ucast (io_length_bytes q)) = ?off + ?len"
    using assms(4) by (subst unat_add_lem[THEN iffD1]) (simp_all add: unat_ucast_u32)
  obtain s e where r: "io_block_range q ?bs = Some (s, e)" using b0(2) by (auto simp: io_block_range_def)
  show ?thesis
  proof (cases "unat (e - s) \<le> 1")
    case True
    obtain c' where "read_block lib rd ?cfg ?cache s ?bs (ucast (io_length_bytes q)) c = (replicate ?len 0, c')"
      using read_block_unheld[OF assms(3), of lib ?cfg s ?cache ?bs "ucast (io_length_bytes q)"] assms(6) by (auto simp: unat_ucast_u32)
    then show ?thesis using True r by (simp add: device_read_def fresh assms(1) read_single_block_def)
  next
    case False
    have s: "unat s * unat ?bs \<le> ?off" using r b0 by (auto simp: io_block_range_def unat_div)
    have e: "?off + ?len \<le> unat e * unat ?bs"
    proof -
      have "div_ceil (?off + ?len) (unat ?bs) \<le> ?off + ?len" by (rule div_ceil_le[OF b0(1)])
      then have "div_ceil (?off + ?len) (unat ?bs) < 2 ^ 64" using assms(4) by linarith
      then have "unat e = div_ceil (?off + ?len) (unat ?bs)"
        using r b0 sum by (auto simp: io_block_range_def unsigned_of_nat take_bit_nat_eq_self)
      then show ?thesis using div_ceil_bounds[OF b0(1), of "?off + ?len"] by simp
    qed
    obtain c' where rb: "read_blocks lib rs rd env ?cfg ?cache ?bs (range_blocks (s, e)) c =
        (Inr (concat (map (\<lambda>_. replicate (unat ?bs) 0) (range_blocks (s, e)))), c')"
      using read_blocks_unheld[OF assms(1,3), of "range_blocks (s, e)" lib rs env ?cache ?bs] assms(6) by auto
    have "?len \<le> (unat e - unat s) * unat ?bs" using s e by (simp add: diff_mult_distrib)
    then have "take ?len (concat (map (\<lambda>_. replicate (unat ?bs) 0) (range_blocks (s, e)))) = replicate ?len (0 :: u8)"
      unfolding length_concat_zeros by (simp add: range_blocks_def min_def)
    then show ?thesis using False r rb by (simp add: device_read_def fresh assms(1) Let_def)
  qed
qed

end

section \<open>Termination\<close>

text \<open>
  C4: Every request returns: with a non-zero block size and as long as the byte after the request and one
  extent more can be counted in 64 bits, the handler answers a request of any kind, with a result or an
  error, whatever the data nodes and the metadata service answer.
\<close>

theorem handle_io_returns:
  assumes "vc_block_size (bh_config h) \<noteq> 0"
    and "unat (io_offset_bytes q + ucast (io_length_bytes q)) + unat (extent_blocks (bh_config h)) < 2 ^ 64"
  shows "\<exists>res h' c'. handle_io lib rs wr rd env q (h, c) = Some (res, h', c')"
proof -
  have "ucast (vc_block_size (bh_config h)) \<noteq> (0 :: u64)"
    using assms(1) by (metis ucast_0 unat_ucast_u32 unsigned_0 unsigned_eq_0_iff)
  then obtain r where r: "io_block_range q (ucast (vc_block_size (bh_config h))) = Some r" by (simp add: io_block_range_def)
  have "unat (snd r) + unat (extent_blocks (bh_config h)) < 2 ^ 64" using block_range_end[OF r] assms(2) by linarith
  note loop = write_loop_terminates[where lib = lib and rs = rs and wr = wr and env = env and i = 0 and off = 0 and cur = "fst r" and
      st = "(bh_ctx h, c)", OF this order_refl]
  then have "device_write lib rs wr env q (h, c) \<noteq> None"
    using r by (simp add: device_write_def del: not_None_eq split: sum.split option.split)
  moreover have "device_read lib rs rd env q (h, c) \<noteq> None"
    using r by (auto simp: device_read_def Let_def split: sum.split option.split prod.split ProtectionPolicy.split)
  ultimately show ?thesis by (cases "io_operation q") (auto simp: handle_io_def)
qed

section \<open>Concrete instances\<close>

definition demo_nodes :: "NodeId list \<Rightarrow> ProtectionPolicy \<Rightarrow> MetadataCache" where
  "demo_nodes ns p =
     \<lparr> mc_epoch = 0, mc_cluster_map = map (\<lambda>n. (unary_text n, \<lparr> na_node_id = n, na_addr = ''x'' \<rparr>)) ns,
       mc_volumes = [(unary_text 3, \<lparr> cv_volume_id = 3, cv_size_bytes = 64, cv_block_size = 2, cv_protection = p, cv_extent_mappings = [] \<rparr>)] \<rparr>"

definition demo_device :: "NodeId list \<Rightarrow> ProtectionPolicy \<Rightarrow> BlockHandler" where
  "demo_device ns p =
     \<lparr> bh_config = \<lparr> vc_volume_id = 3, vc_size_bytes = 64, vc_block_size = 2, vc_protection = p, vc_extent_size = 4 \<rparr>,
       bh_lease = \<lparr> lm_state = LsActive, lm_lease_version = Some 1, lm_expires_at_ms = None \<rparr>,
       bh_ctx = \<lparr> wx_cache = demo_nodes ns p, wx_session = \<lparr> ss_session_id = 2, ss_volume_id = 3, ss_operation_counter = 0 \<rparr>,
         wx_watermark = 0, wx_stale = \<lparr> sh_paused = False, sh_refresh_count = 0 \<rparr> \<rparr> \<rparr>"

definition demo_io :: "u64 \<Rightarrow> bytes \<Rightarrow> IoRequest" where
  "demo_io off data = \<lparr> io_operation = IoWrite, io_offset_bytes = off, io_length_bytes = of_nat (length data), io_data = Some data, io_tag = 0 \<rparr>"

definition demo_handler_env :: HandlerEnv where
  "demo_handler_env = \<lparr> hv_op = (\<lambda>i. of_nat i + 100), hv_attempt = (\<lambda>_ _. demo_attempt), hv_refresh = (\<lambda>c. (Inr 0, c)), hv_order = id \<rparr>"

definition mirror_code :: RsLib where
  "mirror_code = \<lparr> rs_new = (\<lambda>k m. None), rs_encode = (\<lambda>k m shards. Inr (replicate (length shards) (hd shards))),
     rs_reconstruct = (\<lambda>k m got. Inr (replicate (length got) (case find (\<lambda>s. s \<noteq> None) got of Some s \<Rightarrow> s | None \<Rightarrow> None))) \<rparr>"

theorem handle_io_returns_witness:
  "\<exists>res h c. handle_io demo_lib mirror_code (\<lambda>n a c. (None, c)) (\<lambda>n q c. (Inl [], c)) demo_handler_env (demo_io 6 [1, 2, 3])
     (demo_device [1] (Replicated 1), ()) = Some (res, h, c)"
  by (rule handle_io_returns) (simp_all add: demo_device_def demo_io_def extent_blocks_def)

end
