(* ===== verification/Cluster.thy ===== *)
theory Cluster
  imports Protocol DeviceIo
begin

text \<open>
  The data plane as a whole: the TCP client of the mounted volume (\<^verbatim>\<open>blockyard-ublk/src/tcp_client.rs\<close>) with its
  connection pool and its one retry, the handler that joins the protocol server to the data node
  (\<^verbatim>\<open>blockyard/src/node.rs\<close>), and the data nodes. Connections can fail before a request, lose the request or
  lose the response. The calls are shown to keep the contract \<^verbatim>\<open>data_plane\<close>, so that the facts about the write
  pipelines and the block device hold for this cluster. Requests are exchanged as values here; that the
  bytes on a connection carry exactly these calls is shown in \<^verbatim>\<open>Protocol\<close>.
\<close>

section \<open>Texts of errors\<close>

text \<open>The text of a storage error names files of the host, so it is an argument.\<close>

fun write_error_text :: "(uuid \<Rightarrow> string) \<Rightarrow> (StorageError \<Rightarrow> string) \<Rightarrow> WriteError \<Rightarrow> string" where
  "write_error_text fmt sse (WeDenied caller v) =
     ''write denied: '' @ identity_display fmt caller @ '' not authorized for volume '' @ fmt v"
| "write_error_text fmt sse WePreviousFailed = ''previous attempt failed''"
| "write_error_text fmt sse (WeStaleEpoch e current) =
     ''stale epoch: request epoch '' @ decimal (unat e) @ '' < current '' @ decimal (unat current)"
| "write_error_text fmt sse (WeLeaseMissing v) = ''volume '' @ fmt v @ '' requires lease, but write has no lease_version''"
| "write_error_text fmt sse (WeLeaseHeld v holder session) =
     ''lease for volume '' @ fmt v @ '' held by session '' @ fmt holder @ '', write from '' @ fmt session"
| "write_error_text fmt sse (WeLeaseStale v ver current) =
     ''stale lease version for volume '' @ fmt v @ '': request has '' @ decimal (unat ver) @ '', current is '' @ decimal (unat current)"
| "write_error_text fmt sse (WeAllocation e) = sse e"
| "write_error_text fmt sse (WePayloadChecksum expected got) =
     ''payload checksum mismatch: expected '' @ expected @ '', got '' @ got"
| "write_error_text fmt sse (WeNoStore d) = ''no extent store for disk '' @ fmt d"
| "write_error_text fmt sse (WeStaging e) = ''staging failed: '' @ sse e"
| "write_error_text fmt sse (WeCommit e) = ''commit failed: '' @ sse e"

section \<open>Data nodes behind their servers\<close>

text \<open>
  A server passes the identity it was configured with to the data node for every request, whoever the
  peer is.
\<close>

definition node_handler ::
  "(bytes \<Rightarrow> checksum) \<Rightarrow> (uuid \<Rightarrow> string) \<Rightarrow> WriteEnv \<Rightarrow> bool \<Rightarrow> PeerIdentity \<Rightarrow> DataNodeService data_handler" where
  "node_handler hash fmt env io_ok identity =
     \<lparr> dh_write = (\<lambda>request payload. handle_write hash fmt env request payload identity),
       dh_read = (\<lambda>request. handle_read hash fmt io_ok request identity) \<rparr>"

record DataServer =
  ds_node_id :: NodeId
  ds_identity :: PeerIdentity
  ds_auth :: "auth_provider option"
  ds_service :: DataNodeService

text \<open>
  What a call meets on the network and on the host that serves it. After the listed calls to a node,
  all further calls meet \<^verbatim>\<open>cu_rest\<close>.
\<close>

datatype NetFault = NetOk | ConnectFails | RequestLost | ResponseLost

record CallFate =
  cf_net :: NetFault
  cf_text :: string
  cf_write :: WriteEnv
  cf_io_ok :: bool
  cf_op :: OperationId
  cf_session :: SessionId

text \<open>The client's table of addresses and its pool of connections, and the servers.\<close>

record Cluster =
  cu_addresses :: "(string, SocketAddr) btree"
  cu_connections :: "(string, SocketAddr) btree"
  cu_servers :: "SocketAddr \<Rightarrow> DataServer option"
  cu_fates :: "NodeId \<Rightarrow> CallFate list"
  cu_rest :: "NodeId \<Rightarrow> CallFate"

definition next_fate :: "NodeId \<Rightarrow> Cluster \<Rightarrow> CallFate \<times> Cluster" where
  "next_fate n c =
     (case cu_fates c n of
        [] \<Rightarrow> (cu_rest c n, c)
      | f # fs \<Rightarrow> (f, c\<lparr> cu_fates := (cu_fates c)(n := fs) \<rparr>))"

section \<open>The client's connections\<close>

definition register_node :: "(uuid \<Rightarrow> string) \<Rightarrow> NodeId \<Rightarrow> SocketAddr \<Rightarrow> Cluster \<Rightarrow> Cluster" where
  "register_node fmt n addr c = c\<lparr> cu_addresses := bt_insert (fmt n) addr (cu_addresses c) \<rparr>"

definition unregister_node :: "(uuid \<Rightarrow> string) \<Rightarrow> NodeId \<Rightarrow> Cluster \<Rightarrow> Cluster" where
  "unregister_node fmt n c =
     c\<lparr> cu_addresses := bt_remove (fmt n) (cu_addresses c), cu_connections := bt_remove (fmt n) (cu_connections c) \<rparr>"

definition connect_and_handshake :: "CallFate \<Rightarrow> SocketAddr \<Rightarrow> Cluster \<Rightarrow> (unit, Error) result" where
  "connect_and_handshake f addr c =
     (case cu_servers c addr of
        None \<Rightarrow> Inl (Network (''failed to connect to '' @ addr @ '': '' @ cf_text f))
      | Some sv \<Rightarrow>
          if cf_net f = ConnectFails then Inl (Network (''failed to connect to '' @ addr @ '': '' @ cf_text f))
          else
            (let (resp, _) = negotiate_version_with_auth handshake_request (ds_node_id sv) (ds_auth sv) in
             if \<not> hr_accepted resp then
               Inl (Network (''handshake rejected by '' @ addr @ '': '' @ (case hr_message resp of Some m \<Rightarrow> m | None \<Rightarrow> [])))
             else Inr ()))"

definition get_connection :: "(uuid \<Rightarrow> string) \<Rightarrow> CallFate \<Rightarrow> NodeId \<Rightarrow> Cluster \<Rightarrow> (SocketAddr, Error) result \<times> Cluster" where
  "get_connection fmt f n c =
     (case bt_get (cu_connections c) (fmt n) of
        Some addr \<Rightarrow> (Inr addr, c)
      | None \<Rightarrow>
          (case bt_get (cu_addresses c) (fmt n) of
             None \<Rightarrow> (Inl (Network (''no address registered for node '' @ fmt n)), c)
           | Some addr \<Rightarrow>
               (case connect_and_handshake f addr c of
                  Inl e \<Rightarrow> (Inl e, c)
                | Inr _ \<Rightarrow> (Inr addr, c\<lparr> cu_connections := bt_insert (fmt n) addr (cu_connections c) \<rparr>))))"

definition drop_connection :: "(uuid \<Rightarrow> string) \<Rightarrow> NodeId \<Rightarrow> Cluster \<Rightarrow> Cluster" where
  "drop_connection fmt n c = c\<lparr> cu_connections := bt_remove (fmt n) (cu_connections c) \<rparr>"

text \<open>
  One request over the connection to a node: the server's part is \<^verbatim>\<open>serve\<close>, whose result \<^const>\<open>None\<close> is a
  panic, after which the connection is closed with the state as it was. A lost request leaves the server
  as it was, a lost response leaves it changed.
\<close>

definition exchange ::
  "(uuid \<Rightarrow> string) \<Rightarrow> NodeId \<Rightarrow> (CallFate \<Rightarrow> DataServer \<Rightarrow> ('r \<times> DataNodeService) option) \<Rightarrow> Cluster \<Rightarrow> ('r, Error) result \<times> Cluster" where
  "exchange fmt n serve c =
     (let (f, c1) = next_fate n c; (conn, c2) = get_connection fmt f n c1 in
      case conn of
        Inl e \<Rightarrow> (Inl e, c2)
      | Inr addr \<Rightarrow>
          (case cu_servers c2 addr of
             None \<Rightarrow> (Inl (Network (cf_text f)), c2)
           | Some sv \<Rightarrow>
               if cf_net f = ConnectFails \<or> cf_net f = RequestLost then (Inl (Network (cf_text f)), c2)
               else
                 (case serve f sv of
                    None \<Rightarrow> (Inl (Network (cf_text f)), c2)
                  | Some (r, s') \<Rightarrow>
                      (let c3 = c2\<lparr> cu_servers := (cu_servers c2)(addr \<mapsto> sv\<lparr> ds_service := s' \<rparr>) \<rparr> in
                       if cf_net f = ResponseLost then (Inl (Network (cf_text f)), c3) else (Inr r, c3)))))"

section \<open>Calls\<close>

definition convert_write_response ::
  "(uuid \<Rightarrow> string) \<Rightarrow> (StorageError \<Rightarrow> string) \<Rightarrow> NodeId \<Rightarrow> WriteExtentResponse \<Rightarrow> WriteAck" where
  "convert_write_response fmt sse n resp =
     (let msg = (case wr_error resp of Some e \<Rightarrow> write_error_text fmt sse e | None \<Rightarrow> []) in
      \<lparr> wa_node_id = n, wa_success = wr_success resp, wa_checksum = wr_checksum resp,
        wa_error =
          (if wr_success resp then None
           else if text_contains msg ''stale'' \<or> text_contains msg ''epoch'' then Some AckStaleEpoch
           else if text_contains msg ''disk'' \<or> text_contains msg ''unavailable'' then Some AckDiskUnavailable
           else if text_contains msg ''duplicate'' then Some AckDuplicateOperation
           else Some (AckInternalError msg)) \<rparr>)"

definition tcp_write_request :: "WriteCall \<Rightarrow> WriteExtentRequest" where
  "tcp_write_request a =
     \<lparr> wq_operation_id = wc_operation_id a, wq_session_id = wc_session_id a, wq_volume_id = wc_volume_id a,
       wq_extent_id = wc_extent_id a, wq_extent_version = wc_extent_version a, wq_epoch = wc_epoch a,
       wq_target_disk_id = None, wq_checksum = wc_checksum a, wq_payload_size = of_nat (length (wc_data a)),
       wq_lease_version = None \<rparr>"

definition try_write_extent ::
  "(bytes \<Rightarrow> checksum) \<Rightarrow> (uuid \<Rightarrow> string) \<Rightarrow> (StorageError \<Rightarrow> string) \<Rightarrow> NodeId \<Rightarrow> WriteCall \<Rightarrow> Cluster \<Rightarrow>
   (WriteAck, Error) result \<times> Cluster" where
  "try_write_extent hash fmt sse n a c =
     apfst (map_sum id (convert_write_response fmt sse n))
       (exchange fmt n (\<lambda>f sv. Some (dh_write (node_handler hash fmt (cf_write f) (cf_io_ok f) (ds_identity sv))
          (tcp_write_request a) (wc_data a) (ds_service sv))) c)"

definition tcp_write_extent ::
  "(bytes \<Rightarrow> checksum) \<Rightarrow> (uuid \<Rightarrow> string) \<Rightarrow> (StorageError \<Rightarrow> string) \<Rightarrow> Cluster write_rpc" where
  "tcp_write_extent hash fmt sse n a c =
     (case try_write_extent hash fmt sse n a c of
        (Inr ack, c1) \<Rightarrow> (Some (Inr ack), c1)
      | (Inl _, c1) \<Rightarrow> apfst Some (try_write_extent hash fmt sse n a (drop_connection fmt n c1)))"

definition tcp_read_request :: "CallFate \<Rightarrow> ReadCall \<Rightarrow> ReadExtentRequest" where
  "tcp_read_request f q =
     \<lparr> rq_operation_id = cf_op f, rq_session_id = cf_session f, rq_volume_id = rl_volume_id q, rq_extent_id = rl_extent_id q,
       rq_extent_version = rl_extent_version q, rq_epoch = 0, rq_offset = rl_offset q, rq_length = rl_length q \<rparr>"

definition read_reply :: "(uuid \<Rightarrow> string) \<Rightarrow> (ReadError \<Rightarrow> string) \<Rightarrow> NodeId \<Rightarrow> ReadExtentResponse \<times> bytes option \<Rightarrow> (bytes, Error) result" where
  "read_reply fmt ret n r =
     (if \<not> rr_success (fst r) then
        Inl (Storage (''read failed on node '' @ fmt n @ '': '' @ (case rr_error (fst r) of Some e \<Rightarrow> ret e | None \<Rightarrow> [])))
      else Inr (case snd r of Some d \<Rightarrow> d | None \<Rightarrow> []))"

definition try_read_extent ::
  "(bytes \<Rightarrow> checksum) \<Rightarrow> (uuid \<Rightarrow> string) \<Rightarrow> (ReadError \<Rightarrow> string) \<Rightarrow> NodeId \<Rightarrow> ReadCall \<Rightarrow> Cluster \<Rightarrow> (bytes, Error) result \<times> Cluster" where
  "try_read_extent hash fmt ret n q c =
     (case exchange fmt n (\<lambda>f sv. dh_read (node_handler hash fmt (cf_write f) (cf_io_ok f) (ds_identity sv))
             (tcp_read_request f q) (ds_service sv)) c of
        (Inl e, c') \<Rightarrow> (Inl e, c')
      | (Inr r, c') \<Rightarrow> (read_reply fmt ret n r, c'))"

definition tcp_read_extent ::
  "(bytes \<Rightarrow> checksum) \<Rightarrow> (uuid \<Rightarrow> string) \<Rightarrow> (ReadError \<Rightarrow> string) \<Rightarrow> (Error \<Rightarrow> string) \<Rightarrow> Cluster read_rpc" where
  "tcp_read_extent hash fmt ret show_error n q c =
     (let (r, c') =
        (case try_read_extent hash fmt ret n q c of
           (Inr d, c1) \<Rightarrow> (Inr d, c1)
         | (Inl _, c1) \<Rightarrow> try_read_extent hash fmt ret n q (drop_connection fmt n c1))
      in (map_sum show_error id r, c'))"

section \<open>What the cluster holds\<close>

definition cluster_service :: "(uuid \<Rightarrow> string) \<Rightarrow> Cluster \<Rightarrow> NodeId \<Rightarrow> DataNodeService option" where
  "cluster_service fmt c n =
     (case bt_get (cu_addresses c) (fmt n) of None \<Rightarrow> None | Some addr \<Rightarrow> map_option ds_service (cu_servers c addr))"

definition cluster_held :: "(bytes \<Rightarrow> checksum) \<Rightarrow> (uuid \<Rightarrow> string) \<Rightarrow> Cluster \<Rightarrow> NodeId \<Rightarrow> ExtentId \<Rightarrow> u64 \<Rightarrow> bytes option" where
  "cluster_held hash fmt c n x v = (case cluster_service fmt c n of None \<Rightarrow> None | Some s \<Rightarrow> node_held hash s x v)"

definition cluster_fresh :: "(uuid \<Rightarrow> string) \<Rightarrow> Cluster \<Rightarrow> NodeId \<Rightarrow> OperationId \<Rightarrow> bool" where
  "cluster_fresh fmt c n op = (case cluster_service fmt c n of None \<Rightarrow> True | Some s \<Rightarrow> check_duplicate s op = None)"

definition cluster_at_most :: "(uuid \<Rightarrow> string) \<Rightarrow> Cluster \<Rightarrow> NodeId \<Rightarrow> ExtentId \<Rightarrow> u64 \<Rightarrow> bytes \<Rightarrow> bool" where
  "cluster_at_most fmt c n x v data = (case cluster_service fmt c n of None \<Rightarrow> True | Some s \<Rightarrow> holds_at_most s x v data)"

text \<open>
  The client's tables fit the servers: no two nodes are registered with the same address, a pooled
  connection leads to the registered address, and every server's stores are on the disks they are
  registered for.
\<close>

definition cluster_ok :: "(uuid \<Rightarrow> string) \<Rightarrow> Cluster \<Rightarrow> bool" where
  "cluster_ok fmt c \<longleftrightarrow> inj fmt \<and>
     (\<forall>k k' addr. bt_get (cu_addresses c) k = Some addr \<and> bt_get (cu_addresses c) k' = Some addr \<longrightarrow> k = k') \<and>
     (\<forall>k addr. bt_get (cu_connections c) k = Some addr \<longrightarrow> bt_get (cu_addresses c) k = Some addr) \<and>
     (\<forall>addr sv. cu_servers c addr = Some sv \<longrightarrow> stores_ok (ds_service sv))"

text \<open>
  A node that answers reads: a connection to it is pooled, its calls meet no fault, and it lets the
  request through.
\<close>

definition cluster_serves :: "(uuid \<Rightarrow> string) \<Rightarrow> Cluster \<Rightarrow> NodeId \<Rightarrow> ReadCall \<Rightarrow> bool" where
  "cluster_serves fmt c n q \<longleftrightarrow>
     bt_get (cu_connections c) (fmt n) \<noteq> None \<and> cu_fates c n = [] \<and> cf_net (cu_rest c n) = NetOk \<and> cf_io_ok (cu_rest c n) \<and>
     (\<forall>addr sv. bt_get (cu_connections c) (fmt n) = Some addr \<and> cu_servers c addr = Some sv \<longrightarrow>
        check_read fmt (dn_volume_acl (ds_service sv)) (rl_volume_id q) (ds_identity sv) \<and>
        validate_epoch_for_read (ds_service sv) 0 = Inr () \<and>
        (\<forall>entry. index_get (dn_index (ds_service sv)) (rl_extent_id q) = Some entry \<longrightarrow>
           inv_allows_reads (dn_inventory (ds_service sv)) (le_disk_id entry) \<noteq> Inr False))"

text \<open>What any call leaves alone.\<close>

definition others_kept :: "(uuid \<Rightarrow> string) \<Rightarrow> NodeId \<Rightarrow> Cluster \<Rightarrow> Cluster \<Rightarrow> bool" where
  "others_kept fmt n c c' \<longleftrightarrow> cu_addresses c' = cu_addresses c \<and> cu_rest c' = cu_rest c \<and>
     (\<forall>n'. n' \<noteq> n \<longrightarrow> bt_get (cu_connections c') (fmt n') = bt_get (cu_connections c) (fmt n') \<and> cu_fates c' n' = cu_fates c n') \<and>
     (\<forall>k addr. bt_get (cu_connections c') k = Some addr \<longrightarrow>
        bt_get (cu_connections c) k = Some addr \<or> bt_get (cu_addresses c) k = Some addr)"

lemma next_fate_kept:
  "next_fate n c = (f, c') \<Longrightarrow> cu_servers c' = cu_servers c \<and> cu_addresses c' = cu_addresses c \<and> cu_connections c' = cu_connections c \<and>
     cu_rest c' = cu_rest c \<and> (\<forall>n'. n' \<noteq> n \<longrightarrow> cu_fates c' n' = cu_fates c n')"
  by (auto simp: next_fate_def split: list.splits)

lemma get_connection_kept:
  assumes "get_connection fmt f n c = (r, c')" "inj fmt"
  shows "cu_servers c' = cu_servers c \<and> cu_fates c' = cu_fates c \<and> others_kept fmt n c c'"
  using assms
  by (auto simp: get_connection_def others_kept_def inj_eq split: option.splits sum.splits if_splits)

lemma get_connection_addr:
  assumes "get_connection fmt f n c = (Inr addr, c')" "cluster_ok fmt c"
  shows "bt_get (cu_addresses c) (fmt n) = Some addr"
  using assms by (auto simp: get_connection_def cluster_ok_def split: option.splits sum.splits)

lemma exchange_cases [consumes 2, case_names idle served]:
  assumes "exchange fmt n serve c = (r, c')" "cluster_ok fmt c"
  obtains (idle) e where "r = Inl e" "cu_servers c' = cu_servers c" "others_kept fmt n c c'"
  | (served) addr sv f out s' where "others_kept fmt n c c'" "bt_get (cu_addresses c) (fmt n) = Some addr" "cu_servers c addr = Some sv"
      "serve f sv = Some (out, s')" "cu_servers c' = (cu_servers c)(addr \<mapsto> sv\<lparr> ds_service := s' \<rparr>)" "r = Inr out \<or> (\<exists>e. r = Inl e)"
proof -
  have inj: "inj fmt" using assms(2) by (simp add: cluster_ok_def)
  obtain f c1 where f: "next_fate n c = (f, c1)" by fastforce
  obtain conn c2 where g: "get_connection fmt f n c1 = (conn, c2)" by fastforce
  note fk = next_fate_kept[OF f] and gk = get_connection_kept[OF g inj]
  have ok1: "cluster_ok fmt c1" using assms(2) fk by (simp add: cluster_ok_def)
  have kept: "others_kept fmt n c c2" using fk gk by (auto simp: others_kept_def)
  have sv2: "cu_servers c2 = cu_servers c" using fk gk by simp
  show thesis
  proof (cases conn)
    case (Inl e)
    then show thesis using assms(1) f g kept sv2 by (intro idle) (auto simp: exchange_def)
  next
    case (Inr addr)
    have addr: "bt_get (cu_addresses c) (fmt n) = Some addr" using get_connection_addr[OF g[unfolded Inr] ok1] fk by simp
    show thesis
    proof (cases "cu_servers c addr = None \<or> cf_net f = ConnectFails \<or> cf_net f = RequestLost \<or> (\<exists>sv. cu_servers c addr = Some sv \<and> serve f sv = None)")
      case True
      then show thesis using assms(1) f g kept sv2 Inr by (intro idle) (auto simp: exchange_def split: option.splits)
    next
      case False
      then obtain sv out s' where sv: "cu_servers c addr = Some sv" "serve f sv = Some (out, s')"
        "\<not> (cf_net f = ConnectFails \<or> cf_net f = RequestLost)" by (metis not_None_eq surj_pair)
      let ?c3 = "c2\<lparr> cu_servers := (cu_servers c)(addr \<mapsto> sv\<lparr> ds_service := s' \<rparr>) \<rparr>"
      have "(r, c') = (if cf_net f = ResponseLost then (Inl (Network (cf_text f)), ?c3) else (Inr out, ?c3))"
        using assms(1) f g Inr sv sv2 by (simp add: exchange_def Let_def)
      then have "c' = ?c3" "r = Inr out \<or> (\<exists>e. r = Inl e)" by (auto split: if_splits)
      then show thesis using kept addr sv by (intro served) (simp_all add: others_kept_def)
    qed
  qed
qed

lemma service_kept:
  assumes "others_kept fmt n c c'" "cu_servers c' = cu_servers c"
  shows "cluster_service fmt c' n' = cluster_service fmt c n'"
  using assms by (simp add: cluster_service_def others_kept_def split: option.split)

lemma service_served:
  assumes "others_kept fmt n c c'" "cluster_ok fmt c" "bt_get (cu_addresses c) (fmt n) = Some addr"
    and "cu_servers c addr = Some sv" "cu_servers c' = (cu_servers c)(addr \<mapsto> sv\<lparr> ds_service := s' \<rparr>)"
  shows "cluster_service fmt c n = Some (ds_service sv)" "cluster_service fmt c' n = Some s'"
    "n' \<noteq> n \<Longrightarrow> cluster_service fmt c' n' = cluster_service fmt c n'"
proof -
  have ad: "cu_addresses c' = cu_addresses c" using assms(1) by (simp add: others_kept_def)
  show "cluster_service fmt c n = Some (ds_service sv)" "cluster_service fmt c' n = Some s'"
    using assms(3-5) by (simp_all add: cluster_service_def ad)
  assume "n' \<noteq> n"
  then have "fmt n' \<noteq> fmt n" using assms(2) by (simp add: cluster_ok_def inj_eq)
  then have "bt_get (cu_addresses c) (fmt n') \<noteq> Some addr" using assms(2,3) unfolding cluster_ok_def by blast
  then show "cluster_service fmt c' n' = cluster_service fmt c n'"
    by (auto simp: cluster_service_def ad assms(5) split: option.split)
qed

lemma kept_ok:
  assumes "others_kept fmt n c c'" "cluster_ok fmt c" "\<And>addr sv. cu_servers c' addr = Some sv \<Longrightarrow> stores_ok (ds_service sv)"
  shows "cluster_ok fmt c'"
  using assms unfolding cluster_ok_def others_kept_def by metis

section \<open>The laws of the calls\<close>

lemma drop_connection_kept: "inj fmt \<Longrightarrow> others_kept fmt n c (drop_connection fmt n c) \<and> cu_servers (drop_connection fmt n c) = cu_servers c"
  by (auto simp: others_kept_def drop_connection_def inj_eq split: if_splits)

lemma drop_connection_ok: "cluster_ok fmt c \<Longrightarrow> cluster_ok fmt (drop_connection fmt n c)"
  by (auto simp: cluster_ok_def drop_connection_def split: if_splits)

lemma drop_connection_service [simp]: "cluster_service fmt (drop_connection fmt n c) = cluster_service fmt c"
  by (intro ext) (simp add: cluster_service_def drop_connection_def split: option.split)

lemma others_kept_trans: "others_kept fmt n a b \<Longrightarrow> others_kept fmt n b c \<Longrightarrow> others_kept fmt n a c"
  unfolding others_kept_def by metis

text \<open>One attempt at a write either leaves every node as it was and fails, or has its node handle the request.\<close>

lemma try_write_cases [consumes 2, case_names idle served]:
  assumes "try_write_extent hash fmt sse n a c = (r, c')" "cluster_ok fmt c"
  obtains (idle) e where "r = Inl e" "\<And>n'. cluster_service fmt c' n' = cluster_service fmt c n'" "cluster_ok fmt c'"
  | (served) s s' env caller resp where "cluster_service fmt c n = Some s" "cluster_service fmt c' n = Some s'"
      "\<And>n'. n' \<noteq> n \<Longrightarrow> cluster_service fmt c' n' = cluster_service fmt c n'" "cluster_ok fmt c'" "stores_ok s"
      "handle_write hash fmt env (tcp_write_request a) (wc_data a) caller s = (resp, s')"
      "r = Inr (convert_write_response fmt sse n resp) \<or> (\<exists>e. r = Inl e)"
proof -
  let ?serve = "\<lambda>f sv. Some (dh_write (node_handler hash fmt (cf_write f) (cf_io_ok f) (ds_identity sv)) (tcp_write_request a) (wc_data a) (ds_service sv))"
  obtain r0 where x: "exchange fmt n ?serve c = (r0, c')" and r: "r = map_sum id (convert_write_response fmt sse n) r0"
    using assms(1) by (cases "exchange fmt n ?serve c") (auto simp: try_write_extent_def)
  have st: "stores_ok (ds_service sv)" if "cu_servers c addr = Some sv" for addr sv using assms(2) that by (simp add: cluster_ok_def)
  from x assms(2) show thesis
  proof (cases rule: exchange_cases)
    case (idle e)
    show thesis
      by (rule that(1)[of e]) (use idle r st assms(2) in \<open>auto intro: kept_ok simp: service_kept\<close>)
  next
    case (served addr sv f out s')
    note sn = service_served[OF served(1) assms(2) served(2,3,5)]
    have h: "handle_write hash fmt (cf_write f) (tcp_write_request a) (wc_data a) (ds_identity sv) (ds_service sv) = (out, s')"
      using served(4) by (simp add: node_handler_def)
    have "cluster_ok fmt c'"
      by (rule kept_ok[OF served(1) assms(2)])
         (use served(5) st handle_write_stores_ok[OF h st[OF served(3)]] in \<open>auto split: if_splits\<close>)
    then show thesis using sn h st[OF served(3)] served(6) r by (intro that(2)) auto
  qed
qed

definition cluster_settled :: "(bytes \<Rightarrow> checksum) \<Rightarrow> (uuid \<Rightarrow> string) \<Rightarrow> NodeId \<Rightarrow> WriteCall \<Rightarrow> Cluster \<Rightarrow> bool" where
  "cluster_settled hash fmt n a c \<longleftrightarrow>
     (\<forall>s. cluster_service fmt c n = Some s \<longrightarrow>
        op_settled hash (wc_operation_id a) (wc_extent_id a) (wc_extent_version a) (wc_data a) s)"

text \<open>What one attempt keeps, and what its success means.\<close>

definition write_contract :: "(bytes \<Rightarrow> checksum) \<Rightarrow> (uuid \<Rightarrow> string) \<Rightarrow> NodeId \<Rightarrow> WriteCall \<Rightarrow> bool \<Rightarrow> Cluster \<Rightarrow> Cluster \<Rightarrow> bool" where
  "write_contract hash fmt n a success c c' \<longleftrightarrow>
     cluster_ok fmt c' \<and>
     (cluster_settled hash fmt n a c \<longrightarrow> cluster_settled hash fmt n a c' \<and>
        (success \<longrightarrow> cluster_held hash fmt c' n (wc_extent_id a) (wc_extent_version a) = Some (wc_data a))) \<and>
     (\<forall>n' x v. n' \<noteq> n \<or> x \<noteq> wc_extent_id a \<longrightarrow> cluster_held hash fmt c' n' x v = cluster_held hash fmt c n' x v) \<and>
     (\<forall>n' op. cluster_fresh fmt c n' op \<and> (n' \<noteq> n \<or> op \<noteq> wc_operation_id a) \<longrightarrow> cluster_fresh fmt c' n' op) \<and>
     (\<forall>n' x v d. cluster_at_most fmt c n' x v d \<and> (n' \<noteq> n \<or> x \<noteq> wc_extent_id a \<or> v = wc_extent_version a \<and> d = wc_data a) \<longrightarrow>
        cluster_at_most fmt c' n' x v d)"

lemma write_request_fields [simp]:
  "wq_operation_id (tcp_write_request a) = wc_operation_id a" "wq_extent_id (tcp_write_request a) = wc_extent_id a"
  "wq_extent_version (tcp_write_request a) = wc_extent_version a"
  by (simp_all add: tcp_write_request_def)

lemma try_write_contract:
  assumes "try_write_extent hash fmt sse n a c = (r, c')" "cluster_ok fmt c"
  shows "write_contract hash fmt n a (\<exists>ack. r = Inr ack \<and> wa_success ack) c c'" "r = Inr ack \<Longrightarrow> wa_node_id ack = n"
proof -
  from assms show "write_contract hash fmt n a (\<exists>ack. r = Inr ack \<and> wa_success ack) c c'"
  proof (cases rule: try_write_cases)
    case (idle e)
    then show ?thesis
      by (simp add: write_contract_def cluster_settled_def cluster_held_def cluster_fresh_def cluster_at_most_def)
  next
    case (served s s' env caller resp)
    note w = served(6) and ok = served(5)
    have "cluster_settled hash fmt n a c \<longrightarrow> cluster_settled hash fmt n a c' \<and>
        ((\<exists>ack. r = Inr ack \<and> wa_success ack) \<longrightarrow> cluster_held hash fmt c' n (wc_extent_id a) (wc_extent_version a) = Some (wc_data a))"
      using handle_write_settles[OF w ok] served(1,2,7)
      by (auto simp: cluster_settled_def cluster_held_def convert_write_response_def Let_def)
    moreover have "cluster_held hash fmt c' n' x v = cluster_held hash fmt c n' x v" if "n' \<noteq> n \<or> x \<noteq> wc_extent_id a" for n' x v
      using that handle_write_held_other[OF w, of x v] served(1-3) by (cases "n' = n") (simp_all add: cluster_held_def)
    moreover have "cluster_fresh fmt c' n' op" if "cluster_fresh fmt c n' op" "n' \<noteq> n \<or> op \<noteq> wc_operation_id a" for n' op
      using that handle_write_log[OF w, of op] served(1-3) by (cases "n' = n"; cases "check_duplicate s' op") (auto simp: cluster_fresh_def)
    moreover have "cluster_at_most fmt c' n' x v d"
      if "cluster_at_most fmt c n' x v d" "n' \<noteq> n \<or> x \<noteq> wc_extent_id a \<or> v = wc_extent_version a \<and> d = wc_data a" for n' x v d
    proof (cases "n' = n")
      case True
      then show ?thesis using that handle_write_at_most[OF w ok] handle_write_at_most_other[OF w, of x v d] served(1,2)
        by (cases "x = wc_extent_id a") (simp_all add: cluster_at_most_def)
    next
      case False
      then show ?thesis using that(1) served(3) by (simp add: cluster_at_most_def)
    qed
    ultimately show ?thesis using served(4) unfolding write_contract_def by blast
  qed
  show "r = Inr ack \<Longrightarrow> wa_node_id ack = n"
    using assms(1) by (cases "exchange fmt n (\<lambda>f sv. Some (dh_write (node_handler hash fmt (cf_write f) (cf_io_ok f) (ds_identity sv))
        (tcp_write_request a) (wc_data a) (ds_service sv))) c")
      (auto simp: try_write_extent_def convert_write_response_def Let_def map_sum_def split: sum.splits)
qed

lemma write_contract_drop: "write_contract hash fmt n a b c c1 \<Longrightarrow> write_contract hash fmt n a b c (drop_connection fmt m c1)"
  unfolding write_contract_def cluster_settled_def cluster_held_def cluster_fresh_def cluster_at_most_def drop_connection_service
  by (blast intro: drop_connection_ok)

lemma write_contract_trans:
  assumes "write_contract hash fmt n a b c c1" "write_contract hash fmt n a b' c1 c2"
  shows "write_contract hash fmt n a b' c c2"
  using assms unfolding write_contract_def by metis

lemma tcp_write_contract:
  assumes "tcp_write_extent hash fmt sse n a c = (r, c')" "cluster_ok fmt c"
  shows "write_contract hash fmt n a (\<exists>ack. r = Some (Inr ack) \<and> wa_success ack) c c'" "r = Some (Inr ack) \<Longrightarrow> wa_node_id ack = n"
proof -
  obtain r1 c1 where t1: "try_write_extent hash fmt sse n a c = (r1, c1)" by fastforce
  note k1 = try_write_contract[OF t1 assms(2)]
  have "write_contract hash fmt n a (\<exists>ack. r = Some (Inr ack) \<and> wa_success ack) c c' \<and> (\<forall>ack. r = Some (Inr ack) \<longrightarrow> wa_node_id ack = n)"
  proof (cases r1)
    case (Inr ack)
    then show ?thesis using k1 assms(1) t1 by (auto simp: tcp_write_extent_def)
  next
    case (Inl e)
    have k1': "write_contract hash fmt n a False c (drop_connection fmt n c1)" using k1(1) Inl by (intro write_contract_drop) simp
    obtain r2 c2 where t2: "try_write_extent hash fmt sse n a (drop_connection fmt n c1) = (r2, c2)" by fastforce
    have "cluster_ok fmt (drop_connection fmt n c1)" using k1' by (simp add: write_contract_def)
    note k2 = try_write_contract[OF t2 this]
    have "r = Some r2" "c' = c2" using assms(1) t1 t2 Inl by (simp_all add: tcp_write_extent_def)
    then show ?thesis using write_contract_trans[OF k1' k2(1)] k2(2) by simp
  qed
  then show "write_contract hash fmt n a (\<exists>ack. r = Some (Inr ack) \<and> wa_success ack) c c'" "r = Some (Inr ack) \<Longrightarrow> wa_node_id ack = n" by blast+
qed

lemma handle_read_reply:
  assumes "handle_read hash fmt io r caller s = Some ((resp, p), s')" "rr_success resp"
  shows "p \<noteq> None"
  using assms
  by (auto simp: handle_read_def read_error_def Let_def split: if_splits sum.splits option.splits) (metis option.discI)

lemma handle_read_held:
  assumes "handle_read hash fmt io r caller s = Some ((resp, Some payload), s')"
  shows "\<exists>data. node_held hash s (rq_extent_id r) (rq_extent_version r) = Some data \<and> read_range data (rq_offset r) (rq_length r) = Some payload"
  using assms
proof (cases rule: handle_read_success)
  case (1 entry store data)
  have "io" using 1(5) by (cases io) (auto simp: read_extent_io_def split: option.splits)
  then show ?thesis using 1 by (auto simp: node_held_def)
qed

lemma handle_read_serves:
  assumes "check_read fmt (dn_volume_acl s) (rq_volume_id r) caller" "validate_epoch_for_read s (rq_epoch r) = Inr ()"
    and "\<forall>entry. index_get (dn_index s) (rq_extent_id r) = Some entry \<longrightarrow> inv_allows_reads (dn_inventory s) (le_disk_id entry) \<noteq> Inr False"
    and "node_held hash s (rq_extent_id r) (rq_extent_version r) = Some data" "read_range data (rq_offset r) (rq_length r) = Some d"
  shows "\<exists>resp. handle_read hash fmt True r caller s = Some ((resp, Some d), s) \<and> rr_success resp"
  using assms by (auto simp: handle_read_def node_held_def Let_def split: option.splits sum.splits if_splits)

definition read_contract :: "(bytes \<Rightarrow> checksum) \<Rightarrow> (uuid \<Rightarrow> string) \<Rightarrow> NodeId \<Rightarrow> Cluster \<Rightarrow> Cluster \<Rightarrow> bool" where
  "read_contract hash fmt n c c' \<longleftrightarrow> cluster_ok fmt c' \<and>
     (\<forall>n' x v. cluster_held hash fmt c' n' x v = cluster_held hash fmt c n' x v) \<and>
     (\<forall>n' q. n' \<noteq> n \<longrightarrow> cluster_serves fmt c' n' q = cluster_serves fmt c n' q)"

lemma serves_kept:
  assumes "others_kept fmt n c c'" "n' \<noteq> n" "cluster_ok fmt c"
    and "\<And>addr. bt_get (cu_addresses c) (fmt n) \<noteq> Some addr \<Longrightarrow> cu_servers c' addr = cu_servers c addr"
  shows "cluster_serves fmt c' n' q = cluster_serves fmt c n' q"
proof -
  have k: "bt_get (cu_connections c') (fmt n') = bt_get (cu_connections c) (fmt n')" "cu_fates c' n' = cu_fates c n'" "cu_rest c' = cu_rest c"
    using assms(1,2) by (simp_all add: others_kept_def)
  have "fmt n' \<noteq> fmt n" using assms(2,3) by (simp add: cluster_ok_def inj_eq)
  then have "cu_servers c' addr = cu_servers c addr" if "bt_get (cu_connections c) (fmt n') = Some addr" for addr
    using assms(3,4) that unfolding cluster_ok_def by blast
  then show ?thesis unfolding cluster_serves_def k by auto
qed

lemma read_contract_drop:
  assumes "read_contract hash fmt n c c1"
  shows "read_contract hash fmt n c (drop_connection fmt n c1)"
proof -
  have ok: "cluster_ok fmt c1" and inj: "inj fmt" using assms by (simp_all add: read_contract_def cluster_ok_def)
  have "cluster_serves fmt (drop_connection fmt n c1) n' q = cluster_serves fmt c1 n' q" if "n' \<noteq> n" for n' q
    using drop_connection_kept[OF inj] by (intro serves_kept[OF _ that ok]) simp_all
  then show ?thesis using assms drop_connection_ok[OF ok]
    unfolding read_contract_def cluster_held_def drop_connection_service by simp
qed

lemma read_contract_trans: "read_contract hash fmt n a b \<Longrightarrow> read_contract hash fmt n b c \<Longrightarrow> read_contract hash fmt n a c"
  by (simp add: read_contract_def)

lemma try_read_contract:
  assumes "try_read_extent hash fmt ret n q c = (r, c')" "cluster_ok fmt c"
  shows "read_contract hash fmt n c c' \<and> (\<forall>d. r = Inr d \<longrightarrow>
    (\<exists>data. cluster_held hash fmt c n (rl_extent_id q) (rl_extent_version q) = Some data \<and> read_range data (rl_offset q) (rl_length q) = Some d))"
proof -
  let ?serve = "\<lambda>f sv. dh_read (node_handler hash fmt (cf_write f) (cf_io_ok f) (ds_identity sv)) (tcp_read_request f q) (ds_service sv)"
  obtain r0 where x: "exchange fmt n ?serve c = (r0, c')"
    and r: "r = (case r0 of Inl e \<Rightarrow> Inl e | Inr out \<Rightarrow> read_reply fmt ret n out)"
    using assms(1) by (cases "exchange fmt n ?serve c") (auto simp: try_read_extent_def split: sum.splits)
  have st: "stores_ok (ds_service sv)" if "cu_servers c addr = Some sv" for addr sv using assms(2) that by (simp add: cluster_ok_def)
  from x assms(2) show ?thesis
  proof (cases rule: exchange_cases)
    case (idle e)
    have "cluster_ok fmt c'" using kept_ok[OF idle(3) assms(2)] idle(2) st by simp
    then show ?thesis using idle r serves_kept[OF idle(3) _ assms(2)]
      by (simp add: read_contract_def cluster_held_def service_kept[OF idle(3,2)])
  next
    case (served addr sv f out s')
    note sn = service_served[OF served(1) assms(2) served(2,3,5)]
    have h: "handle_read hash fmt (cf_io_ok f) (tcp_read_request f q) (ds_identity sv) (ds_service sv) = Some (out, s')"
      using served(4) by (simp add: node_handler_def)
    note fr = handle_read_frame[OF h]
    have "stores_ok s'" using st[OF served(3)] fr(2) by (simp add: stores_ok_def)
    then have "cluster_ok fmt c'" by (intro kept_ok[OF served(1) assms(2)]) (use served(5) st in \<open>auto split: if_splits\<close>)
    moreover have "cluster_held hash fmt c' n' = cluster_held hash fmt c n'" for n'
      using sn node_held_cong[OF fr(1,2)] by (cases "n' = n") (simp_all add: cluster_held_def fun_eq_iff)
    moreover have "cluster_serves fmt c' n' q' = cluster_serves fmt c n' q'" if "n' \<noteq> n" for n' q'
      by (rule serves_kept[OF served(1) that assms(2)]) (use served(2,5) in auto)
    moreover have "\<exists>data. cluster_held hash fmt c n (rl_extent_id q) (rl_extent_version q) = Some data \<and> read_range data (rl_offset q) (rl_length q) = Some d"
      if "r = Inr d" for d
    proof -
      have "r0 = Inr out" using that r served(6) by auto
      then have ok: "rr_success (fst out)" "d = (case snd out of Some d \<Rightarrow> d | None \<Rightarrow> [])"
        using that r by (auto simp: read_reply_def split: if_splits)
      obtain resp p where out: "out = (resp, p)" by fastforce
      have "p \<noteq> None" using handle_read_reply[of hash fmt _ _ _ _ resp p s'] h ok(1) by (auto simp: out)
      then have "out = (resp, Some d)" using ok(2) out by auto
      from handle_read_held[OF h[unfolded this]] show ?thesis using sn(1) by (simp add: tcp_read_request_def cluster_held_def)
    qed
    ultimately show ?thesis unfolding read_contract_def by simp
  qed
qed

lemma tcp_read_contract:
  assumes "tcp_read_extent hash fmt ret show_error n q c = (r, c')" "cluster_ok fmt c"
  shows "read_contract hash fmt n c c' \<and> (\<forall>d. r = Inr d \<longrightarrow>
    (\<exists>data. cluster_held hash fmt c n (rl_extent_id q) (rl_extent_version q) = Some data \<and> read_range data (rl_offset q) (rl_length q) = Some d))"
proof -
  obtain r1 c1 where t1: "try_read_extent hash fmt ret n q c = (r1, c1)" by fastforce
  note k1 = try_read_contract[OF t1 assms(2)]
  show ?thesis
  proof (cases r1)
    case (Inr d)
    then have "r = Inr d" "c' = c1" using assms(1) t1 by (simp_all add: tcp_read_extent_def)
    then show ?thesis using k1 Inr by simp
  next
    case (Inl e)
    note kd = read_contract_drop[OF conjunct1[OF k1]]
    obtain r2 c2 where t2: "try_read_extent hash fmt ret n q (drop_connection fmt n c1) = (r2, c2)" by fastforce
    have out: "r = map_sum show_error id r2" "c' = c2" using assms(1) t1 t2 Inl by (simp_all add: tcp_read_extent_def)
    have "cluster_ok fmt (drop_connection fmt n c1)" using kd by (simp add: read_contract_def)
    note k2 = try_read_contract[OF t2 this]
    have "read_contract hash fmt n c c'" using read_contract_trans[OF kd conjunct1[OF k2]] out by simp
    moreover have "r2 = Inr d" if "r = Inr d" for d using that out(1) by (cases r2) simp_all
    moreover have "cluster_held hash fmt (drop_connection fmt n c1) n x v = cluster_held hash fmt c n x v" for x v
      using kd by (simp add: read_contract_def)
    ultimately show ?thesis using k2 by simp
  qed
qed

lemma tcp_read_live:
  assumes "cluster_ok fmt c" "cluster_serves fmt c n q" "cluster_held hash fmt c n (rl_extent_id q) (rl_extent_version q) = Some data"
    and "read_range data (rl_offset q) (rl_length q) = Some d"
  shows "tcp_read_extent hash fmt ret show_error n q c = (Inr d, c)"
proof -
  obtain addr where conn: "bt_get (cu_connections c) (fmt n) = Some addr" using assms(2) by (auto simp: cluster_serves_def)
  then have "bt_get (cu_addresses c) (fmt n) = Some addr" using assms(1) by (simp add: cluster_ok_def)
  then obtain sv where sv: "cu_servers c addr = Some sv" "node_held hash (ds_service sv) (rl_extent_id q) (rl_extent_version q) = Some data"
    using assms(3) by (auto simp: cluster_held_def cluster_service_def split: option.splits)
  let ?f = "cu_rest c n"
  have s: "cu_fates c n = []" "cf_net ?f = NetOk" "cf_io_ok ?f" using assms(2) by (simp_all add: cluster_serves_def)
  have "\<exists>resp. handle_read hash fmt True (tcp_read_request ?f q) (ds_identity sv) (ds_service sv) = Some ((resp, Some d), ds_service sv) \<and> rr_success resp"
    by (rule handle_read_serves[where data = data])
       (use assms(2,4) conn sv in \<open>simp_all add: cluster_serves_def tcp_read_request_def\<close>)
  then obtain resp where h: "handle_read hash fmt True (tcp_read_request ?f q) (ds_identity sv) (ds_service sv) = Some ((resp, Some d), ds_service sv)"
    "rr_success resp" by blast
  have same: "c\<lparr> cu_servers := (cu_servers c)(addr \<mapsto> sv\<lparr> ds_service := ds_service sv \<rparr>) \<rparr> = c" using sv(1) by (simp add: fun_upd_idem)
  have "try_read_extent hash fmt ret n q c = (Inr d, c)"
    using h same by (simp add: try_read_extent_def exchange_def next_fate_def get_connection_def s conn sv(1) node_handler_def read_reply_def Let_def)
  then show ?thesis by (simp add: tcp_read_extent_def)
qed

lemma tcp_write_node: "tcp_write_extent hash fmt sse n a c = (Some (Inr ack), c') \<Longrightarrow> wa_node_id ack = n"
proof -
  have t: "wa_node_id k = n" if "try_write_extent hash fmt sse n a c0 = (Inr k, c1)" for k c0 c1
  proof (cases "exchange fmt n (\<lambda>f sv. Some (dh_write (node_handler hash fmt (cf_write f) (cf_io_ok f) (ds_identity sv))
      (tcp_write_request a) (wc_data a) (ds_service sv))) c0")
    case (Pair r c2)
    then show ?thesis using that by (cases r) (auto simp: try_write_extent_def convert_write_response_def Let_def)
  qed
  assume "tcp_write_extent hash fmt sse n a c = (Some (Inr ack), c')"
  then show ?thesis
    by (cases "try_write_extent hash fmt sse n a c")
       (auto simp: tcp_write_extent_def apfst_def map_prod_def intro: t split: sum.splits prod.splits)
qed

lemma cluster_fresh_settled: "cluster_fresh fmt c n (wc_operation_id a) \<Longrightarrow> cluster_settled hash fmt n a c"
  by (auto simp: cluster_fresh_def cluster_settled_def op_settled_def)

text \<open>The data nodes behind the TCP client are what the pipelines and the block device rely on.\<close>

interpretation tcp: data_plane "tcp_write_extent hash fmt sse" "cluster_held hash fmt" "cluster_fresh fmt" "cluster_at_most fmt" "cluster_ok fmt"
  "tcp_read_extent hash fmt ret show_error" "cluster_serves fmt" for hash fmt sse ret show_error
proof unfold_locales
  fix n a c c' r ack x v n' op data d q q' rr
  show "tcp_write_extent hash fmt sse n a c = (Some (Inr ack), c') \<Longrightarrow> wa_node_id ack = n"
    by (rule tcp_write_node)
  show "cluster_held hash fmt c' n (wc_extent_id a) (wc_extent_version a) = Some (wc_data a)"
    if "cluster_ok fmt c" "cluster_fresh fmt c n (wc_operation_id a)" "tcp_write_extent hash fmt sse n a c = (Some (Inr ack), c')" "wa_success ack"
    using tcp_write_contract(1)[OF that(3,1)] that(4) cluster_fresh_settled[OF that(2)] by (simp add: write_contract_def)
  show "cluster_at_most fmt c n x v data \<Longrightarrow> cluster_held hash fmt c n x v = None \<or> cluster_held hash fmt c n x v = Some data"
    by (auto simp: cluster_at_most_def cluster_held_def dest: holds_at_most_held split: option.splits)
  assume ok: "cluster_ok fmt c"
  show "cluster_held hash fmt c' n' x v = cluster_held hash fmt c n' x v"
    if "tcp_write_extent hash fmt sse n a c = (r, c')" "n' \<noteq> n \<or> x \<noteq> wc_extent_id a"
    using tcp_write_contract(1)[OF that(1) ok] that(2) unfolding write_contract_def by blast
  show "cluster_ok fmt c'" if "tcp_write_extent hash fmt sse n a c = (r, c')"
    using tcp_write_contract(1)[OF that ok] unfolding write_contract_def by blast
  show "cluster_fresh fmt c' n' op"
    if "tcp_write_extent hash fmt sse n a c = (r, c')" "cluster_fresh fmt c n' op" "n' \<noteq> n \<or> op \<noteq> wc_operation_id a"
    using tcp_write_contract(1)[OF that(1) ok] that(2,3) unfolding write_contract_def by blast
  show "cluster_at_most fmt c' n' x v data"
    if "tcp_write_extent hash fmt sse n a c = (r, c')" "cluster_at_most fmt c n' x v data"
      "n' \<noteq> n \<or> x \<noteq> wc_extent_id a \<or> v = wc_extent_version a \<and> data = wc_data a"
    using tcp_write_contract(1)[OF that(1) ok] that(2,3) unfolding write_contract_def by blast
  show "\<exists>data. cluster_held hash fmt c n (rl_extent_id q) (rl_extent_version q) = Some data \<and> read_range data (rl_offset q) (rl_length q) = Some d"
    if "tcp_read_extent hash fmt ret show_error n q c = (Inr d, c')"
    using tcp_read_contract[OF that ok] by blast
  show "cluster_ok fmt c'" if "tcp_read_extent hash fmt ret show_error n q c = (rr, c')"
    using tcp_read_contract[OF that ok] unfolding read_contract_def by blast
  show "cluster_held hash fmt c' n' x v = cluster_held hash fmt c n' x v" if "tcp_read_extent hash fmt ret show_error n q c = (rr, c')"
    using tcp_read_contract[OF that ok] unfolding read_contract_def by blast
  show "cluster_serves fmt c' n' q' = cluster_serves fmt c n' q'" if "tcp_read_extent hash fmt ret show_error n q c = (rr, c')" "n' \<noteq> n"
    using tcp_read_contract[OF that(1) ok] that(2) unfolding read_contract_def by blast
  show "tcp_read_extent hash fmt ret show_error n q c = (Inr d, c)"
    if "cluster_serves fmt c n q" "cluster_held hash fmt c n (rl_extent_id q) (rl_extent_version q) = Some data"
      "read_range data (rl_offset q) (rl_length q) = Some d"
    using tcp_read_live[OF ok that] .
qed

section \<open>Properties\<close>

text \<open>
  C2: A committed write is durable on a quorum: when a replicated write over TCP commits, at least
  the required number of the extent's replicas hold exactly the written bytes, whatever requests and
  responses were lost on the way, and the client's watermark has reached the epoch of the write.
\<close>

theorem committed_write_durable:
  assumes "execute lib (tcp_write_extent hash fmt sse) env mr op request (x, c) = (Inr (Committed e), x', c')"
    and "cluster_ok fmt c" "\<forall>n. cluster_fresh fmt c n op" "cache_nodes_ok (cb_fmt lib) (wx_cache x)"
    and "\<forall>i. \<nexists>m. ae_lookup (env i) op = Inr (Some m)" "\<forall>jobs. mset (ae_schedule (env 0) jobs) = mset jobs"
  shows "\<exists>info S. cache_get_volume (cb_fmt lib) (wx_cache x) (rw_volume_id request) = Some info \<and>
    S \<subseteq> set (replica_nodes lib (cv_protection info) (rw_volume_id request) (extent_of request) (available_nodes (wx_cache x))) \<and>
    required_acks (cv_protection info) \<le> card S \<and>
    (\<forall>n \<in> S. cluster_held hash fmt c' n (extent_id_for_extent (cb_digest lib) (rw_volume_id request) (extent_of request)) extent_version =
       Some (rw_data request)) \<and>
    e = mc_epoch (wx_cache x) \<and> e \<le> wx_watermark x'"
proof -
  let ?x = "x\<lparr> wx_session := snd (next_operation_id op (wx_session x)) \<rparr>"
  have "execute_once lib (tcp_write_extent hash fmt sse) (env 0) request op (?x, c) = (Inr (Committed e), x', c')"
    using assms(1) unfolding execute_single[OF assms(5)] .
  from tcp.execute_once_committed[OF this assms(2) _ assms(3,6)] show ?thesis using assms(4) by auto
qed

text \<open>
  C1: What is written is read back while the replicas serve. After a successful write of whole blocks
  that starts at an extent boundary of a volume with one or two replicas, whatever messages were lost
  during the write, a read of the same range returns exactly the bytes written, provided that by then
  every replica of the extents is reachable over a pooled connection without a fault, accepts the
  read's epoch 0, and can read its disk. The operation ids are fresh, the volume is cached, and the
  offsets do not overflow.
\<close>

theorem aligned_write_readback:
  assumes "device_write lib rs (tcp_write_extent hash fmt sse) env q (h, c) = Some (Inr None, h', c')"
    and "io_data q = Some data" "length data = unat (io_length_bytes q)" "io_length_bytes q \<noteq> 0"
    and "vc_protection (bh_config h) = Replicated r" "0 < unat r" "unat r \<le> 2" "vc_block_size (bh_config h) \<noteq> 0"
    and "unat (vc_block_size (bh_config h)) * unat (extent_blocks (bh_config h)) dvd unat (io_offset_bytes q)"
    and "unat (vc_block_size (bh_config h)) dvd unat (io_length_bytes q)"
    and "unat (io_offset_bytes q) + unat (io_length_bytes q) + unat (vc_block_size (bh_config h)) * unat (extent_blocks (bh_config h)) < 2 ^ 64"
    and "env_ok env (unat (io_length_bytes q))" "volume_ok lib (bh_config h) (wx_cache (bh_ctx h))" "available_nodes (wx_cache (bh_ctx h)) \<noteq> []"
    and "wx_watermark (bh_ctx h) \<le> mc_epoch (wx_cache (bh_ctx h))"
    and "cluster_ok fmt c" "\<forall>n j. cluster_fresh fmt c n (hv_op env j)"
    and "\<forall>n b. n \<in> set (block_replicas lib (bh_config h) (wx_cache (bh_ctx h)) b) \<longrightarrow> cluster_serves fmt c' n (block_call lib (bh_config h) b
           (ucast (vc_block_size (bh_config h))) (ucast (vc_block_size (bh_config h))))"
  shows "device_read lib rs (tcp_read_extent hash fmt ret show_error) env' (q\<lparr> io_operation := IoRead, io_data := None \<rparr>) (h', c') =
    Some (Inr (Some data), h', c')"
  using assms by (rule tcp.write_readback)

text \<open>
  C37: On a volume with one or two replicas, a write that does not start at an extent boundary is
  misplaced: after a successful write of one block in the middle of an extent, and while every replica
  serves reads (pooled connection, no fault, epoch 0 accepted, disk readable), the addressed block reads
  as zeros and the bytes written are found at the extent's first block.
\<close>

theorem unaligned_write_misplaced:
  assumes "device_write lib rs (tcp_write_extent hash fmt sse) env q (h, c) = Some (Inr None, h', c')"
    and "io_data q = Some data" "length data = unat (vc_block_size (bh_config h))" "io_length_bytes q = vc_block_size (bh_config h)"
    and "vc_protection (bh_config h) = Replicated r" "0 < unat r" "unat r \<le> 2" "vc_block_size (bh_config h) \<noteq> 0"
    and "unat (vc_block_size (bh_config h)) dvd unat (io_offset_bytes q)"
    and "unat (io_offset_bytes q) + unat (vc_block_size (bh_config h)) + unat (vc_block_size (bh_config h)) * unat (extent_blocks (bh_config h)) < 2 ^ 64"
    and "env_ok env 1" "volume_ok lib (bh_config h) (wx_cache (bh_ctx h))" "available_nodes (wx_cache (bh_ctx h)) \<noteq> []"
    and "cluster_ok fmt c" "\<forall>n j. cluster_fresh fmt c n (hv_op env j)"
    and "\<forall>n b. n \<in> set (block_replicas lib (bh_config h) (wx_cache (bh_ctx h)) b) \<longrightarrow> cluster_serves fmt c' n (block_call lib (bh_config h) b
           (ucast (vc_block_size (bh_config h))) (ucast (vc_block_size (bh_config h))))"
    and "s = io_offset_bytes q div ucast (vc_block_size (bh_config h))" "s mod extent_blocks (bh_config h) \<noteq> 0"
    and "f = s div extent_blocks (bh_config h) * extent_blocks (bh_config h)"
  shows "read_block lib (tcp_read_extent hash fmt ret show_error) (bh_config h) (wx_cache (bh_ctx h)) s
      (ucast (vc_block_size (bh_config h))) (ucast (vc_block_size (bh_config h))) c' = (replicate (unat (vc_block_size (bh_config h))) 0, c') \<and>
    read_block lib (tcp_read_extent hash fmt ret show_error) (bh_config h) (wx_cache (bh_ctx h)) f
      (ucast (vc_block_size (bh_config h))) (ucast (vc_block_size (bh_config h))) c' = (data, c')"
  using assms by (rule tcp.unaligned_write)

text \<open>
  C3: A committed stripe survives the loss of one node: after an erasure-coded write to a fresh extent
  commits, every block of the extent is read back from the remaining fragments, with at most one node
  (none without parity) not answering.
\<close>

theorem stripe_survives_one_node:
  assumes "start = block div extent_blocks cfg * extent_blocks cfg"
    and "nodes = select_nodes (cb_digest lib) (vc_volume_id cfg) start (available_nodes (wx_cache x)) (unat k + unat m)"
    and "q = \<lparr> rl_volume_id = vc_volume_id cfg, rl_extent_id = extent_id_for_extent (cb_digest lib) (vc_volume_id cfg) start,
      rl_extent_version = extent_version, rl_offset = 0, rl_length = 0 \<rparr>"
    and "ec_execute_once lib rs (tcp_write_extent hash fmt sse) env (vc_volume_id cfg) (start, e') data op (x, c) = (Inr (Committed e), x', c')"
    and "vc_protection cfg = ErasureCoded k m"
    and "cache_get_volume (cb_fmt lib) (wx_cache x) (vc_volume_id cfg) = Some info" "cv_protection info = ErasureCoded k m"
    and "erasure_code_ok rs (unat k) (unat m)" "unat k + unat m < 256"
    and "cluster_ok fmt c" "cache_nodes_ok (cb_fmt lib) (wx_cache x)" "\<forall>n. cluster_fresh fmt c n op"
    and "\<forall>jobs. mset (ae_schedule env jobs) = mset jobs" "\<forall>jobs. mset (order jobs) = mset jobs"
    and "\<forall>n s. cluster_service fmt c n = Some s \<longrightarrow> index_get (dn_index s) (rl_extent_id q) = None"
    and "card {i. i < unat k + unat m \<and> \<not> cluster_serves fmt c' (nodes ! i) q} \<le> min 1 (unat m)"
    and "unat ((block - start) * bs) + unat bs \<le> length data" "0 < unat bs"
  shows "\<exists>c''. read_ec_block_data lib rs (tcp_read_extent hash fmt ret show_error) order cfg (wx_cache x) block bs c' =
    (Inr (take (unat bs) (drop (unat ((block - start) * bs)) data)), c'')"
proof -
  have "\<forall>n d. cluster_at_most fmt c n (rl_extent_id q) extent_version d"
    using assms(15) by (auto simp: cluster_at_most_def holds_at_most_absent split: option.split)
  then show ?thesis
    using tcp.ec_write_readback[where cfg = cfg and block = block and lib = lib and x = x and order = order and bs = bs,
        OF assms(4)[unfolded assms(1)] assms(5-14)] assms(16-18)
    unfolding assms(1-3) by blast
qed

text \<open>
  Blocks that no data node holds read as zeros without an error: this is how unwritten blocks read, and
  also how written blocks read while every data node that has them is down.
\<close>

theorem unheld_blocks_read_zero:
  assumes "vc_protection (bh_config h) = Replicated r" "vc_block_size (bh_config h) \<noteq> 0" "cluster_ok fmt c"
    and "unat (io_offset_bytes q) + unat (io_length_bytes q) < 2 ^ 64"
    and "wx_watermark (bh_ctx h) \<le> mc_epoch (wx_cache (bh_ctx h))"
    and "\<forall>n b. cluster_held hash fmt c n (extent_id_for_extent (cb_digest lib) (vc_volume_id (bh_config h)) b) extent_version = None"
  shows "\<exists>c'. device_read lib rs (tcp_read_extent hash fmt ret show_error) env q (h, c) =
    Some (Inr (Some (replicate (unat (io_length_bytes q)) 0)), h, c')"
  using assms(6) by (intro tcp.device_read_unheld[OF assms(1-5)]) simp

section \<open>Concrete instances\<close>

definition calm_fate :: CallFate where
  "calm_fate = \<lparr> cf_net = NetOk, cf_text = [], cf_write = demo_env, cf_io_ok = True, cf_op = 50, cf_session = 51 \<rparr>"

definition demo_server :: "NodeId \<Rightarrow> DataServer" where
  "demo_server n = \<lparr> ds_node_id = n, ds_identity = Node n, ds_auth = None, ds_service = set_epoch 0 demo_node \<rparr>"

definition demo_cluster :: "(NodeId \<Rightarrow> CallFate list) \<Rightarrow> Cluster" where
  "demo_cluster fates =
     \<lparr> cu_addresses = [(unary_text 1, ''a''), (unary_text 2, ''b''), (unary_text 3, ''c'')], cu_connections = [],
       cu_servers = [''a'' \<mapsto> demo_server 1, ''b'' \<mapsto> demo_server 2, ''c'' \<mapsto> demo_server 3], cu_fates = fates, cu_rest = (\<lambda>_. calm_fate) \<rparr>"

abbreviation demo_write_rpc :: "Cluster write_rpc" where
  "demo_write_rpc \<equiv> tcp_write_extent sum_hash unary_text (\<lambda>_. [])"

abbreviation demo_read_rpc :: "Cluster read_rpc" where
  "demo_read_rpc \<equiv> tcp_read_extent sum_hash unary_text (\<lambda>_. []) (\<lambda>_. [])"

definition after_write :: "NodeId list \<Rightarrow> ProtectionPolicy \<Rightarrow> (NodeId \<Rightarrow> CallFate list) \<Rightarrow> IoRequest \<Rightarrow> BlockHandler \<times> Cluster" where
  "after_write ns p fates q =
     (case device_write demo_lib mirror_code demo_write_rpc demo_handler_env q (demo_device ns p, demo_cluster fates) of
        Some (_, s) \<Rightarrow> s | None \<Rightarrow> (demo_device ns p, demo_cluster fates))"

definition lost :: "NetFault \<Rightarrow> CallFate" where
  "lost f = calm_fate\<lparr> cf_net := f \<rparr>"

lemma demo_env_ok: "m \<le> 4 \<Longrightarrow> env_ok demo_handler_env m"
proof -
  have "inj_on (\<lambda>i. of_nat i + 100 :: uuid) {..<4}"
  proof (rule inj_onI)
    fix i j :: nat assume "i \<in> {..<4}" "j \<in> {..<4}" "of_nat i + 100 = (of_nat j + 100 :: uuid)"
    then have "unat (of_nat i :: uuid) = unat (of_nat j :: uuid)" "i < 4" "j < 4" by simp_all
    then show "i = j" by (simp add: unsigned_of_nat take_bit_nat_eq_self)
  qed
  moreover assume "m \<le> 4"
  then have "{..<m} \<subseteq> {..<4}" by auto
  ultimately show ?thesis
    by (auto simp: env_ok_def demo_handler_env_def demo_attempt_def intro: inj_on_subset)
qed

lemma demo_cluster_ok: "cluster_ok unary_text (demo_cluster fates)"
  using inj_unary_text demo_node_facts(2)
  by (auto simp: cluster_ok_def demo_cluster_def demo_server_def stores_ok_def set_epoch_def inj_eq split: if_splits)

lemma demo_cluster_service:
  "cluster_service unary_text (demo_cluster fates) n = Some s \<Longrightarrow> dn_index s = [] \<and> dn_operation_log s = []"
  by (auto simp: cluster_service_def demo_cluster_def demo_server_def set_epoch_def demo_node_def register_store_def service_new_def
      split: if_splits option.splits)

lemma demo_cluster_fresh: "cluster_fresh unary_text (demo_cluster fates) n op"
  by (auto simp: cluster_fresh_def check_duplicate_def dest: demo_cluster_service split: option.split)

lemma demo_volume_ok:
  assumes "ns = [1] \<or> ns = [1, 2]"
  shows "volume_ok demo_lib (bh_config (demo_device ns p)) (wx_cache (bh_ctx (demo_device ns p)))"
proof -
  have "unary_text 1 < unary_text 2" by code_simp
  then show ?thesis using assms inj_demo_extent_id[of 3]
    by (auto simp: volume_ok_def demo_device_def demo_nodes_def demo_lib_def cache_nodes_ok_def cache_get_volume_def bt_wf_def)
qed

text \<open>A node whose state has been looked at serves every read of the volume.\<close>

lemma demo_serves:
  assumes "bt_get (cu_connections c) (unary_text n) = Some addr" "cu_fates c n = []"
    and "cf_net (cu_rest c n) = NetOk" "cf_io_ok (cu_rest c n)"
    and "map_option (\<lambda>sv. (ds_identity sv, dn_current_epoch (ds_service sv), inv_allows_reads (dn_inventory (ds_service sv)) 4,
        list_all (\<lambda>(k, entry). le_disk_id entry = 4) (dn_index (ds_service sv)))) (cu_servers c addr) = Some (Node n, 0, Inr True, True)"
  shows "cluster_serves unary_text c n q"
proof -
  obtain sv where sv: "cu_servers c addr = Some sv" "ds_identity sv = Node n" "dn_current_epoch (ds_service sv) = 0"
    "inv_allows_reads (dn_inventory (ds_service sv)) 4 = Inr True" "list_all (\<lambda>(k, entry). le_disk_id entry = 4) (dn_index (ds_service sv))"
    using assms(5) by auto
  have "le_disk_id entry = 4" if "index_get (dn_index (ds_service sv)) x = Some entry" for x entry
    using that sv(5) by (auto simp: index_get_def list_all_iff dest!: map_of_SomeD)
  then show ?thesis using assms(1-4) sv(1-4)
    by (auto simp: cluster_serves_def check_read_def validate_epoch_for_read_def)
qed

text \<open>The response to the first attempt is lost and the client asks again.\<close>

abbreviation demo_state :: "IoRequest \<Rightarrow> BlockHandler \<times> Cluster" where
  "demo_state q \<equiv> after_write [1] (Replicated 1) (\<lambda>_. [lost ResponseLost]) q"

definition serving_facts :: "NodeId \<Rightarrow> SocketAddr \<Rightarrow> Cluster \<Rightarrow> bool" where
  "serving_facts n addr c \<longleftrightarrow> bt_get (cu_connections c) (unary_text n) = Some addr \<and> cu_fates c n = [] \<and>
     cf_net (cu_rest c n) = NetOk \<and> cf_io_ok (cu_rest c n) \<and>
     map_option (\<lambda>sv. (ds_identity sv, dn_current_epoch (ds_service sv), inv_allows_reads (dn_inventory (ds_service sv)) 4,
        list_all (\<lambda>(k, entry). le_disk_id entry = 4) (dn_index (ds_service sv)))) (cu_servers c addr) = Some (Node n, 0, Inr True, True)"

lemma serving_facts_serves: "serving_facts n addr c \<Longrightarrow> cluster_serves unary_text c n q"
  unfolding serving_facts_def by (blast intro: demo_serves)

lemma demo_aligned_run:
  "case device_write demo_lib mirror_code demo_write_rpc demo_handler_env (demo_io 0 [5, 6, 7, 8])
     (demo_device [1] (Replicated 1), demo_cluster (\<lambda>_. [lost ResponseLost])) of
     Some (Inr None, h, c) \<Rightarrow> serving_facts 1 ''a'' c | _ \<Rightarrow> False"
  by code_simp

lemma demo_unaligned_run:
  "case device_write demo_lib mirror_code demo_write_rpc demo_handler_env (demo_io 2 [9, 9])
     (demo_device [1] (Replicated 1), demo_cluster (\<lambda>_. [lost ResponseLost])) of
     Some (Inr None, h, c) \<Rightarrow> serving_facts 1 ''a'' c | _ \<Rightarrow> False"
  by code_simp

text \<open>The runs as equations.\<close>

lemma demo_run:
  assumes "case device_write demo_lib mirror_code demo_write_rpc demo_handler_env q (demo_device ns p, demo_cluster fates) of
     Some (Inr None, h, c) \<Rightarrow> serving_facts n addr c | _ \<Rightarrow> False"
  obtains h' c' where "device_write demo_lib mirror_code demo_write_rpc demo_handler_env q (demo_device ns p, demo_cluster fates) = Some (Inr None, h', c')"
    "after_write ns p fates q = (h', c')" "\<And>q. cluster_serves unary_text c' n q"
proof -
  obtain res h' c' where w: "device_write demo_lib mirror_code demo_write_rpc demo_handler_env q (demo_device ns p, demo_cluster fates) = Some (res, h', c')"
    using assms by (auto split: option.splits)
  moreover have "res = Inr None \<and> serving_facts n addr c'"
    using assms w by (cases res; cases "projr res") (auto split: sum.splits option.splits)
  ultimately show thesis by (intro that) (auto simp: after_write_def intro: serving_facts_serves)
qed

lemma demo_replicas: "set (block_replicas demo_lib (bh_config (demo_device [1] p)) (wx_cache (bh_ctx (demo_device [1] p))) b) \<subseteq> {1}"
  unfolding block_replicas_def
  by (rule subset_trans[OF set_select_nodes]) (simp add: available_nodes_def demo_device_def demo_nodes_def cache_list_nodes_def bt_values_def)

lemma demo_config:
  "vc_protection (bh_config (demo_device ns p)) = p" "vc_block_size (bh_config (demo_device ns p)) = 2"
  "unat (extent_blocks (bh_config (demo_device ns p))) = 2" "extent_blocks (bh_config (demo_device ns p)) = 2"
  "available_nodes (wx_cache (bh_ctx (demo_device ns p))) = ns"
  "wx_watermark (bh_ctx (demo_device ns p)) = 0"
proof -
  show "extent_blocks (bh_config (demo_device ns p)) = 2" by (simp add: extent_blocks_def demo_device_def)
  then show "unat (extent_blocks (bh_config (demo_device ns p))) = 2" by simp
qed (simp_all add: demo_device_def available_nodes_def demo_nodes_def cache_list_nodes_def bt_values_def comp_def)

theorem aligned_write_readback_witness:
  "\<exists>h c. after_write [1] (Replicated 1) (\<lambda>_. [lost ResponseLost]) (demo_io 0 [5, 6, 7, 8]) = (h, c) \<and>
     device_read demo_lib mirror_code demo_read_rpc demo_handler_env ((demo_io 0 [5, 6, 7, 8])\<lparr> io_operation := IoRead, io_data := None \<rparr>) (h, c) =
       Some (Inr (Some [5, 6, 7, 8]), h, c)"
proof -
  obtain h c where w: "device_write demo_lib mirror_code demo_write_rpc demo_handler_env (demo_io 0 [5, 6, 7, 8])
      (demo_device [1] (Replicated 1), demo_cluster (\<lambda>_. [lost ResponseLost])) = Some (Inr None, h, c)"
    "demo_state (demo_io 0 [5, 6, 7, 8]) = (h, c)" "\<And>q. cluster_serves unary_text c 1 q"
    by (rule demo_run[OF demo_aligned_run]) blast
  have "device_read demo_lib mirror_code demo_read_rpc demo_handler_env ((demo_io 0 [5, 6, 7, 8])\<lparr> io_operation := IoRead, io_data := None \<rparr>) (h, c) =
      Some (Inr (Some [5, 6, 7, 8]), h, c)"
    by (rule aligned_write_readback[OF w(1), where r = 1])
       (use demo_replicas[of "Replicated 1"] w(3) demo_volume_ok[of "[1]" "Replicated 1"] in
         \<open>auto simp: demo_config demo_io_def demo_env_ok demo_cluster_ok demo_cluster_fresh\<close>)
  then show ?thesis using w(2) by blast
qed

theorem unaligned_write_misplaced_witness:
  "\<exists>h c. after_write [1] (Replicated 1) (\<lambda>_. [lost ResponseLost]) (demo_io 2 [9, 9]) = (h, c) \<and>
     read_block demo_lib demo_read_rpc (bh_config (demo_device [1] (Replicated 1))) (demo_nodes [1] (Replicated 1)) 1 2 2 c = ([0, 0], c) \<and>
     read_block demo_lib demo_read_rpc (bh_config (demo_device [1] (Replicated 1))) (demo_nodes [1] (Replicated 1)) 0 2 2 c = ([9, 9], c)"
proof -
  obtain h c where w: "device_write demo_lib mirror_code demo_write_rpc demo_handler_env (demo_io 2 [9, 9])
      (demo_device [1] (Replicated 1), demo_cluster (\<lambda>_. [lost ResponseLost])) = Some (Inr None, h, c)"
    "demo_state (demo_io 2 [9, 9]) = (h, c)" "\<And>q. cluster_serves unary_text c 1 q"
    by (rule demo_run[OF demo_unaligned_run]) blast
  have c: "wx_cache (bh_ctx (demo_device [1] (Replicated 1))) = demo_nodes [1] (Replicated 1)" by (simp add: demo_device_def)
  have "read_block demo_lib demo_read_rpc (bh_config (demo_device [1] (Replicated 1))) (wx_cache (bh_ctx (demo_device [1] (Replicated 1)))) 1
        (ucast (vc_block_size (bh_config (demo_device [1] (Replicated 1))))) (ucast (vc_block_size (bh_config (demo_device [1] (Replicated 1))))) c =
        (replicate (unat (vc_block_size (bh_config (demo_device [1] (Replicated 1))))) 0, c) \<and>
     read_block demo_lib demo_read_rpc (bh_config (demo_device [1] (Replicated 1))) (wx_cache (bh_ctx (demo_device [1] (Replicated 1)))) 0
        (ucast (vc_block_size (bh_config (demo_device [1] (Replicated 1))))) (ucast (vc_block_size (bh_config (demo_device [1] (Replicated 1))))) c =
        ([9, 9], c)"
    by (rule unaligned_write_misplaced[OF w(1), where r = 1])
       (use demo_replicas[of "Replicated 1"] w(3) demo_volume_ok[of "[1]" "Replicated 1"] in
         \<open>auto simp: demo_config demo_io_def demo_env_ok demo_cluster_ok demo_cluster_fresh\<close>)
  moreover have "replicate 2 (0 :: u8) = [0, 0]" by code_simp
  ultimately show ?thesis using w(2) by (simp add: demo_config c)
qed

theorem unheld_blocks_read_zero_witness:
  "\<exists>c'. device_read demo_lib mirror_code demo_read_rpc demo_handler_env (demo_io 0 [1, 2, 3, 4])
     (demo_device [1] (Replicated 1), demo_cluster (\<lambda>_. [])) = Some (Inr (Some [0, 0, 0, 0]), demo_device [1] (Replicated 1), c')"
proof -
  have "cluster_held sum_hash unary_text (demo_cluster (\<lambda>_. [])) n x v = None" for n x v
    by (auto simp: cluster_held_def node_held_def index_get_def dest!: demo_cluster_service split: option.split)
  then have "\<exists>c'. device_read demo_lib mirror_code demo_read_rpc demo_handler_env (demo_io 0 [1, 2, 3, 4])
     (demo_device [1] (Replicated 1), demo_cluster (\<lambda>_. [])) =
     Some (Inr (Some (replicate (unat (io_length_bytes (demo_io 0 [1, 2, 3, 4]))) 0)), demo_device [1] (Replicated 1), c')"
    by (intro unheld_blocks_read_zero) (simp_all add: demo_config demo_cluster_ok demo_io_def)
  moreover have "replicate (unat (io_length_bytes (demo_io 0 [1, 2, 3, 4]))) (0 :: u8) = [0, 0, 0, 0]" by code_simp
  ultimately show ?thesis by (simp only:)
qed

definition demo_request :: WriteRequest where
  "demo_request = \<lparr> rw_volume_id = 3, rw_block_range = (0, 2), rw_data = [5, 6], rw_extent_blocks = 2 \<rparr>"

lemma demo_commit_run:
  "map_sum (\<lambda>_. ()) id (fst (execute demo_lib demo_write_rpc (\<lambda>_. demo_attempt) 3 7 demo_request
     (bh_ctx (demo_device [1, 2] (Replicated 2)), demo_cluster (\<lambda>_. [lost RequestLost])))) = Inr (Committed 0)"
  by code_simp

theorem committed_write_durable_witness:
  "\<exists>x c. execute demo_lib demo_write_rpc (\<lambda>_. demo_attempt) 3 7 demo_request
     (bh_ctx (demo_device [1, 2] (Replicated 2)), demo_cluster (\<lambda>_. [lost RequestLost])) = (Inr (Committed 0), x, c) \<and>
     (\<exists>S. 2 \<le> card S \<and> (\<forall>n \<in> S. cluster_held sum_hash unary_text c n (extent_id_for_extent demo_digest 3 0) 1 = Some [5, 6]))"
proof -
  obtain r x c where e: "execute demo_lib demo_write_rpc (\<lambda>_. demo_attempt) 3 7 demo_request
      (bh_ctx (demo_device [1, 2] (Replicated 2)), demo_cluster (\<lambda>_. [lost RequestLost])) = (r, x, c)"
    using prod_cases3 by blast
  then have r: "r = Inr (Committed 0)" using demo_commit_run by (cases r) simp_all
  have "cache_nodes_ok (cb_fmt demo_lib) (wx_cache (bh_ctx (demo_device [1, 2] (Replicated 2))))"
    using demo_volume_ok[of "[1, 2]" "Replicated 2"] by (simp add: volume_ok_def)
  from committed_write_durable[OF e[unfolded r] demo_cluster_ok _ this] obtain S info where
    "cache_get_volume (cb_fmt demo_lib) (wx_cache (bh_ctx (demo_device [1, 2] (Replicated 2)))) (rw_volume_id demo_request) = Some info"
    "required_acks (cv_protection info) \<le> card S"
    "\<forall>n \<in> S. cluster_held sum_hash unary_text c n (extent_id_for_extent (cb_digest demo_lib) (rw_volume_id demo_request) (extent_of demo_request)) extent_version =
       Some (rw_data demo_request)"
    by (auto simp: demo_cluster_fresh demo_attempt_def)
  moreover from this have "required_acks (cv_protection info) = 2"
    by (auto simp: demo_device_def demo_nodes_def cache_get_volume_def demo_request_def demo_lib_def required_acks_def)
  ultimately show ?thesis using e r
    by (intro exI[of _ x] exI[of _ c] conjI exI[of _ S]) (simp_all add: demo_request_def extent_of_def demo_lib_def extent_version_def)
qed

lemma mirror_code_ok: "erasure_code_ok mirror_code 1 1"
proof -
  have two: "\<exists>a b. xs = [a, b]" if "length xs = Suc (Suc 0)" for xs :: "'a list" using that by (auto simp: length_Suc_conv)
  show ?thesis
    unfolding erasure_code_ok_def mirror_code_def
    by (auto simp: numeral_2_eq_2 less_Suc_eq dest!: two split: if_splits)
qed

lemma demo_stripe_run:
  "case ec_execute_once demo_lib mirror_code demo_write_rpc demo_attempt 3 (0, 2) [5, 6, 7, 8] 7
     (bh_ctx (demo_device [1, 2] (ErasureCoded 1 1)), demo_cluster (\<lambda>_. [])) of
     (Inr (Committed e), x, c) \<Rightarrow> e = 0 \<and> serving_facts 1 ''a'' c | _ \<Rightarrow> False"
  by code_simp

theorem stripe_survives_one_node_witness:
  "\<exists>x c. ec_execute_once demo_lib mirror_code demo_write_rpc demo_attempt 3 (0, 2) [5, 6, 7, 8] 7
     (bh_ctx (demo_device [1, 2] (ErasureCoded 1 1)), demo_cluster (\<lambda>_. [])) = (Inr (Committed 0), x, c) \<and>
     (\<exists>c'. read_ec_block_data demo_lib mirror_code demo_read_rpc id (bh_config (demo_device [1, 2] (ErasureCoded 1 1)))
        (demo_nodes [1, 2] (ErasureCoded 1 1)) 1 2 c = (Inr [7, 8], c'))"
proof -
  let ?cfg = "bh_config (demo_device [1, 2] (ErasureCoded 1 1))" and ?x = "bh_ctx (demo_device [1, 2] (ErasureCoded 1 1))"
  obtain r x c where e: "ec_execute_once demo_lib mirror_code demo_write_rpc demo_attempt 3 (0, 2) [5, 6, 7, 8] 7
      (?x, demo_cluster (\<lambda>_. [])) = (r, x, c)" using prod_cases3 by blast
  then have r: "r = Inr (Committed 0)" and serves: "serving_facts 1 ''a'' c"
    using demo_stripe_run by (auto split: sum.splits WriteOutcome.splits)
  have cfg: "vc_volume_id ?cfg = 3" "vc_protection ?cfg = ErasureCoded 1 1" "extent_blocks ?cfg = 2"
    by (simp_all add: demo_device_def demo_config(4)[unfolded demo_device_def, simplified])
  have x: "wx_cache ?x = demo_nodes [1, 2] (ErasureCoded 1 1)" by (simp add: demo_device_def)
  have ok: "cache_nodes_ok (cb_fmt demo_lib) (wx_cache ?x)" using demo_volume_ok[of "[1, 2]"] by (simp add: volume_ok_def)
  have avail: "available_nodes (wx_cache ?x) = [1, 2]" by (simp add: demo_config)
  have "{i. i < 2 \<and> \<not> cluster_serves unary_text c ([1, 2] ! i) q} \<subseteq> {1}" for q :: ReadCall
    using serving_facts_serves[OF serves] by (auto simp: less_2_cases_iff)
  then have few: "card {i. i < 2 \<and> \<not> cluster_serves unary_text c ([1, 2] ! i) q} \<le> 1" for q :: ReadCall
    using card_mono[of "{1 :: nat}"] by fastforce
  have sel: "select_nodes (cb_digest demo_lib) 3 b [1, 2] 2 = [1, 2]" for b by (simp add: select_nodes_def)
  obtain info where info: "cache_get_volume (cb_fmt demo_lib) (wx_cache ?x) 3 = Some info" "cv_protection info = ErasureCoded 1 1"
    by (simp add: x demo_nodes_def cache_get_volume_def demo_lib_def)
  have "\<exists>c''. read_ec_block_data demo_lib mirror_code demo_read_rpc id ?cfg (wx_cache ?x) 1 2 c =
      (Inr (take (unat (2 :: u64)) (drop (unat ((1 - 0) * 2 :: u64)) [5, 6, 7, 8])), c'')"
    by (rule stripe_survives_one_node[where cfg = ?cfg and start = 0 and k = 1 and m = 1 and nodes = "[1, 2]" and e' = 2 and c = "demo_cluster (\<lambda>_. [])" and op = 7
          and env = demo_attempt and info = info, OF _ _ refl, unfolded cfg(1), OF _ _ e[unfolded r] cfg(2) info _ _ demo_cluster_ok ok])
       (use few in \<open>simp_all add: cfg avail sel demo_cluster_fresh mirror_code_ok[simplified] demo_attempt_def index_get_def
          demo_cluster_service numeral_2_eq_2[symmetric]\<close>)
  then show ?thesis using e r x by simp
qed

lemma done_cases: "(case r of Some (Inr None, s) \<Rightarrow> P s | _ \<Rightarrow> False) \<Longrightarrow> \<exists>s. r = Some (Inr None, s) \<and> P s"
  by (cases r; cases "projr (fst (the r))"; cases "fst (the r)") auto

lemma data_cases: "(case r of Some (Inr (Some d), s) \<Rightarrow> P d s | _ \<Rightarrow> False) \<Longrightarrow> \<exists>d s. r = Some (Inr (Some d), s) \<and> P d s"
  by (cases r; cases "projr (fst (the r))"; cases "fst (the r)") auto

text \<open>
  An acknowledged overwrite can stay invisible: with three replicas, a second successful write
  that the first replica misses is followed by a read that returns the first write's bytes.
\<close>

theorem stale_replica_read:
  "\<exists>s1 s2 s3. device_write demo_lib mirror_code demo_write_rpc demo_handler_env (demo_io 0 [1, 1])
       (demo_device [1, 2, 3] (Replicated 3), demo_cluster ((\<lambda>_. [])(1 := [calm_fate, lost ConnectFails, lost ConnectFails]))) = Some (Inr None, s1) \<and>
     device_write demo_lib mirror_code demo_write_rpc (demo_handler_env\<lparr> hv_op := \<lambda>i. of_nat i + 200 \<rparr>) (demo_io 0 [2, 2]) s1 = Some (Inr None, s2) \<and>
     device_read demo_lib mirror_code demo_read_rpc demo_handler_env ((demo_io 0 [1, 1])\<lparr> io_operation := IoRead, io_data := None \<rparr>) s2 =
       Some (Inr (Some [1, 1]), s3)"
proof -
  have "case device_write demo_lib mirror_code demo_write_rpc demo_handler_env (demo_io 0 [1, 1])
       (demo_device [1, 2, 3] (Replicated 3), demo_cluster ((\<lambda>_. [])(1 := [calm_fate, lost ConnectFails, lost ConnectFails]))) of
     Some (Inr None, s1) \<Rightarrow>
       (case device_write demo_lib mirror_code demo_write_rpc (demo_handler_env\<lparr> hv_op := \<lambda>i. of_nat i + 200 \<rparr>) (demo_io 0 [2, 2]) s1 of
          Some (Inr None, s2) \<Rightarrow>
            (case device_read demo_lib mirror_code demo_read_rpc demo_handler_env ((demo_io 0 [1, 1])\<lparr> io_operation := IoRead, io_data := None \<rparr>) s2 of
               Some (Inr (Some d), s3) \<Rightarrow> d = [1, 1] | _ \<Rightarrow> False)
        | _ \<Rightarrow> False)
   | _ \<Rightarrow> False"
    by code_simp
  from done_cases[OF this] show ?thesis by (elim exE conjE) (drule done_cases, elim exE conjE, drule data_cases, blast)
qed

end
