(* ===== verification/Gossip.thy ===== *)
theory Gossip
  imports
    Common
    "HOL-Library.Option_ord"
    "HOL-Library.Product_Lexorder"
begin

text \<open>
  The gossip membership service, \<^verbatim>\<open>blockyard-gossip\<close>: the messages (\<^verbatim>\<open>protocol.rs\<close>), the member
  list and its merge by incarnation and state (\<^verbatim>\<open>member.rs\<close>), the SWIM protocol (\<^verbatim>\<open>swim.rs\<close>) and
  the three loops of the service (\<^verbatim>\<open>service.rs\<close>).

  A probe cycle awaits twice while the receive loop goes on, so it is three operations, and a
  service carries the phase its probe loop is in. A network is the running services together with
  every datagram ever sent; \<^verbatim>\<open>gossip_step\<close> lets any service start (or start again), receive any
  datagram addressed to it, advance its probe loop or reap. Clocks, the iteration order of the
  hash map of members and the bound address are arguments; each handler is one step.

  Shown: the merge of views does not depend on the order or repetition of updates (locale
  \<^verbatim>\<open>merge_table\<close>, interpreted on \<^verbatim>\<open>apply_update\<close>); an invariant of every run, from which follow
  what a service lists, that suspicion has a cause, and that it is never withdrawn; the exchange of
  views at a join; and the fate of a relayed acknowledgement.
\<close>

section \<open>Messages\<close>

datatype MemberState = MsAlive | MsSuspect | MsDead

record MembershipUpdate =
  mu_node_id :: NodeId
  mu_addr :: SocketAddr
  mu_state :: MemberState
  mu_incarnation :: u64

datatype GossipMessage =
    GmPing NodeId SocketAddr u64 "MembershipUpdate list"
  | GmPingReq NodeId SocketAddr NodeId SocketAddr u64 "MembershipUpdate list"
  | GmAck NodeId SocketAddr u64 "MembershipUpdate list"
  | GmJoin NodeId SocketAddr
  | GmAlive NodeId SocketAddr u64
  | GmSuspect NodeId SocketAddr u64
  | GmDead NodeId SocketAddr u64

type_synonym datagram = "GossipMessage \<times> SocketAddr"

fun message_updates :: "GossipMessage \<Rightarrow> MembershipUpdate list" where
  "message_updates (GmPing _ _ _ us) = us"
| "message_updates (GmPingReq _ _ _ _ _ us) = us"
| "message_updates (GmAck _ _ _ us) = us"
| "message_updates _ = []"

section \<open>The member list\<close>

record Member =
  mb_node_id :: NodeId
  mb_addr :: SocketAddr
  mb_state :: MemberState
  mb_incarnation :: u64
  mb_state_change :: nat

definition member_new :: "nat \<Rightarrow> NodeId \<Rightarrow> SocketAddr \<Rightarrow> Member" where
  "member_new now n a =
     \<lparr>mb_node_id = n, mb_addr = a, mb_state = MsAlive, mb_incarnation = 0, mb_state_change = now\<rparr>"

definition member_with_state :: "nat \<Rightarrow> NodeId \<Rightarrow> SocketAddr \<Rightarrow> MemberState \<Rightarrow> u64 \<Rightarrow> Member" where
  "member_with_state now n a st inc =
     \<lparr>mb_node_id = n, mb_addr = a, mb_state = st, mb_incarnation = inc, mb_state_change = now\<rparr>"

definition to_update :: "Member \<Rightarrow> MembershipUpdate" where
  "to_update m =
     \<lparr>mu_node_id = mb_node_id m, mu_addr = mb_addr m, mu_state = mb_state m,
      mu_incarnation = mb_incarnation m\<rparr>"

record MemberList =
  ml_local_id :: NodeId
  ml_members :: "(NodeId, Member) btree"
  ml_incarnation :: u64

definition member_list_new :: "nat \<Rightarrow> NodeId \<Rightarrow> SocketAddr \<Rightarrow> MemberList" where
  "member_list_new now n a =
     \<lparr>ml_local_id = n, ml_members = bt_insert n (member_new now n a) [], ml_incarnation = 0\<rparr>"

definition next_incarnation :: "MemberList \<Rightarrow> u64 \<times> MemberList" where
  "next_incarnation ml = (ml_incarnation ml + 1, ml\<lparr>ml_incarnation := ml_incarnation ml + 1\<rparr>)"

definition member_get :: "NodeId \<Rightarrow> MemberList \<Rightarrow> Member option" where
  "member_get n ml = bt_get (ml_members ml) n"

text \<open>
  The members are in a \<^verbatim>\<open>HashMap\<close>, whose iteration order is an argument: it gives, for the
  contents of the map, the order of its keys.
\<close>

type_synonym member_order = "(NodeId, Member) btree \<Rightarrow> NodeId list"

definition hash_order :: "member_order \<Rightarrow> bool" where
  "hash_order order = (\<forall>ms. bt_wf ms \<longrightarrow> distinct (order ms) \<and> set (order ms) = fst ` set ms)"

definition all_members :: "member_order \<Rightarrow> MemberList \<Rightarrow> Member list" where
  "all_members order ml = List.map_filter (bt_get (ml_members ml)) (order (ml_members ml))"

definition alive_members :: "member_order \<Rightarrow> MemberList \<Rightarrow> Member list" where
  "alive_members order ml = filter (\<lambda>m. mb_state m \<noteq> MsDead) (all_members order ml)"

definition probe_targets :: "member_order \<Rightarrow> MemberList \<Rightarrow> Member list" where
  "probe_targets order ml =
     filter (\<lambda>m. mb_node_id m \<noteq> ml_local_id ml \<and> mb_state m \<noteq> MsDead) (all_members order ml)"

definition indirect_probe_candidates :: "member_order \<Rightarrow> NodeId \<Rightarrow> MemberList \<Rightarrow> Member list" where
  "indirect_probe_candidates order exclude ml =
     filter (\<lambda>m. mb_node_id m \<noteq> ml_local_id ml \<and> mb_node_id m \<noteq> exclude \<and> mb_state m = MsAlive)
       (all_members order ml)"

fun state_priority :: "MemberState \<Rightarrow> u8" where
  "state_priority MsAlive = 0"
| "state_priority MsSuspect = 1"
| "state_priority MsDead = 2"

definition should_override :: "Member \<Rightarrow> MembershipUpdate \<Rightarrow> bool" where
  "should_override existing u =
     (if mb_incarnation existing < mu_incarnation u then True
      else if mu_incarnation u < mb_incarnation existing then False
      else state_priority (mb_state existing) < state_priority (mu_state u))"

definition handle_local_update :: "MembershipUpdate \<Rightarrow> MemberList \<Rightarrow> bool \<times> MemberList" where
  "handle_local_update u ml =
     (case mu_state u of
        MsAlive \<Rightarrow> (False, ml)
      | _ \<Rightarrow> (False, snd (next_incarnation ml)))"

definition apply_update :: "nat \<Rightarrow> MembershipUpdate \<Rightarrow> MemberList \<Rightarrow> bool \<times> MemberList" where
  "apply_update now u ml =
     (if mu_node_id u = ml_local_id ml then handle_local_update u ml
      else
        let existing = bt_get (ml_members ml) (mu_node_id u) in
        if (case existing of Some e \<Rightarrow> \<not> should_override e u | None \<Rightarrow> False) then (False, ml)
        else
          (map_option mb_state existing \<noteq> Some (mu_state u),
           ml\<lparr>ml_members := bt_insert (mu_node_id u)
                (member_with_state now (mu_node_id u) (mu_addr u) (mu_state u) (mu_incarnation u))
                (ml_members ml)\<rparr>))"

definition mark_suspect :: "nat \<Rightarrow> NodeId \<Rightarrow> MemberList \<Rightarrow> bool \<times> MemberList" where
  "mark_suspect now n ml =
     (case bt_get (ml_members ml) n of
        Some m \<Rightarrow>
          if mb_state m = MsAlive
          then (True, ml\<lparr>ml_members :=
                  bt_insert n (m\<lparr>mb_state := MsSuspect, mb_state_change := now\<rparr>) (ml_members ml)\<rparr>)
          else (False, ml)
      | None \<Rightarrow> (False, ml))"

definition mark_dead :: "nat \<Rightarrow> NodeId \<Rightarrow> MemberList \<Rightarrow> bool \<times> MemberList" where
  "mark_dead now n ml =
     (case bt_get (ml_members ml) n of
        Some m \<Rightarrow>
          if mb_state m \<noteq> MsDead
          then (True, ml\<lparr>ml_members :=
                  bt_insert n (m\<lparr>mb_state := MsDead, mb_state_change := now\<rparr>) (ml_members ml)\<rparr>)
          else (False, ml)
      | None \<Rightarrow> (False, ml))"

text \<open>\<^verbatim>\<open>sort_by\<close> is stable; descending order is ascending order of the complement.\<close>

definition recent_updates :: "member_order \<Rightarrow> nat \<Rightarrow> MemberList \<Rightarrow> MembershipUpdate list" where
  "recent_updates order max_count ml =
     take max_count (sort_key (\<lambda>u. - 1 - mu_incarnation u) (map to_update (all_members order ml)))"

fun apply_updates :: "nat \<Rightarrow> MembershipUpdate list \<Rightarrow> MemberList \<Rightarrow> MemberList" where
  "apply_updates now [] ml = ml"
| "apply_updates now (u # us) ml = apply_updates now us (snd (apply_update now u ml))"

section \<open>The protocol\<close>

abbreviation INDIRECT_PROBE_COUNT :: nat where "INDIRECT_PROBE_COUNT \<equiv> 3"
abbreviation MAX_PIGGYBACK_UPDATES :: nat where "MAX_PIGGYBACK_UPDATES \<equiv> 10"

text \<open>Durations are nanoseconds; \<^verbatim>\<open>Duration * u32\<close> panics when the seconds overflow.\<close>

record SwimConfig =
  sc_gossip_interval :: int
  sc_suspicion_timeout :: int
  sc_probe_timeout :: int

definition swim_config_new :: "u64 \<Rightarrow> u32 \<Rightarrow> SwimConfig option" where
  "swim_config_new gossip_interval_ms suspicion_mult =
     (let interval = uint gossip_interval_ms * 1000000;
          suspicion = interval * uint suspicion_mult in
      if suspicion < 2 ^ 64 * 1000000000
      then Some \<lparr>sc_gossip_interval = interval, sc_suspicion_timeout = suspicion,
                 sc_probe_timeout = interval div 2\<rparr>
      else None)"

record PendingProbe =
  pp_target :: NodeId
  pp_sent_at :: nat
  pp_indirect_sent :: bool

record SwimProtocol =
  sw_members :: MemberList
  sw_config :: SwimConfig
  sw_seq :: u64
  sw_pending :: "(u64, PendingProbe) btree"

definition swim_new :: "MemberList \<Rightarrow> SwimConfig \<Rightarrow> SwimProtocol" where
  "swim_new ml cfg = \<lparr>sw_members = ml, sw_config = cfg, sw_seq = 0, sw_pending = []\<rparr>"

definition next_seq :: "SwimProtocol \<Rightarrow> u64 \<times> SwimProtocol" where
  "next_seq sw = (sw_seq sw + 1, sw\<lparr>sw_seq := sw_seq sw + 1\<rparr>)"

text \<open>
  \<^verbatim>\<open>probe_cycle\<close> awaits twice, and the receive loop handles messages meanwhile: it is three
  operations. The first runs up to the first await and returns the probed member and the
  sequence number.
\<close>

definition probe_start ::
  "member_order \<Rightarrow> nat \<Rightarrow> SocketAddr \<Rightarrow> SwimProtocol \<Rightarrow> (Member \<times> u64) option \<times> SwimProtocol \<times> datagram list" where
  "probe_start order now self sw =
     (let targets = probe_targets order (sw_members sw) in
      if targets = [] then (None, sw, [])
      else
        let (r, sw1) = next_seq sw;
            target = targets ! (unat r mod length targets);
            (seq, sw2) = next_seq sw1;
            ping = GmPing (ml_local_id (sw_members sw)) self seq
                     (recent_updates order MAX_PIGGYBACK_UPDATES (sw_members sw)) in
        (Some (target, seq),
         sw2\<lparr>sw_pending := bt_insert seq
                \<lparr>pp_target = mb_node_id target, pp_sent_at = now, pp_indirect_sent = False\<rparr>
                (sw_pending sw2)\<rparr>,
         [(ping, mb_addr target)]))"

text \<open>
  What \<^verbatim>\<open>wait_for_ack\<close> returns from the state it returns in: when the clock has passed the
  deadline at the head of its loop it returns without looking at the table.
\<close>

definition wait_for_ack :: "bool \<Rightarrow> u64 \<Rightarrow> SwimProtocol \<Rightarrow> bool" where
  "wait_for_ack expired seq sw = (if expired then False else bt_get (sw_pending sw) seq = None)"

definition send_indirect_probes ::
  "member_order \<Rightarrow> SocketAddr \<Rightarrow> NodeId \<Rightarrow> SocketAddr \<Rightarrow> u64 \<Rightarrow> SwimProtocol \<Rightarrow> SwimProtocol \<times> datagram list" where
  "send_indirect_probes order self target_id target_addr seq sw =
     (let candidates = indirect_probe_candidates order target_id (sw_members sw);
          count = min (length candidates) INDIRECT_PROBE_COUNT in
      if count = 0 then (sw, [])
      else
        let sw1 = (case bt_get (sw_pending sw) seq of
                     Some p \<Rightarrow> sw\<lparr>sw_pending := bt_insert seq (p\<lparr>pp_indirect_sent := True\<rparr>) (sw_pending sw)\<rparr>
                   | None \<Rightarrow> sw);
            updates = recent_updates order MAX_PIGGYBACK_UPDATES (sw_members sw1) in
        (sw1,
         map (\<lambda>relay. (GmPingReq (ml_local_id (sw_members sw1)) self target_id target_addr seq updates,
                        mb_addr relay))
           (take count candidates)))"

definition probe_finish :: "u64 \<Rightarrow> SwimProtocol \<Rightarrow> SwimProtocol" where
  "probe_finish seq sw = sw\<lparr>sw_pending := bt_remove seq (sw_pending sw)\<rparr>"

text \<open>After the first await: the cycle ends, or asks relays to probe the target.\<close>

definition probe_direct_done ::
  "member_order \<Rightarrow> SocketAddr \<Rightarrow> bool \<Rightarrow> NodeId \<Rightarrow> SocketAddr \<Rightarrow> u64 \<Rightarrow> SwimProtocol \<Rightarrow>
   bool \<times> SwimProtocol \<times> datagram list" where
  "probe_direct_done order self expired target_id target_addr seq sw =
     (if wait_for_ack expired seq sw then (True, probe_finish seq sw, [])
      else (False, send_indirect_probes order self target_id target_addr seq sw))"

text \<open>After the second: the flag tells whether the target was left without an acknowledgement.\<close>

definition probe_indirect_done :: "nat \<Rightarrow> bool \<Rightarrow> NodeId \<Rightarrow> u64 \<Rightarrow> SwimProtocol \<Rightarrow> bool \<times> SwimProtocol" where
  "probe_indirect_done now expired target_id seq sw =
     (if wait_for_ack expired seq sw then (False, probe_finish seq sw)
      else (True, probe_finish seq
                    (sw\<lparr>sw_members := snd (mark_suspect now target_id (sw_members sw))\<rparr>)))"

fun handle_message ::
  "member_order \<Rightarrow> nat \<Rightarrow> SocketAddr \<Rightarrow> GossipMessage \<Rightarrow> SwimProtocol \<Rightarrow> SwimProtocol \<times> datagram list" where
  "handle_message order now self (GmPing sender from_addr seq us) sw =
     (let sw1 = sw\<lparr>sw_members := apply_updates now us (sw_members sw)\<rparr> in
      (sw1, [(GmAck (ml_local_id (sw_members sw1)) self seq
                (recent_updates order MAX_PIGGYBACK_UPDATES (sw_members sw1)), from_addr)]))"
| "handle_message order now self (GmPingReq sender from_addr target target_addr seq us) sw =
     (let sw1 = sw\<lparr>sw_members := apply_updates now us (sw_members sw)\<rparr> in
      (sw1, [(GmPing (ml_local_id (sw_members sw1)) self seq
                (recent_updates order MAX_PIGGYBACK_UPDATES (sw_members sw1)), target_addr)]))"
| "handle_message order now self (GmAck sender from_addr seq us) sw =
     (let sw1 = sw\<lparr>sw_members := apply_updates now us (sw_members sw)\<rparr> in
      (sw1\<lparr>sw_pending := bt_remove seq (sw_pending sw1)\<rparr>, []))"
| "handle_message order now self (GmJoin n addr) sw =
     (let sw1 = sw\<lparr>sw_members := snd (apply_update now
                     \<lparr>mu_node_id = n, mu_addr = addr, mu_state = MsAlive, mu_incarnation = 0\<rparr>
                     (sw_members sw))\<rparr> in
      (sw1, [(GmAck (ml_local_id (sw_members sw1)) self 0
                (recent_updates order MAX_PIGGYBACK_UPDATES (sw_members sw1)), addr)]))"
| "handle_message order now self (GmAlive n addr inc) sw =
     (sw\<lparr>sw_members := snd (apply_update now
            \<lparr>mu_node_id = n, mu_addr = addr, mu_state = MsAlive, mu_incarnation = inc\<rparr> (sw_members sw))\<rparr>, [])"
| "handle_message order now self (GmSuspect n addr inc) sw =
     (sw\<lparr>sw_members := snd (apply_update now
            \<lparr>mu_node_id = n, mu_addr = addr, mu_state = MsSuspect, mu_incarnation = inc\<rparr> (sw_members sw))\<rparr>, [])"
| "handle_message order now self (GmDead n addr inc) sw =
     (sw\<lparr>sw_members := snd (apply_update now
            \<lparr>mu_node_id = n, mu_addr = addr, mu_state = MsDead, mu_incarnation = inc\<rparr> (sw_members sw))\<rparr>, [])"

definition reap_suspects :: "member_order \<Rightarrow> nat \<Rightarrow> SwimProtocol \<Rightarrow> SwimProtocol" where
  "reap_suspects order now sw =
     (let suspects = map mb_node_id
            (filter (\<lambda>m. mb_state m = MsSuspect \<and>
                          sc_suspicion_timeout (sw_config sw) \<le> int (now - mb_state_change m))
              (probe_targets order (sw_members sw))) in
      sw\<lparr>sw_members := fold (\<lambda>n ml. snd (mark_dead now n ml)) suspects (sw_members sw)\<rparr>)"

definition join_seeds :: "SocketAddr \<Rightarrow> SocketAddr list \<Rightarrow> SwimProtocol \<Rightarrow> datagram list" where
  "join_seeds self seeds sw =
     map (\<lambda>seed. (GmJoin (ml_local_id (sw_members sw)) self, seed)) (filter (\<lambda>seed. seed \<noteq> self) seeds)"

section \<open>The service and the network\<close>

datatype ProbePhase = ProbeIdle | DirectWait NodeId SocketAddr u64 | IndirectWait NodeId u64

record GossipService =
  gs_addr :: SocketAddr
  gs_protocol :: SwimProtocol
  gs_probe :: ProbePhase

definition gossip_service_new :: "nat \<Rightarrow> NodeId \<Rightarrow> SocketAddr \<Rightarrow> u64 \<Rightarrow> u32 \<Rightarrow> GossipService option" where
  "gossip_service_new now n bind_addr gossip_interval_ms suspicion_mult =
     map_option
       (\<lambda>cfg. \<lparr>gs_addr = bind_addr, gs_protocol = swim_new (member_list_new now n bind_addr) cfg,
              gs_probe = ProbeIdle\<rparr>)
       (swim_config_new gossip_interval_ms suspicion_mult)"

text \<open>
  Start binds the socket, whose address need not be the configured one (port 0), and joins the
  seeds. A node whose bind fails runs without the service.
\<close>

definition gossip_start :: "SocketAddr \<Rightarrow> SocketAddr list \<Rightarrow> GossipService \<Rightarrow> GossipService \<times> datagram list" where
  "gossip_start actual_addr seeds gs =
     (gs\<lparr>gs_addr := actual_addr\<rparr>, join_seeds actual_addr seeds (gs_protocol gs))"

definition gossip_members :: "member_order \<Rightarrow> GossipService \<Rightarrow> (NodeId \<times> SocketAddr) list" where
  "gossip_members order gs =
     map (\<lambda>m. (mb_node_id m, mb_addr m)) (alive_members order (sw_members (gs_protocol gs)))"

text \<open>One iteration of the receive loop, of the probe loop (in its three parts) and of the reap loop.\<close>

definition recv_iteration ::
  "member_order \<Rightarrow> nat \<Rightarrow> GossipMessage \<Rightarrow> GossipService \<Rightarrow> GossipService \<times> datagram list" where
  "recv_iteration order now msg gs =
     (let (sw, out) = handle_message order now (gs_addr gs) msg (gs_protocol gs) in
      (gs\<lparr>gs_protocol := sw\<rparr>, out))"

definition probe_iteration ::
  "member_order \<Rightarrow> nat \<Rightarrow> bool \<Rightarrow> GossipService \<Rightarrow> NodeId option \<times> GossipService \<times> datagram list" where
  "probe_iteration order now expired gs =
     (case gs_probe gs of
        ProbeIdle \<Rightarrow>
          (case probe_start order now (gs_addr gs) (gs_protocol gs) of
             (None, sw, out) \<Rightarrow> (None, gs\<lparr>gs_protocol := sw\<rparr>, out)
           | (Some (m, seq), sw, out) \<Rightarrow>
               (None, gs\<lparr>gs_protocol := sw, gs_probe := DirectWait (mb_node_id m) (mb_addr m) seq\<rparr>, out))
      | DirectWait n addr seq \<Rightarrow>
          (case probe_direct_done order (gs_addr gs) expired n addr seq (gs_protocol gs) of
             (acked, sw, out) \<Rightarrow>
               (None, gs\<lparr>gs_protocol := sw, gs_probe := (if acked then ProbeIdle else IndirectWait n seq)\<rparr>, out))
      | IndirectWait n seq \<Rightarrow>
          (case probe_indirect_done now expired n seq (gs_protocol gs) of
             (missed, sw) \<Rightarrow>
               (if missed then Some n else None, gs\<lparr>gs_protocol := sw, gs_probe := ProbeIdle\<rparr>, [])))"

definition reap_iteration :: "member_order \<Rightarrow> nat \<Rightarrow> GossipService \<Rightarrow> GossipService" where
  "reap_iteration order now gs = gs\<lparr>gs_protocol := reap_suspects order now (gs_protocol gs)\<rparr>"

text \<open>
  The network: the running services and every datagram ever sent. A datagram may be lost,
  delayed, reordered and duplicated, so what has been sent stays deliverable.
\<close>

record GossipNet =
  gn_nodes :: "(NodeId, GossipService) btree"
  gn_wire :: "datagram list"

definition gossip_net_empty :: GossipNet where
  "gossip_net_empty = \<lparr>gn_nodes = [], gn_wire = []\<rparr>"

datatype GossipEvent =
    EvStart NodeId
  | EvRecv NodeId
  | EvProbe NodeId
  | EvMissed NodeId NodeId
  | EvReap NodeId

definition net_update :: "NodeId \<Rightarrow> GossipService \<Rightarrow> datagram list \<Rightarrow> GossipNet \<Rightarrow> GossipNet" where
  "net_update n gs out net =
     net\<lparr>gn_nodes := bt_insert n gs (gn_nodes net), gn_wire := gn_wire net @ out\<rparr>"

inductive gossip_step :: "GossipNet \<Rightarrow> GossipEvent \<Rightarrow> GossipNet \<Rightarrow> bool" where
  start:
    "gossip_service_new now n bind_addr interval susp = Some gs0 \<Longrightarrow> gossip_start actual seeds gs0 = (gs, out) \<Longrightarrow>
     gossip_step net (EvStart n) (net_update n gs out net)"
| recv:
    "bt_get (gn_nodes net) n = Some gs \<Longrightarrow> (msg, gs_addr gs) \<in> set (gn_wire net) \<Longrightarrow>
     hash_order order \<Longrightarrow> recv_iteration order now msg gs = (gs', out) \<Longrightarrow>
     gossip_step net (EvRecv n) (net_update n gs' out net)"
| probe:
    "bt_get (gn_nodes net) n = Some gs \<Longrightarrow> hash_order order \<Longrightarrow>
     probe_iteration order now expired gs = (missed, gs', out) \<Longrightarrow>
     gossip_step net (case missed of None \<Rightarrow> EvProbe n | Some t \<Rightarrow> EvMissed n t) (net_update n gs' out net)"
| reap:
    "bt_get (gn_nodes net) n = Some gs \<Longrightarrow> hash_order order \<Longrightarrow>
     gossip_step net (EvReap n) (net_update n (reap_iteration order now gs) [] net)"

inductive gossip_run :: "GossipNet \<Rightarrow> GossipEvent list \<Rightarrow> GossipNet \<Rightarrow> bool" where
  run_done: "gossip_run net [] net"
| run_step: "gossip_step net e net' \<Longrightarrow> gossip_run net' es net'' \<Longrightarrow> gossip_run net (e # es) net''"

definition view_of :: "GossipNet \<Rightarrow> NodeId \<Rightarrow> NodeId \<Rightarrow> MemberState option" where
  "view_of net v n =
     (case bt_get (gn_nodes net) v of
        None \<Rightarrow> None
      | Some gs \<Rightarrow> map_option mb_state (bt_get (ml_members (sw_members (gs_protocol gs))) n))"


section \<open>Merging views\<close>

text \<open>
  A table whose entries only grow, each step raising one entry to what an update claims: what it
  holds after a sequence of updates does not depend on their order or repetition.
\<close>

locale merge_table =
  fixes merge :: "'u \<Rightarrow> 's \<Rightarrow> 's"
    and level :: "'s \<Rightarrow> 'k \<Rightarrow> 'l::linorder"
    and claim :: "'u \<Rightarrow> 'k \<Rightarrow> 'l"
    and inv :: "'s \<Rightarrow> bool"
  assumes merge_inv: "inv s \<Longrightarrow> inv (merge u s)"
    and merge_level: "inv s \<Longrightarrow> level (merge u s) k = max (level s k) (claim u k)"
begin

lemma fold_level:
  "inv s \<Longrightarrow> level (fold merge us s) k = Max (insert (level s k) ((\<lambda>u. claim u k) ` set us))"
proof (induction us arbitrary: s)
  case (Cons u us)
  have "level (fold merge (u # us) s) k
      = Max (insert (max (level s k) (claim u k)) ((\<lambda>u. claim u k) ` set us))"
    using Cons.IH[of "merge u s"] merge_inv[OF Cons.prems, of u] merge_level[OF Cons.prems, of u k] by simp
  also have "\<dots> = Max (insert (level s k) ((\<lambda>u. claim u k) ` set (u # us)))"
    by (cases "us = []") (simp_all add: max.assoc max.left_commute)
  finally show ?case .
qed simp

lemma fold_order:
  "inv s \<Longrightarrow> (\<lambda>u. claim u k) ` set us = (\<lambda>u. claim u k) ` set vs \<Longrightarrow>
   level (fold merge us s) k = level (fold merge vs s) k"
  by (simp add: fold_level)

end

definition rank_at :: "MemberList \<Rightarrow> NodeId \<Rightarrow> (u64 \<times> u8) option" where
  "rank_at ml n = map_option (\<lambda>m. (mb_incarnation m, state_priority (mb_state m))) (bt_get (ml_members ml) n)"

definition claimed_rank :: "NodeId \<Rightarrow> MembershipUpdate \<Rightarrow> NodeId \<Rightarrow> (u64 \<times> u8) option" where
  "claimed_rank local u n =
     (if mu_node_id u = n \<and> n \<noteq> local then Some (mu_incarnation u, state_priority (mu_state u)) else None)"

lemma apply_update_local_id [simp]: "ml_local_id (snd (apply_update now u ml)) = ml_local_id ml"
  by (auto simp: apply_update_def handle_local_update_def next_incarnation_def Let_def
      split: MemberState.split option.split)

lemma should_override_rank:
  "should_override e u \<longleftrightarrow>
     (mb_incarnation e, state_priority (mb_state e)) < (mu_incarnation u, state_priority (mu_state u))"
  by (cases "mb_incarnation e" "mu_incarnation u" rule: linorder_cases)
     (auto simp: should_override_def)

lemma rank_at_apply_update:
  "rank_at (snd (apply_update now u ml)) n = max (rank_at ml n) (claimed_rank (ml_local_id ml) u n)"
proof (cases "mu_node_id u = ml_local_id ml \<or> n \<noteq> mu_node_id u")
  case True
  then have "claimed_rank (ml_local_id ml) u n = None" by (auto simp: claimed_rank_def)
  moreover have "rank_at (snd (apply_update now u ml)) n = rank_at ml n"
    using True by (auto simp: rank_at_def apply_update_def handle_local_update_def next_incarnation_def
        Let_def split: MemberState.split)
  moreover have "max x None = x" for x :: "(u64 \<times> u8) option"
    by (cases x) (simp_all add: max_def)
  ultimately show ?thesis by simp
next
  case False
  then have claimed: "claimed_rank (ml_local_id ml) u n = Some (mu_incarnation u, state_priority (mu_state u))"
    by (simp add: claimed_rank_def)
  show ?thesis
  proof (cases "bt_get (ml_members ml) n")
    case None
    with False show ?thesis
      unfolding claimed by (simp add: rank_at_def apply_update_def member_with_state_def max_def)
  next
    case (Some e)
    with False have rank: "rank_at (snd (apply_update now u ml)) n =
        (if should_override e u then Some (mu_incarnation u, state_priority (mu_state u))
         else Some (mb_incarnation e, state_priority (mb_state e)))"
      by (simp add: rank_at_def apply_update_def member_with_state_def)
    show ?thesis
      unfolding rank claimed should_override_rank
      using Some by (auto simp: rank_at_def max_def not_le
          dest: order_less_asym del: less_eq_prod_simp less_prod_simp)
  qed
qed

lemma state_priority_inj: "state_priority a = state_priority b \<longleftrightarrow> a = b"
  by (cases a; cases b) simp_all

interpretation gossip: merge_table
  "\<lambda>(now, u) ml. snd (apply_update now u ml)" rank_at "\<lambda>(now, u). claimed_rank local u"
  "\<lambda>ml. ml_local_id ml = local" for local
  by unfold_locales (auto simp: rank_at_apply_update)

definition view_entry :: "MemberList \<Rightarrow> NodeId \<Rightarrow> (u64 \<times> MemberState) option" where
  "view_entry ml n = map_option (\<lambda>m. (mb_incarnation m, mb_state m)) (bt_get (ml_members ml) n)"

lemma view_entry_rank:
  "view_entry a n = view_entry b n \<longleftrightarrow> rank_at a n = rank_at b n"
  by (cases "bt_get (ml_members a) n"; cases "bt_get (ml_members b) n")
     (auto simp: view_entry_def rank_at_def state_priority_inj)

text \<open>
  C11: two nodes, neither of them the member in question, that hold the same incarnation and state of
  a member and then receive the same updates, in any order and any number of times each, at any times,
  end with the same incarnation and state of that member.
\<close>

theorem views_converge:
  assumes "n \<noteq> ml_local_id a" "n \<noteq> ml_local_id b" "view_entry a n = view_entry b n"
    and "set (map snd us) = set (map snd vs)"
  shows "view_entry (fold (\<lambda>(now, u) ml. snd (apply_update now u ml)) us a) n
       = view_entry (fold (\<lambda>(now, u) ml. snd (apply_update now u ml)) vs b) n"
proof -
  have img: "(\<lambda>x. (case x of (now, u) \<Rightarrow> claimed_rank l u) n) ` set ws
      = (\<lambda>u. claimed_rank l u n) ` set (map snd ws)" for l and ws :: "(nat \<times> MembershipUpdate) list"
    by force
  have same: "claimed_rank (ml_local_id a) u n = claimed_rank (ml_local_id b) u n" for u
    using assms(1,2) by (simp add: claimed_rank_def)
  have start: "rank_at a n = rank_at b n"
    using assms(3) by (simp only: view_entry_rank)
  show ?thesis
    unfolding view_entry_rank gossip.fold_level[of a "ml_local_id a", OF refl] gossip.fold_level[of b "ml_local_id b", OF refl]
    by (simp only: img assms(4) same start)
qed

definition demo_claim :: "MemberState \<Rightarrow> u64 \<Rightarrow> MembershipUpdate" where
  "demo_claim st inc = \<lparr>mu_node_id = 2, mu_addr = ''b'', mu_state = st, mu_incarnation = inc\<rparr>"

theorem views_converge_witness:
  "view_entry (fold (\<lambda>(now, u) ml. snd (apply_update now u ml))
      [(1, demo_claim MsSuspect 0), (2, demo_claim MsAlive 1)] (member_list_new 0 1 ''a'')) 2
   = view_entry (fold (\<lambda>(now, u) ml. snd (apply_update now u ml))
      [(3, demo_claim MsAlive 1), (4, demo_claim MsSuspect 0), (5, demo_claim MsAlive 1)]
      (member_list_new 0 3 ''c'')) 2"
  by (rule views_converge) (auto simp: member_list_new_def view_entry_def)

section \<open>What a node says of the others\<close>

text \<open>
  The contents of a table and of a datagram that services produce: the incarnation is 0, and a
  member that is not alive is one whose probe somebody missed.
\<close>

definition claim_ok :: "NodeId set \<Rightarrow> NodeId \<Rightarrow> MemberState \<Rightarrow> u64 \<Rightarrow> bool" where
  "claim_ok S n st inc \<longleftrightarrow> inc = 0 \<and> (st = MsAlive \<or> n \<in> S)"

definition update_ok :: "NodeId set \<Rightarrow> MembershipUpdate \<Rightarrow> bool" where
  "update_ok S u \<longleftrightarrow> claim_ok S (mu_node_id u) (mu_state u) (mu_incarnation u)"

fun message_ok :: "NodeId set \<Rightarrow> GossipMessage \<Rightarrow> bool" where
  "message_ok S (GmAlive _ _ _) = False"
| "message_ok S (GmSuspect _ _ _) = False"
| "message_ok S (GmDead _ _ _) = False"
| "message_ok S (GmJoin _ _) = True"
| "message_ok S m = (\<forall>u \<in> set (message_updates m). update_ok S u)"

definition table_wf :: "NodeId \<Rightarrow> MemberList \<Rightarrow> bool" where
  "table_wf n ml \<longleftrightarrow> ml_local_id ml = n \<and> bt_wf (ml_members ml) \<and>
     (\<forall>k m. bt_get (ml_members ml) k = Some m \<longrightarrow> mb_node_id m = k) \<and>
     (\<exists>m. bt_get (ml_members ml) n = Some m \<and> mb_state m = MsAlive)"

definition table_ok :: "NodeId set \<Rightarrow> MemberList \<Rightarrow> bool" where
  "table_ok S ml \<longleftrightarrow>
     (\<forall>k m. bt_get (ml_members ml) k = Some m \<longrightarrow> claim_ok S k (mb_state m) (mb_incarnation m))"

definition worsens :: "MemberList \<Rightarrow> MemberList \<Rightarrow> bool" where
  "worsens ml ml' \<longleftrightarrow>
     (\<forall>k m. bt_get (ml_members ml) k = Some m \<longrightarrow>
        (\<exists>m'. bt_get (ml_members ml') k = Some m' \<and>
              state_priority (mb_state m) \<le> state_priority (mb_state m')))"

lemma worsens_refl [simp]: "worsens ml ml"
  by (simp add: worsens_def)

lemma worsens_trans: "worsens a b \<Longrightarrow> worsens b c \<Longrightarrow> worsens a c"
  unfolding worsens_def by (meson order_trans)

lemma state_priority_le_dead [simp]: "state_priority s \<le> 2"
  by (cases s) simp_all

lemma apply_update_wf: "table_wf n ml \<Longrightarrow> table_wf n (snd (apply_update now u ml))"
  by (auto simp: table_wf_def apply_update_def handle_local_update_def next_incarnation_def Let_def
      member_with_state_def split: MemberState.split option.split)

lemma apply_update_ok: "table_ok S ml \<Longrightarrow> update_ok S u \<Longrightarrow> table_ok S (snd (apply_update now u ml))"
  by (auto simp: table_ok_def update_ok_def apply_update_def handle_local_update_def next_incarnation_def Let_def
      member_with_state_def split: MemberState.split option.split)

lemma apply_update_worsens:
  "table_ok S ml \<Longrightarrow> update_ok S u \<Longrightarrow> worsens ml (snd (apply_update now u ml))"
  by (auto simp: worsens_def table_ok_def update_ok_def claim_ok_def apply_update_def handle_local_update_def
      next_incarnation_def Let_def member_with_state_def should_override_def
      split: MemberState.split option.split)

lemma apply_updates_steps:
  "table_wf n ml \<Longrightarrow> table_ok S ml \<Longrightarrow> \<forall>u \<in> set us. update_ok S u \<Longrightarrow>
   table_wf n (apply_updates now us ml) \<and> table_ok S (apply_updates now us ml) \<and>
   worsens ml (apply_updates now us ml)"
proof (induction us arbitrary: ml)
  case (Cons u us)
  let ?ml = "snd (apply_update now u ml)"
  have "table_wf n ?ml" "table_ok S ?ml" "worsens ml ?ml"
    using Cons.prems by (simp_all add: apply_update_wf apply_update_ok apply_update_worsens)
  with Cons.IH[of ?ml] Cons.prems(3) worsens_trans[of ml ?ml] show ?case by simp
qed simp

lemma mark_suspect_steps:
  "table_wf n ml \<Longrightarrow> table_ok S ml \<Longrightarrow> t \<noteq> n \<Longrightarrow>
   table_wf n (snd (mark_suspect now t ml)) \<and> table_ok (insert t S) (snd (mark_suspect now t ml)) \<and>
   worsens ml (snd (mark_suspect now t ml))"
  by (auto simp: table_wf_def table_ok_def claim_ok_def worsens_def mark_suspect_def split: option.split)

lemma mark_dead_steps:
  "table_wf n ml \<Longrightarrow> table_ok S ml \<Longrightarrow> t \<noteq> n \<Longrightarrow> t \<in> S \<Longrightarrow>
   table_wf n (snd (mark_dead now t ml)) \<and> table_ok S (snd (mark_dead now t ml)) \<and>
   worsens ml (snd (mark_dead now t ml))"
  by (auto simp: table_wf_def table_ok_def claim_ok_def worsens_def mark_dead_def split: option.split)

lemma mark_dead_fold:
  "table_wf n ml \<Longrightarrow> table_ok S ml \<Longrightarrow> \<forall>t \<in> set ts. t \<noteq> n \<and> t \<in> S \<Longrightarrow>
   table_wf n (fold (\<lambda>t ml. snd (mark_dead now t ml)) ts ml) \<and>
   table_ok S (fold (\<lambda>t ml. snd (mark_dead now t ml)) ts ml) \<and>
   worsens ml (fold (\<lambda>t ml. snd (mark_dead now t ml)) ts ml)"
proof (induction ts arbitrary: ml)
  case (Cons t ts)
  let ?ml = "snd (mark_dead now t ml)"
  have "table_wf n ?ml" "table_ok S ?ml" "worsens ml ?ml"
    using mark_dead_steps[of n ml S t now] Cons.prems by simp_all
  with Cons.IH[of ?ml] Cons.prems(3) worsens_trans[of ml ?ml] show ?case by simp
qed simp

lemma all_members_held:
  "m \<in> set (all_members order ml) \<Longrightarrow> \<exists>k. bt_get (ml_members ml) k = Some m"
  by (auto simp: all_members_def List.map_filter_def)

lemma all_members_listed:
  assumes "hash_order order" "bt_wf (ml_members ml)" "bt_get (ml_members ml) k = Some m"
  shows "m \<in> set (all_members order ml)"
proof -
  have "k \<in> set (order (ml_members ml))"
    using assms map_of_SomeD[OF assms(3)] by (force simp: hash_order_def)
  with assms(3) show ?thesis
    by (auto simp: all_members_def List.map_filter_def intro!: image_eqI[where x = k])
qed

lemma recent_updates_ok:
  "table_wf n ml \<Longrightarrow> table_ok S ml \<Longrightarrow> u \<in> set (recent_updates order k ml) \<Longrightarrow> update_ok S u"
  by (auto simp: recent_updates_def table_wf_def table_ok_def update_ok_def to_update_def
      dest!: in_set_takeD all_members_held)

lemma probe_target_facts:
  "table_wf n ml \<Longrightarrow> m \<in> set (probe_targets order ml) \<Longrightarrow>
   mb_node_id m \<noteq> n \<and> bt_get (ml_members ml) (mb_node_id m) = Some m"
  by (auto simp: probe_targets_def table_wf_def dest: all_members_held)

section \<open>Runs of the network\<close>

definition phase_ok :: "NodeId \<Rightarrow> ProbePhase \<Rightarrow> bool" where
  "phase_ok n p = (case p of ProbeIdle \<Rightarrow> True | DirectWait t _ _ \<Rightarrow> t \<noteq> n | IndirectWait t _ \<Rightarrow> t \<noteq> n)"

definition service_ok :: "NodeId set \<Rightarrow> NodeId \<Rightarrow> GossipService \<Rightarrow> bool" where
  "service_ok S n gs \<longleftrightarrow>
     table_wf n (sw_members (gs_protocol gs)) \<and> table_ok S (sw_members (gs_protocol gs)) \<and>
     phase_ok n (gs_probe gs) \<and> even (unat (sw_seq (gs_protocol gs)))"

abbreviation "service_table gs \<equiv> sw_members (gs_protocol gs)"

definition datagrams_ok :: "NodeId set \<Rightarrow> datagram list \<Rightarrow> bool" where
  "datagrams_ok S ds \<longleftrightarrow> (\<forall>d \<in> set ds. message_ok S (fst d))"

definition net_ok :: "NodeId set \<Rightarrow> GossipNet \<Rightarrow> bool" where
  "net_ok S net \<longleftrightarrow>
     (\<forall>n gs. bt_get (gn_nodes net) n = Some gs \<longrightarrow> service_ok S n gs) \<and> datagrams_ok S (gn_wire net)"

lemma claim_ok_mono: "claim_ok S n st inc \<Longrightarrow> S \<subseteq> T \<Longrightarrow> claim_ok T n st inc"
  by (auto simp: claim_ok_def)

lemma message_ok_mono: "message_ok S m \<Longrightarrow> S \<subseteq> T \<Longrightarrow> message_ok T m"
  by (cases m) (auto simp: update_ok_def intro: claim_ok_mono)

lemma service_ok_mono: "service_ok S n gs \<Longrightarrow> S \<subseteq> T \<Longrightarrow> service_ok T n gs"
  unfolding service_ok_def table_ok_def by (meson claim_ok_mono)

lemma net_ok_update:
  "net_ok S net \<Longrightarrow> S \<subseteq> T \<Longrightarrow> service_ok T n gs \<Longrightarrow> datagrams_ok T out \<Longrightarrow> net_ok T (net_update n gs out net)"
  unfolding net_ok_def net_update_def datagrams_ok_def
  by (auto intro: message_ok_mono service_ok_mono[of S _ _ T])

lemma even_seq_succ: "even (unat (s + 1)) = odd (unat (s::u64))"
  by (simp add: unat_word_ariths dvd_mod_iff)

lemma even_seq_two: "even (unat (2 + s)) = even (unat (s::u64))"
  using even_seq_succ[of s] even_seq_succ[of "s + 1"] by (simp add: add.commute)

lemma handle_message_steps:
  assumes "table_wf n (sw_members sw)" "table_ok S (sw_members sw)" "message_ok S msg"
    and "handle_message order now self msg sw = (sw', out)"
  shows "table_wf n (sw_members sw') \<and> table_ok S (sw_members sw') \<and> worsens (sw_members sw) (sw_members sw') \<and>
         sw_seq sw' = sw_seq sw \<and> datagrams_ok S out"
proof (cases msg)
  case (GmJoin j addr)
  let ?u = "\<lparr>mu_node_id = j, mu_addr = addr, mu_state = MsAlive, mu_incarnation = 0\<rparr>"
  let ?ml = "snd (apply_update now ?u (sw_members sw))"
  have "update_ok S ?u" by (simp add: update_ok_def claim_ok_def)
  with assms(1,2) have "table_wf n ?ml" "table_ok S ?ml" "worsens (sw_members sw) ?ml"
    by (simp_all add: apply_update_wf apply_update_ok apply_update_worsens)
  with assms(4) GmJoin recent_updates_ok[of n ?ml S] show ?thesis
    by (auto simp: datagrams_ok_def Let_def)
qed (use assms apply_updates_steps[OF assms(1,2), of "message_updates msg" now]
      recent_updates_ok[of n "apply_updates now (message_updates msg) (sw_members sw)" S]
     in \<open>auto simp: datagrams_ok_def Let_def\<close>)

lemma recv_iteration_steps:
  assumes "service_ok S n gs" "message_ok S msg" "recv_iteration order now msg gs = (gs', out)"
  shows "service_ok S n gs' \<and> datagrams_ok S out \<and> worsens (service_table gs) (service_table gs')"
  using assms handle_message_steps[of n "gs_protocol gs" S msg order now "gs_addr gs"]
  by (auto simp: recv_iteration_def service_ok_def split: prod.splits)

lemma reap_iteration_steps:
  assumes "service_ok S n gs"
  shows "service_ok S n (reap_iteration order now gs) \<and>
         worsens (service_table gs) (service_table (reap_iteration order now gs))"
proof -
  let ?sw = "gs_protocol gs"
  let ?due = "filter (\<lambda>m. mb_state m = MsSuspect \<and>
                  sc_suspicion_timeout (sw_config ?sw) \<le> int (now - mb_state_change m))
                (probe_targets order (sw_members ?sw))"
  have wf: "table_wf n (sw_members ?sw)" "table_ok S (sw_members ?sw)"
    using assms by (simp_all add: service_ok_def)
  have "\<forall>t \<in> set (map mb_node_id ?due). t \<noteq> n \<and> t \<in> S"
    using probe_target_facts[OF wf(1)] wf(2) by (fastforce simp: table_ok_def claim_ok_def)
  from mark_dead_fold[OF wf this, of now] show ?thesis
    using assms by (simp add: service_ok_def reap_iteration_def reap_suspects_def Let_def)
qed

lemma probe_start_steps:
  assumes "table_wf n (sw_members sw)" "table_ok S (sw_members sw)"
    and "probe_start order now self sw = (r, sw', out)"
  shows "sw_members sw' = sw_members sw \<and> even (unat (sw_seq sw')) = even (unat (sw_seq sw)) \<and>
         datagrams_ok S out \<and> (\<forall>m seq. r = Some (m, seq) \<longrightarrow> mb_node_id m \<noteq> n)"
proof (cases "probe_targets order (sw_members sw) = []")
  case True
  with assms(3) show ?thesis by (auto simp: probe_start_def datagrams_ok_def)
next
  case False
  let ?ts = "probe_targets order (sw_members sw)"
  let ?i = "unat (sw_seq sw + 1) mod length ?ts"
  have "?ts ! ?i \<in> set ?ts" using False by simp
  then have "mb_node_id (?ts ! ?i) \<noteq> n" using probe_target_facts[OF assms(1)] by blast
  with assms(3) False recent_updates_ok[OF assms(1,2)] show ?thesis
    by (auto simp: probe_start_def datagrams_ok_def next_seq_def Let_def even_seq_two)
qed

lemma probe_direct_done_steps:
  assumes "table_wf n (sw_members sw)" "table_ok S (sw_members sw)"
    and "probe_direct_done order self expired t addr seq sw = (acked, sw', out)"
  shows "sw_members sw' = sw_members sw \<and> sw_seq sw' = sw_seq sw \<and> datagrams_ok S out"
  using assms(3) recent_updates_ok[OF assms(1,2)]
  by (auto simp: probe_direct_done_def probe_finish_def send_indirect_probes_def datagrams_ok_def Let_def
      split: if_splits option.splits)

lemma probe_indirect_done_steps:
  assumes "table_wf n (sw_members sw)" "table_ok S (sw_members sw)" "t \<noteq> n"
    and "probe_indirect_done now expired t seq sw = (missed, sw')"
  shows "table_wf n (sw_members sw') \<and> table_ok (if missed then insert t S else S) (sw_members sw') \<and>
         worsens (sw_members sw) (sw_members sw') \<and> sw_seq sw' = sw_seq sw"
  using assms(4) mark_suspect_steps[OF assms(1-3), of now] assms(1,2)
  by (auto simp: probe_indirect_done_def probe_finish_def split: if_splits)

lemma probe_iteration_steps:
  assumes "service_ok S n gs" "probe_iteration order now expired gs = (missed, gs', out)"
  shows "service_ok (S \<union> set_option missed) n gs' \<and> datagrams_ok S out \<and>
         worsens (service_table gs) (service_table gs')"
proof (cases "gs_probe gs")
  case ProbeIdle
  then show ?thesis
    using assms probe_start_steps[of n "gs_protocol gs" S order now "gs_addr gs"]
    by (fastforce simp: probe_iteration_def service_ok_def phase_ok_def split: prod.splits option.splits)
next
  case (DirectWait t addr seq)
  then show ?thesis
    using assms probe_direct_done_steps[of n "gs_protocol gs" S order "gs_addr gs" expired t addr seq]
    by (auto simp: probe_iteration_def service_ok_def phase_ok_def split: prod.splits)
next
  case (IndirectWait t seq)
  then show ?thesis
    using assms probe_indirect_done_steps[of n "gs_protocol gs" S t now expired seq]
    by (auto simp: probe_iteration_def service_ok_def phase_ok_def datagrams_ok_def split: prod.splits if_splits)
qed

lemma gossip_start_steps:
  assumes "gossip_service_new now n bind_addr interval susp = Some gs0" "gossip_start actual seeds gs0 = (gs, out)"
  shows "service_ok S n gs \<and> datagrams_ok S out"
  using assms
  by (auto simp: gossip_start_def gossip_service_new_def swim_new_def member_list_new_def member_new_def
      service_ok_def table_wf_def table_ok_def claim_ok_def phase_ok_def datagrams_ok_def join_seeds_def
      split: if_splits)

fun missed_of :: "GossipEvent \<Rightarrow> NodeId set" where
  "missed_of (EvMissed _ t) = {t}"
| "missed_of _ = {}"

text \<open>One step keeps the invariant and, except at a node that starts, no view gets better.\<close>

definition net_worsens :: "GossipEvent \<Rightarrow> GossipNet \<Rightarrow> GossipNet \<Rightarrow> bool" where
  "net_worsens e net net' \<longleftrightarrow>
     (\<forall>v gs. bt_get (gn_nodes net) v = Some gs \<longrightarrow> e \<noteq> EvStart v \<longrightarrow>
        (\<exists>gs'. bt_get (gn_nodes net') v = Some gs' \<and> worsens (service_table gs) (service_table gs')))"

lemma net_worsens_update:
  "bt_get (gn_nodes net) n = Some gs \<Longrightarrow> worsens (service_table gs) (service_table gs') \<Longrightarrow>
   net_worsens e net (net_update n gs' out net)"
  by (auto simp: net_worsens_def net_update_def)

lemma gossip_step_ok:
  assumes "gossip_step net e net'" "net_ok S net"
  shows "net_ok (S \<union> missed_of e) net' \<and> net_worsens e net net'"
  using assms
proof (induction rule: gossip_step.induct)
  case (start now n bind_addr interval susp gs0 actual seeds gs out net)
  then show ?case
    using gossip_start_steps[OF start(1,2), of S] net_ok_update[of S net S n gs out]
    by (auto simp: net_worsens_def net_update_def)
next
  case (recv net n gs msg order now gs' out)
  have "service_ok S n gs" "message_ok S msg"
    using recv(1,2,5) by (force simp: net_ok_def datagrams_ok_def)+
  from recv_iteration_steps[OF this recv(4)] show ?case
    using net_ok_update[OF recv(5), of S] net_worsens_update[OF recv(1)] by simp
next
  case (probe net n gs order now expired missed gs' out)
  have "service_ok S n gs" using probe(1,4) by (simp add: net_ok_def)
  note st = probe_iteration_steps[OF this probe(3)]
  have "missed_of (case missed of None \<Rightarrow> EvProbe n | Some t \<Rightarrow> EvMissed n t) = set_option missed"
    by (cases missed) simp_all
  moreover have "datagrams_ok (S \<union> set_option missed) out"
    using st by (auto simp: datagrams_ok_def intro: message_ok_mono)
  ultimately show ?case
    using st net_ok_update[OF probe(4), of "S \<union> set_option missed"] net_worsens_update[OF probe(1)] by auto
next
  case (reap net n gs order now)
  have "service_ok S n gs" using reap(1,3) by (simp add: net_ok_def)
  from reap_iteration_steps[OF this, of order now] show ?case
    using net_ok_update[OF reap(3), of S] net_worsens_update[OF reap(1)] by (simp add: datagrams_ok_def)
qed

lemma gossip_run_ok:
  "gossip_run net es net' \<Longrightarrow> net_ok S net \<Longrightarrow> net_ok (S \<union> \<Union> (missed_of ` set es)) net'"
proof (induction arbitrary: S rule: gossip_run.induct)
  case (run_step net e net' es net'')
  have "net_ok (S \<union> missed_of e) net'" using gossip_step_ok run_step by blast
  from run_step.IH[OF this] show ?case by (simp add: Un_assoc)
qed simp

lemma gossip_net_empty_ok: "net_ok S gossip_net_empty"
  by (simp add: net_ok_def gossip_net_empty_def datagrams_ok_def)

lemma reachable_ok: "gossip_run gossip_net_empty es net \<Longrightarrow> net_ok (\<Union> (missed_of ` set es)) net"
  using gossip_run_ok[OF _ gossip_net_empty_ok, of es net "{}"] by simp

lemma gossip_run_worsens:
  "gossip_run net es net' \<Longrightarrow> net_ok S net \<Longrightarrow> EvStart v \<notin> set es \<Longrightarrow> bt_get (gn_nodes net) v = Some gs \<Longrightarrow>
   \<exists>gs'. bt_get (gn_nodes net') v = Some gs' \<and> worsens (service_table gs) (service_table gs')"
proof (induction arbitrary: S gs rule: gossip_run.induct)
  case (run_step net e net' es net'')
  have ok: "net_ok (S \<union> missed_of e) net'" and ws: "net_worsens e net net'"
    using gossip_step_ok run_step by blast+
  from ws run_step.prems(2,3) obtain gs1 where "bt_get (gn_nodes net') v = Some gs1"
      "worsens (service_table gs) (service_table gs1)"
    by (auto simp: net_worsens_def)
  with run_step.IH[OF ok] run_step.prems(2) show ?case
    by (auto intro: worsens_trans)
qed auto

subsection \<open>Executing a schedule\<close>

text \<open>
  A schedule names who acts, when, and which datagram is delivered; executing one gives a run.
  The concrete instances of the properties below are such runs.
\<close>

datatype GossipAction =
    DoStart nat NodeId SocketAddr u64 u32 "SocketAddr list"
  | DoRecv nat NodeId nat
  | DoProbe nat NodeId bool
  | DoReap nat NodeId

fun run_action :: "member_order \<Rightarrow> GossipAction \<Rightarrow> GossipNet \<Rightarrow> (GossipEvent \<times> GossipNet) option" where
  "run_action order (DoStart now n addr interval susp seeds) net =
     map_option
       (\<lambda>gs0. let (gs, out) = gossip_start addr seeds gs0 in (EvStart n, net_update n gs out net))
       (gossip_service_new now n addr interval susp)"
| "run_action order (DoRecv now n i) net =
     (case bt_get (gn_nodes net) n of
        None \<Rightarrow> None
      | Some gs \<Rightarrow>
          if i < length (gn_wire net) \<and> snd (gn_wire net ! i) = gs_addr gs
          then let (gs', out) = recv_iteration order now (fst (gn_wire net ! i)) gs in
               Some (EvRecv n, net_update n gs' out net)
          else None)"
| "run_action order (DoProbe now n expired) net =
     (case bt_get (gn_nodes net) n of
        None \<Rightarrow> None
      | Some gs \<Rightarrow>
          let (missed, gs', out) = probe_iteration order now expired gs in
          Some (case missed of None \<Rightarrow> EvProbe n | Some t \<Rightarrow> EvMissed n t, net_update n gs' out net))"
| "run_action order (DoReap now n) net =
     (case bt_get (gn_nodes net) n of
        None \<Rightarrow> None
      | Some gs \<Rightarrow> Some (EvReap n, net_update n (reap_iteration order now gs) [] net))"

fun run_schedule :: "member_order \<Rightarrow> GossipAction list \<Rightarrow> GossipNet \<Rightarrow> (GossipEvent list \<times> GossipNet) option" where
  "run_schedule order [] net = Some ([], net)"
| "run_schedule order (a # as) net =
     (case run_action order a net of
        None \<Rightarrow> None
      | Some (e, net') \<Rightarrow> map_option (\<lambda>(es, net''). (e # es, net'')) (run_schedule order as net'))"

lemma run_action_step:
  assumes "hash_order order" "run_action order a net = Some (e, net')"
  shows "gossip_step net e net'"
proof (cases a)
  case (DoRecv now n i)
  then obtain gs gs' out where gs: "bt_get (gn_nodes net) n = Some gs"
    and i: "i < length (gn_wire net)" "snd (gn_wire net ! i) = gs_addr gs"
    and r: "recv_iteration order now (fst (gn_wire net ! i)) gs = (gs', out)"
    and e: "e = EvRecv n" "net' = net_update n gs' out net"
    using assms(2) by (auto split: option.splits if_splits prod.splits)
  have "(fst (gn_wire net ! i), gs_addr gs) \<in> set (gn_wire net)"
    using i by (metis nth_mem prod.collapse)
  from gossip_step.recv[OF gs this assms(1) r] e show ?thesis by simp
next
  case (DoProbe now n expired)
  then obtain gs missed gs' out where gs: "bt_get (gn_nodes net) n = Some gs"
    and r: "probe_iteration order now expired gs = (missed, gs', out)"
    and e: "e = (case missed of None \<Rightarrow> EvProbe n | Some t \<Rightarrow> EvMissed n t)" "net' = net_update n gs' out net"
    using assms(2) by (auto split: option.splits prod.splits)
  from gossip_step.probe[OF gs assms(1) r] e show ?thesis by simp
next
  case (DoStart now n addr interval susp seeds)
  then obtain gs0 where new: "gossip_service_new now n addr interval susp = Some gs0"
    and e: "e = EvStart n"
      "net' = net_update n (fst (gossip_start addr seeds gs0)) (snd (gossip_start addr seeds gs0)) net"
    using assms(2) by (auto simp: case_prod_beta Let_def)
  from gossip_step.start[OF new prod.collapse[symmetric]] e show ?thesis by simp
qed (use assms in \<open>auto intro: gossip_step.intros split: option.splits prod.splits\<close>)

lemma run_schedule_run:
  "hash_order order \<Longrightarrow> run_schedule order as net = Some (es, net') \<Longrightarrow> gossip_run net es net'"
proof (induction as arbitrary: net es)
  case (Cons a as)
  from Cons.prems obtain e n1 es1 where "run_action order a net = Some (e, n1)"
      "run_schedule order as n1 = Some (es1, net')" "es = e # es1"
    by (auto split: option.splits)
  then show ?case
    using gossip_run.run_step[OF run_action_step[OF Cons.prems(1)]] Cons.IH[OF Cons.prems(1)] by simp
qed (simp add: gossip_run.run_done)

lemma hash_order_keys: "hash_order (map fst)"
  by (simp add: hash_order_def bt_wf_distinct)

definition demo_config :: SwimConfig where
  "demo_config = \<lparr>sc_gossip_interval = 2, sc_suspicion_timeout = 4, sc_probe_timeout = 1\<rparr>"

text \<open>Node 2 joins through node 1, whose first probe of it goes unanswered.\<close>

definition demo_schedule :: "GossipAction list" where
  "demo_schedule =
     [DoStart 0 1 ''a'' 1 4 [], DoStart 0 2 ''b'' 1 4 [''a''], DoRecv 1 1 0,
      DoProbe 2 1 False, DoProbe 3 1 False, DoProbe 4 1 False]"

text \<open>Node 2 answers the ping after all, restarts and joins again.\<close>

definition demo_recovery :: "GossipAction list" where
  "demo_recovery =
     [DoRecv 5 2 2, DoRecv 5 1 3, DoStart 6 2 ''b'' 1 4 [''a''], DoRecv 7 1 4]"

definition sample_run :: "GossipAction list \<Rightarrow> GossipNet \<Rightarrow> GossipNet" where
  "sample_run as net = (case run_schedule (map fst) as net of Some (_, net') \<Rightarrow> net' | None \<Rightarrow> net)"

definition sample_events :: "GossipAction list \<Rightarrow> GossipNet \<Rightarrow> GossipEvent list" where
  "sample_events as net = (case run_schedule (map fst) as net of Some (es, _) \<Rightarrow> es | None \<Rightarrow> [])"

lemma sample_run: "gossip_run net (sample_events as net) (sample_run as net)"
  by (auto simp: sample_run_def sample_events_def gossip_run.run_done split: option.split
      intro: run_schedule_run[OF hash_order_keys])

text \<open>
  C13: a node that one service holds to be suspect or dead is never alive for it again until that
  service restarts itself: whatever else happens, including the accused node answering every
  probe, learning of the accusation and restarting, the view only gets worse. The incarnation
  that would refute the accusation is counted by the accused node and never sent.
\<close>

theorem accusations_stick:
  assumes "gossip_run gossip_net_empty es net" "gossip_run net fs net'" "EvStart v \<notin> set fs"
    and "view_of net v n = Some st"
  shows "\<exists>st'. view_of net' v n = Some st' \<and> state_priority st \<le> state_priority st'"
proof -
  obtain gs m where gs: "bt_get (gn_nodes net) v = Some gs"
      and m: "bt_get (ml_members (service_table gs)) n = Some m" "st = mb_state m"
    using assms(4) by (auto simp: view_of_def split: option.splits)
  obtain gs' where "bt_get (gn_nodes net') v = Some gs'" "worsens (service_table gs) (service_table gs')"
    using gossip_run_worsens[OF assms(2) reachable_ok[OF assms(1)] assms(3) gs] by blast
  with m show ?thesis by (force simp: view_of_def worsens_def)
qed

theorem accusations_stick_witness:
  "\<exists>st. view_of (sample_run demo_recovery (sample_run demo_schedule gossip_net_empty)) 1 2 = Some st \<and>
        state_priority MsSuspect \<le> state_priority st"
proof (rule accusations_stick[OF sample_run sample_run])
  show "EvStart 1 \<notin> set (sample_events demo_recovery (sample_run demo_schedule gossip_net_empty))"
    by code_simp
  show "view_of (sample_run demo_schedule gossip_net_empty) 1 2 = Some MsSuspect"
    by code_simp
qed

text \<open>
  C12: in every run, a service holds a node to be suspect or dead only if some service's probe of
  that node has ended without an acknowledgement; no service ever holds itself to be other than
  alive.
\<close>

theorem suspicion_has_cause:
  assumes "gossip_run gossip_net_empty es net" "view_of net v n = Some st" "st \<noteq> MsAlive"
  shows "v \<noteq> n \<and> (\<exists>p. EvMissed p n \<in> set es)"
proof -
  obtain gs m where gs: "bt_get (gn_nodes net) v = Some gs"
      and m: "bt_get (ml_members (service_table gs)) n = Some m" "st = mb_state m"
    using assms(2) by (auto simp: view_of_def split: option.splits)
  have ok: "service_ok (\<Union> (missed_of ` set es)) v gs"
    using reachable_ok[OF assms(1)] gs by (simp add: net_ok_def)
  then have "n \<in> \<Union> (missed_of ` set es)" "v \<noteq> n"
    using m assms(3) by (auto simp: service_ok_def table_ok_def claim_ok_def table_wf_def)
  moreover from this(1) obtain e where "e \<in> set es" "n \<in> missed_of e" by blast
  moreover from this(2) have "\<exists>p. e = EvMissed p n" by (cases e) auto
  ultimately show ?thesis by auto
qed

theorem suspicion_has_cause_witness:
  "\<exists>p. EvMissed p 2 \<in> set (sample_events demo_schedule gossip_net_empty)"
proof -
  have "view_of (sample_run demo_schedule gossip_net_empty) 1 2 = Some MsSuspect" by code_simp
  from suspicion_has_cause[OF sample_run this] show ?thesis by simp
qed

text \<open>
  a service with an even number of members to probe only ever probes those at odd positions:
  the number that picks the member and the one that names the probe come from one counter, so the
  first is always odd.
\<close>

theorem even_targets_skipped:
  assumes "gossip_run gossip_net_empty es net" "bt_get (gn_nodes net) n = Some gs" "gs_probe gs = ProbeIdle"
    and "probe_iteration order now expired gs = (missed, gs', out)"
    and "probe_targets order (service_table gs) = ts" "ts \<noteq> []" "even (length ts)"
  shows "\<exists>i seq. odd i \<and> i < length ts \<and> gs_probe gs' = DirectWait (mb_node_id (ts ! i)) (mb_addr (ts ! i)) seq"
proof -
  let ?i = "unat (sw_seq (gs_protocol gs) + 1) mod length ts"
  have "even (unat (sw_seq (gs_protocol gs)))"
    using reachable_ok[OF assms(1)] assms(2) by (simp add: net_ok_def service_ok_def)
  then have "odd (unat (sw_seq (gs_protocol gs) + 1))" by (simp add: even_seq_succ)
  then have "odd ?i" using assms(7) by (simp add: dvd_mod_iff)
  moreover have "?i < length ts" using assms(6) by simp
  moreover have "gs_probe gs' = DirectWait (mb_node_id (ts ! ?i)) (mb_addr (ts ! ?i)) (sw_seq (gs_protocol gs) + 1 + 1)"
    using assms(3-6) by (auto simp: probe_iteration_def probe_start_def next_seq_def Let_def)
  ultimately show ?thesis by blast
qed

definition demo_pair :: "GossipAction list" where
  "demo_pair =
     [DoStart 0 1 ''a'' 1 4 [], DoStart 0 2 ''b'' 1 4 [''a''],
      DoStart 0 3 ''c'' 1 4 [''a''], DoRecv 1 1 0, DoRecv 1 1 1]"

definition demo_service :: GossipService where
  "demo_service = the (bt_get (gn_nodes (sample_run demo_pair gossip_net_empty)) 1)"

theorem even_targets_skipped_witness:
  "gs_probe (fst (snd (probe_iteration (map fst) 2 False demo_service))) = DirectWait 3 ''c'' 2"
proof -
  let ?ts = "probe_targets (map fst) (service_table demo_service)"
  have up: "bt_get (gn_nodes (sample_run demo_pair gossip_net_empty)) 1 = Some demo_service"
    and idle: "gs_probe demo_service = ProbeIdle" and two: "length ?ts = 2"
    and snd: "mb_node_id (?ts ! 1) = 3" "mb_addr (?ts ! 1) = ''c''"
    and seq: "sw_seq (gs_protocol demo_service) = 0"
    by code_simp+
  obtain missed gs' out where it: "probe_iteration (map fst) 2 False demo_service = (missed, gs', out)"
    using prod_cases3 by blast
  have "\<exists>i seq. odd i \<and> i < length ?ts \<and> gs_probe gs' = DirectWait (mb_node_id (?ts ! i)) (mb_addr (?ts ! i)) seq"
    using two by (intro even_targets_skipped[OF sample_run up idle it refl]) auto
  then obtain q where "gs_probe gs' = DirectWait 3 ''c'' q"
    using two snd by (auto simp: less_2_cases_iff)
  moreover have "\<forall>q. gs_probe gs' = DirectWait 3 ''c'' q \<longrightarrow> q = 2"
    using it idle two seq
    by (auto simp: probe_iteration_def probe_start_def next_seq_def Let_def split: if_splits)
  ultimately show ?thesis using it by simp
qed

subsection \<open>What the service lists\<close>

lemma all_members_keys:
  assumes "table_wf n ml" "hash_order order"
  shows "map mb_node_id (all_members order ml) = order (ml_members ml)"
proof -
  have key: "\<exists>m. bt_get (ml_members ml) k = Some m \<and> mb_node_id m = k" if "k \<in> set (order (ml_members ml))" for k
  proof -
    have "k \<in> fst ` set (ml_members ml)" using that assms by (simp add: hash_order_def table_wf_def)
    then obtain m where "bt_get (ml_members ml) k = Some m" by (metis map_of_eq_None_iff not_None_eq)
    with assms(1) show ?thesis by (auto simp: table_wf_def)
  qed
  have "map mb_node_id (List.map_filter (bt_get (ml_members ml)) ks) = ks"
    if "\<forall>k \<in> set ks. \<exists>m. bt_get (ml_members ml) k = Some m \<and> mb_node_id m = k" for ks
    using that by (induction ks) (auto simp: List.map_filter_simps)
  with key show ?thesis by (simp add: all_members_def)
qed

lemma all_members_iff:
  assumes "table_wf n ml" "hash_order order"
  shows "m \<in> set (all_members order ml) \<longleftrightarrow> bt_get (ml_members ml) (mb_node_id m) = Some m"
  using assms all_members_held[of m order ml] all_members_listed[of order ml "mb_node_id m" m]
  by (auto simp: table_wf_def)

text \<open>
  C39: in every run, each service's table is keyed by the identifiers of its members, and the list
  it serves names exactly the members it does not hold to be dead, each once and itself among
  them.
\<close>

theorem served_members_exact:
  assumes "gossip_run gossip_net_empty es net" "bt_get (gn_nodes net) n = Some gs" "hash_order order"
  shows "distinct (map fst (gossip_members order gs)) \<and> n \<in> fst ` set (gossip_members order gs) \<and>
         (\<forall>k a. (k, a) \<in> set (gossip_members order gs) \<longleftrightarrow>
            (\<exists>m. member_get k (service_table gs) = Some m \<and> mb_node_id m = k \<and> mb_addr m = a \<and> mb_state m \<noteq> MsDead))"
proof -
  let ?ml = "service_table gs"
  have wf: "table_wf n ?ml"
    using reachable_ok[OF assms(1)] assms(2) by (simp add: net_ok_def service_ok_def)
  have "distinct (map mb_node_id (all_members order ?ml))"
    using all_members_keys[OF wf assms(3)] assms(3) wf by (simp add: hash_order_def table_wf_def)
  then have "distinct (map fst (gossip_members order gs))"
    by (simp add: gossip_members_def alive_members_def comp_def distinct_map_filter)
  moreover have ex: "\<forall>k a. (k, a) \<in> set (gossip_members order gs) \<longleftrightarrow>
      (\<exists>m. member_get k ?ml = Some m \<and> mb_node_id m = k \<and> mb_addr m = a \<and> mb_state m \<noteq> MsDead)"
    by (auto simp: gossip_members_def alive_members_def all_members_iff[OF wf assms(3)] member_get_def)
  moreover have "n \<in> fst ` set (gossip_members order gs)"
  proof -
    obtain m where m: "bt_get (ml_members ?ml) n = Some m" "mb_state m = MsAlive" "mb_node_id m = n"
      using wf by (auto simp: table_wf_def)
    then have "(n, mb_addr m) \<in> set (gossip_members order gs)"
      using ex by (simp add: member_get_def)
    then show ?thesis by force
  qed
  ultimately show ?thesis by blast
qed

theorem served_members_exact_witness:
  "1 \<in> fst ` set (gossip_members (map fst) demo_service) \<and> (3, ''c'') \<in> set (gossip_members (map fst) demo_service)"
proof -
  have up: "bt_get (gn_nodes (sample_run demo_pair gossip_net_empty)) 1 = Some demo_service"
    and m: "member_get 3 (service_table demo_service) = Some (member_new 1 3 ''c'')"
    by code_simp+
  from served_members_exact[OF sample_run up hash_order_keys] m show ?thesis by (simp add: member_new_def)
qed

subsection \<open>Joining and relaying\<close>

lemma known_apply_update:
  "bt_get (ml_members (snd (apply_update now u ml))) k \<noteq> None \<longleftrightarrow>
   bt_get (ml_members ml) k \<noteq> None \<or> mu_node_id u = k \<and> k \<noteq> ml_local_id ml"
  by (auto simp: apply_update_def handle_local_update_def next_incarnation_def Let_def
      split: MemberState.splits option.splits)

lemma known_apply_updates:
  "bt_get (ml_members (apply_updates now us ml)) k \<noteq> None \<longleftrightarrow>
   bt_get (ml_members ml) k \<noteq> None \<or> k \<noteq> ml_local_id ml \<and> k \<in> mu_node_id ` set us"
proof (induction us arbitrary: ml)
  case (Cons u us)
  show ?case
    unfolding apply_updates.simps Cons.IH known_apply_update apply_update_local_id by auto
qed simp

lemma recent_updates_all:
  assumes "table_wf n ml" "hash_order order" "length (ml_members ml) \<le> c"
  shows "mu_node_id ` set (recent_updates order c ml) = fst ` set (ml_members ml)"
proof -
  have ord: "distinct (order (ml_members ml))" "set (order (ml_members ml)) = fst ` set (ml_members ml)"
    using assms by (simp_all add: hash_order_def table_wf_def)
  have "length (all_members order ml) = length (order (ml_members ml))"
    using arg_cong[OF all_members_keys[OF assms(1,2)], of length] by simp
  also have "\<dots> = card (fst ` set (ml_members ml))"
    using ord by (metis distinct_card)
  also have "\<dots> \<le> length (ml_members ml)"
    by (metis card_length length_map list.set_map)
  finally have len: "length (all_members order ml) \<le> c" using assms(3) by simp
  have "mu_node_id ` set (recent_updates order c ml) = mb_node_id ` set (all_members order ml)"
    using len by (simp add: recent_updates_def image_image to_update_def)
  also have "\<dots> = fst ` set (ml_members ml)"
    using all_members_keys[OF assms(1,2)] ord(2) by (metis list.set_map)
  finally show ?thesis .
qed

text \<open>
  C40: when a node joins through a seed whose table has at most ten members once the joining node is
  in it, the seed answers to the joining node's address and knows it, and once the joining node has
  handled the answer it knows every member the seed knows.
\<close>

theorem join_learns_members:
  assumes "table_wf s (sw_members seed)" "table_wf n (sw_members joiner)" "hash_order order"
    and "handle_message order now saddr (GmJoin n addr) seed = (seed', [(ack, reply_to)])"
    and "length (ml_members (sw_members seed')) \<le> MAX_PIGGYBACK_UPDATES"
    and "handle_message order' now' addr ack joiner = (joiner', out)"
  shows "reply_to = addr \<and> member_get n (sw_members seed') \<noteq> None \<and>
         (\<forall>k. member_get k (sw_members seed') \<noteq> None \<longrightarrow> member_get k (sw_members joiner') \<noteq> None)"
proof -
  let ?u = "\<lparr>mu_node_id = n, mu_addr = addr, mu_state = MsAlive, mu_incarnation = 0\<rparr>"
  let ?ml = "snd (apply_update now ?u (sw_members seed))"
  have seed': "sw_members seed' = ?ml" and reply_to: "reply_to = addr"
    and ack: "ack = GmAck (ml_local_id ?ml) saddr 0 (recent_updates order MAX_PIGGYBACK_UPDATES ?ml)"
    using assms(4) by (auto simp: Let_def)
  have wf: "table_wf s ?ml" using apply_update_wf[OF assms(1)] .
  have knows: "member_get n (sw_members seed') \<noteq> None"
    unfolding seed' member_get_def known_apply_update using assms(1) by (auto simp: table_wf_def)
  have joiner': "sw_members joiner' =
      apply_updates now' (recent_updates order MAX_PIGGYBACK_UPDATES ?ml) (sw_members joiner)"
    using assms(6) by (auto simp: ack Let_def)
  have "member_get k (sw_members joiner') \<noteq> None" if "member_get k (sw_members seed') \<noteq> None" for k
  proof -
    have "k \<in> fst ` set (ml_members ?ml)"
      using that by (auto simp: seed' member_get_def map_of_eq_None_iff)
    then have "k \<in> mu_node_id ` set (recent_updates order MAX_PIGGYBACK_UPDATES ?ml)"
      using recent_updates_all[OF wf assms(3)] assms(5) seed' by simp
    then show ?thesis
      unfolding joiner' member_get_def known_apply_updates
      using assms(2) by (cases "k = n") (auto simp: table_wf_def)
  qed
  with reply_to knows show ?thesis by blast
qed

definition demo_seed :: SwimProtocol where
  "demo_seed = swim_new (member_list_new 0 1 ''a'') demo_config"

definition demo_joiner :: SwimProtocol where
  "demo_joiner = swim_new (member_list_new 0 2 ''b'') demo_config"

lemma demo_tables: "table_wf 1 (sw_members demo_seed)" "table_wf 2 (sw_members demo_joiner)"
  by (simp_all add: demo_seed_def demo_joiner_def swim_new_def member_list_new_def member_new_def table_wf_def)

theorem join_learns_members_witness:
  "member_get 1 (sw_members (fst (handle_message (map fst) 2 ''b''
      (fst (hd (snd (handle_message (map fst) 1 ''a'' (GmJoin 2 ''b'') demo_seed)))) demo_joiner))) \<noteq> None"
proof -
  obtain seed' ack where j:
    "handle_message (map fst) 1 ''a'' (GmJoin 2 ''b'') demo_seed = (seed', [(ack, ''b'')])"
    by (simp add: Let_def)
  have len: "length (ml_members (sw_members
      (fst (handle_message (map fst) 1 ''a'' (GmJoin 2 ''b'') demo_seed)))) \<le> MAX_PIGGYBACK_UPDATES"
    and one: "member_get 1 (sw_members
      (fst (handle_message (map fst) 1 ''a'' (GmJoin 2 ''b'') demo_seed))) = Some (member_new 0 1 ''a'')"
    by code_simp+
  obtain joiner' out where h: "handle_message (map fst) 2 ''b'' ack demo_joiner = (joiner', out)"
    by fastforce
  have "member_get 1 (sw_members joiner') \<noteq> None"
    using join_learns_members[OF demo_tables hash_order_keys j _ h] len one unfolding j fst_conv by blast
  then show ?thesis unfolding j snd_conv list.sel fst_conv h .
qed

text \<open>
  the acknowledgement of a ping that a relay forwards goes to the relay, which passes it to
  nobody; if the relay has a probe of its own pending under the same number, that probe counts as
  answered.
\<close>

theorem indirect_ack_stops_at_relay:
  assumes "handle_message order1 t1 raddr (GmPingReq origin oaddr target taddr seq us) relay = (relay1, out1)"
    and "(ping, a1) \<in> set out1" "handle_message order2 t2 taddr ping probed = (probed', out2)"
    and "(ack, a2) \<in> set out2" "handle_message order3 t3 raddr ack relay2 = (relay3, out3)"
  shows "a1 = taddr \<and> a2 = raddr \<and> out3 = [] \<and> bt_get (sw_pending relay3) seq = None"
  using assms by (auto simp: Let_def)

theorem indirect_ack_stops_at_relay_witness:
  "snd (hd (snd (handle_message (map fst) 2 ''b''
      (fst (hd (snd (handle_message (map fst) 1 ''a'' (GmPingReq 3 ''c'' 2 ''b'' 7 []) demo_seed)))) demo_joiner)))
   = ''a''"
proof -
  obtain relay1 ping a1 where p:
    "handle_message (map fst) 1 ''a'' (GmPingReq 3 ''c'' 2 ''b'' 7 []) demo_seed = (relay1, [(ping, a1)])"
    by (simp add: Let_def)
  then obtain u where "ping = GmPing (ml_local_id (sw_members demo_seed)) ''a'' 7 u" by (auto simp: Let_def)
  then obtain probed' ack a2 where q: "handle_message (map fst) 2 ''b'' ping demo_joiner = (probed', [(ack, a2)])"
    by (simp add: Let_def)
  obtain relay3 out3 where r: "handle_message (map fst) 3 ''a'' ack relay1 = (relay3, out3)" by fastforce
  have "a2 = ''a''" using indirect_ack_stops_at_relay[OF p _ q _ r, of a1 a2] by simp
  then show ?thesis unfolding p snd_conv list.sel fst_conv q .
qed

end
