(* ===== verification/Background.thy ===== *)
theory Background
  imports DataNode
begin

text \<open>
  The background work of a data node, \<^verbatim>\<open>blockyard-storage/src/background\<close>: the rate limiter that all
  workers share (\<^verbatim>\<open>rate_limit.rs\<close>), repair (\<^verbatim>\<open>repair.rs\<close>), scrubbing (\<^verbatim>\<open>scrub.rs\<close>), draining
  (\<^verbatim>\<open>drain.rs\<close>), rebalancing (\<^verbatim>\<open>rebalance.rs\<close>) and the scheduler that owns them
  (\<^verbatim>\<open>scheduler.rs\<close>). This theory holds the definitions, \<^verbatim>\<open>BackgroundProps\<close> what is shown of them.

  The traits through which a worker reads, writes and asks its inventory are arguments, and so are the
  clock and floating-point arithmetic. A worker that waits for tokens polls the bucket; the number of
  polls it may make is an argument, and a run that exhausts it does not return (\<^verbatim>\<open>None\<close>).
\<close>

section \<open>The rate limiter\<close>

record TokenBucket =
  tb_capacity :: u64
  tb_refill_rate :: u64
  tb_tokens :: u64
  tb_last_refill :: nat

definition bucket_new :: "nat \<Rightarrow> u64 \<Rightarrow> u64 \<Rightarrow> TokenBucket" where
  "bucket_new now capacity rate =
     \<lparr>tb_capacity = capacity, tb_refill_rate = rate, tb_tokens = capacity, tb_last_refill = now\<rparr>"

definition earned_tokens :: "nat \<Rightarrow> TokenBucket \<Rightarrow> u64" where
  "earned_tokens now tb = (of_nat ((now - tb_last_refill tb) div 1000000) * tb_refill_rate tb) div 1000"

definition refill :: "nat \<Rightarrow> TokenBucket \<Rightarrow> TokenBucket" where
  "refill now tb =
     (let new_tokens = earned_tokens now tb in
      if 0 < new_tokens
      then tb\<lparr>tb_tokens := min (tb_tokens tb + new_tokens) (tb_capacity tb), tb_last_refill := now\<rparr>
      else tb)"

text \<open>Without another thread between its load and its exchange, \<^verbatim>\<open>try_acquire\<close> never retries.\<close>

definition try_acquire :: "nat \<Rightarrow> u64 \<Rightarrow> TokenBucket \<Rightarrow> bool \<times> TokenBucket" where
  "try_acquire now want tb =
     (let tb1 = refill now tb in
      if want \<le> tb_tokens tb1 then (True, tb1\<lparr>tb_tokens := tb_tokens tb1 - want\<rparr>) else (False, tb1))"

definition available :: "nat \<Rightarrow> TokenBucket \<Rightarrow> u64 \<times> TokenBucket" where
  "available now tb = (tb_tokens (refill now tb), refill now tb)"

text \<open>
  \<^verbatim>\<open>acquire\<close> polls: \<^verbatim>\<open>clock k\<close> is the time at the k-th reading, and the number of polls it may
  make is an argument. It returns the bucket and the index of the next reading.
\<close>

fun acquire :: "nat \<Rightarrow> (nat \<Rightarrow> nat) \<Rightarrow> nat \<Rightarrow> u64 \<Rightarrow> TokenBucket \<Rightarrow> (TokenBucket \<times> nat) option" where
  "acquire 0 clock k want tb = None"
| "acquire (Suc polls) clock k want tb =
     (case try_acquire (clock k) want tb of
        (True, tb1) \<Rightarrow> Some (tb1, Suc k)
      | (False, tb1) \<Rightarrow> acquire polls clock (Suc k) want tb1)"

subsection \<open>Under contention\<close>

text \<open>
  The same code step by step, for threads that share a bucket. \<^verbatim>\<open>Refilling\<close> holds the lock of
  \<^verbatim>\<open>last_refill\<close> between its load and its store of the counter; the exchange of an acquisition
  does not take that lock.
\<close>

datatype BucketThread =
    WantTokens u64
  | Refilling u64 nat u64
  | Refilled u64
  | LoadedTokens u64 u64 bool
  | AcquireDone u64 bool

definition load_tokens :: "TokenBucket \<Rightarrow> u64 \<Rightarrow> bool \<Rightarrow> BucketThread" where
  "load_tokens tb want retried =
     (if want \<le> tb_tokens tb then LoadedTokens want (tb_tokens tb) retried else AcquireDone want False)"

fun holds_refill_lock :: "BucketThread \<Rightarrow> bool" where
  "holds_refill_lock (Refilling _ _ _) = True"
| "holds_refill_lock _ = False"

inductive bucket_step :: "TokenBucket \<times> BucketThread list \<Rightarrow> TokenBucket \<times> BucketThread list \<Rightarrow> bool" where
  refill_skip:
    "i < length ts \<Longrightarrow> ts ! i = WantTokens c \<Longrightarrow> \<not> list_ex holds_refill_lock ts \<Longrightarrow> earned_tokens now tb = 0 \<Longrightarrow>
     bucket_step (tb, ts) (tb, ts[i := Refilled c])"
| refill_load:
    "i < length ts \<Longrightarrow> ts ! i = WantTokens c \<Longrightarrow> \<not> list_ex holds_refill_lock ts \<Longrightarrow> 0 < earned_tokens now tb \<Longrightarrow>
     bucket_step (tb, ts) (tb, ts[i := Refilling c now (tb_tokens tb)])"
| refill_store:
    "i < length ts \<Longrightarrow> ts ! i = Refilling c now current \<Longrightarrow>
     bucket_step (tb, ts)
       (tb\<lparr>tb_tokens := min (current + earned_tokens now tb) (tb_capacity tb), tb_last_refill := now\<rparr>,
        ts[i := Refilled c])"
| load:
    "i < length ts \<Longrightarrow> ts ! i = Refilled c \<Longrightarrow>
     bucket_step (tb, ts) (tb, ts[i := load_tokens tb c False])"
| exchange:
    "i < length ts \<Longrightarrow> ts ! i = LoadedTokens c current retried \<Longrightarrow> tb_tokens tb = current \<Longrightarrow>
     bucket_step (tb, ts) (tb\<lparr>tb_tokens := current - c\<rparr>, ts[i := AcquireDone c True])"
| contended:
    "i < length ts \<Longrightarrow> ts ! i = LoadedTokens c current retried \<Longrightarrow> tb_tokens tb \<noteq> current \<Longrightarrow>
     bucket_step (tb, ts)
       (tb, ts[i := (if retried then AcquireDone c False else load_tokens tb c True)])"

section \<open>Repair\<close>

record RepairConfig =
  rc_max_concurrent :: nat
  rc_tokens_per_repair :: u64

definition repair_config_default :: RepairConfig where
  "repair_config_default = \<lparr>rc_max_concurrent = 4, rc_tokens_per_repair = 10\<rparr>"

datatype RepairType =
    ReplicationRepair (healthy_sources: "DiskId list")
  | ErasureCodeRepair nat nat "(nat \<times> DiskId) list" nat

record RepairRequest =
  rp_extent_id :: ExtentId
  rp_version :: u64
  rp_target_disk_id :: DiskId
  rp_repair_type :: RepairType
  rp_priority :: u32

record RepairOutcome =
  ro_extent_id :: ExtentId
  ro_target_disk_id :: DiskId
  ro_success :: bool
  ro_error :: "string option"

record RepairWorker =
  rw_config :: RepairConfig
  rw_queue :: "RepairRequest list"
  rw_completed :: "RepairOutcome list"

text \<open>
  The reader, writer and reconstructor a worker is given are traits: arguments here, over the
  state \<^verbatim>\<open>'w\<close> of the disks.
\<close>

record 'w RepairIo =
  io_read_extent :: "DiskId \<Rightarrow> ExtentId \<Rightarrow> u64 \<Rightarrow> 'w \<Rightarrow> (bytes, string) result"
  io_read_fragment :: "DiskId \<Rightarrow> ExtentId \<Rightarrow> nat \<Rightarrow> 'w \<Rightarrow> (bytes, string) result"
  io_write_extent :: "DiskId \<Rightarrow> ExtentId \<Rightarrow> u64 \<Rightarrow> bytes \<Rightarrow> 'w \<Rightarrow> (unit, string) result \<times> 'w"
  io_reconstruct :: "nat \<Rightarrow> nat \<Rightarrow> bytes option list \<Rightarrow> nat \<Rightarrow> (bytes, string) result"

definition repair_worker_new :: "RepairConfig \<Rightarrow> RepairWorker" where
  "repair_worker_new cfg = \<lparr>rw_config = cfg, rw_queue = [], rw_completed = []\<rparr>"

fun insert_request :: "RepairRequest \<Rightarrow> RepairRequest list \<Rightarrow> RepairRequest list" where
  "insert_request r [] = [r]"
| "insert_request r (q # qs) = (if rp_priority r < rp_priority q then r # q # qs else q # insert_request r qs)"

definition enqueue :: "RepairRequest \<Rightarrow> RepairWorker \<Rightarrow> RepairWorker" where
  "enqueue r rw = rw\<lparr>rw_queue := insert_request r (rw_queue rw)\<rparr>"

definition queue_len :: "RepairWorker \<Rightarrow> nat" where
  "queue_len rw = length (rw_queue rw)"

definition repair_done :: "RepairRequest \<Rightarrow> RepairOutcome" where
  "repair_done r =
     \<lparr>ro_extent_id = rp_extent_id r, ro_target_disk_id = rp_target_disk_id r, ro_success = True, ro_error = None\<rparr>"

definition repair_failed :: "RepairRequest \<Rightarrow> string \<Rightarrow> RepairOutcome" where
  "repair_failed r e =
     \<lparr>ro_extent_id = rp_extent_id r, ro_target_disk_id = rp_target_disk_id r, ro_success = False, ro_error = Some e\<rparr>"

fun repair_replication :: "'w RepairIo \<Rightarrow> RepairRequest \<Rightarrow> DiskId list \<Rightarrow> 'w \<Rightarrow> RepairOutcome \<times> 'w" where
  "repair_replication io r [] w = (repair_failed r ''all healthy sources failed'', w)"
| "repair_replication io r (source # sources) w =
     (case io_read_extent io source (rp_extent_id r) (rp_version r) w of
        Inl _ \<Rightarrow> repair_replication io r sources w
      | Inr data \<Rightarrow>
          (case io_write_extent io (rp_target_disk_id r) (rp_extent_id r) (rp_version r) data w of
             (Inr _, w') \<Rightarrow> (repair_done r, w')
           | (Inl _, w') \<Rightarrow> repair_replication io r sources w'))"

fun collect_fragments :: "'w RepairIo \<Rightarrow> ExtentId \<Rightarrow> 'w \<Rightarrow> (nat \<times> DiskId) list \<Rightarrow> bytes option list \<Rightarrow> bytes option list" where
  "collect_fragments io x w [] frags = frags"
| "collect_fragments io x w ((i, d) # rest) frags =
     (case io_read_fragment io d x i w of
        Inr data \<Rightarrow> collect_fragments io x w rest (if i < length frags then frags[i := Some data] else frags)
      | Inl _ \<Rightarrow> collect_fragments io x w rest frags)"

definition repair_ec ::
  "'w RepairIo \<Rightarrow> RepairRequest \<Rightarrow> nat \<Rightarrow> nat \<Rightarrow> (nat \<times> DiskId) list \<Rightarrow> nat \<Rightarrow> 'w \<Rightarrow> RepairOutcome \<times> 'w" where
  "repair_ec io r data_count parity_count fragments_at original_len w =
     (let total = data_count + parity_count;
          fragments = collect_fragments io (rp_extent_id r) w fragments_at (replicate total None);
          have_count = length (filter (\<lambda>f. f \<noteq> None) fragments) in
      if have_count < data_count
      then (repair_failed r (''insufficient fragments: have '' @ decimal have_count @ '', need '' @ decimal data_count), w)
      else
        (case io_reconstruct io data_count parity_count fragments original_len of
           Inl e \<Rightarrow> (repair_failed r (''EC reconstruction failed: '' @ e), w)
         | Inr data \<Rightarrow>
             (case io_write_extent io (rp_target_disk_id r) (rp_extent_id r) (rp_version r) data w of
                (Inr _, w') \<Rightarrow> (repair_done r, w')
              | (Inl e, w') \<Rightarrow> (repair_failed r (''EC repair write failed: '' @ e), w'))))"

definition run_repair :: "'w RepairIo \<Rightarrow> RepairRequest \<Rightarrow> 'w \<Rightarrow> RepairOutcome \<times> 'w" where
  "run_repair io r w =
     (case rp_repair_type r of
        ReplicationRepair sources \<Rightarrow> repair_replication io r sources w
      | ErasureCodeRepair k m fragments_at len \<Rightarrow> repair_ec io r k m fragments_at len w)"

text \<open>
  The shared budget of a worker's run: the clock, the index of its next reading and the bucket. A
  run that never gets its tokens does not return.
\<close>

record Budget =
  bg_polls :: nat
  bg_clock :: "nat \<Rightarrow> nat"
  bg_reading :: nat
  bg_bucket :: TokenBucket

definition spend :: "u64 \<Rightarrow> Budget \<Rightarrow> Budget option" where
  "spend want b =
     map_option (\<lambda>(tb, k). b\<lparr>bg_bucket := tb, bg_reading := k\<rparr>)
       (acquire (bg_polls b) (bg_clock b) (bg_reading b) want (bg_bucket b))"

definition process_next ::
  "'w RepairIo \<Rightarrow> RepairWorker \<Rightarrow> Budget \<Rightarrow> 'w \<Rightarrow> (RepairOutcome option \<times> RepairWorker \<times> Budget \<times> 'w) option" where
  "process_next io rw b w =
     (case rw_queue rw of
        [] \<Rightarrow> Some (None, rw, b, w)
      | r # rest \<Rightarrow>
          (case spend (rc_tokens_per_repair (rw_config rw)) b of
             None \<Rightarrow> None
           | Some b' \<Rightarrow>
               (let (outcome, w') = run_repair io r w in
                Some (Some outcome, rw\<lparr>rw_queue := rest, rw_completed := rw_completed rw @ [outcome]\<rparr>, b', w'))))"

function process_all ::
  "'w RepairIo \<Rightarrow> RepairWorker \<Rightarrow> Budget \<Rightarrow> 'w \<Rightarrow> (RepairOutcome list \<times> RepairWorker \<times> Budget \<times> 'w) option" where
  "process_all io rw b w =
     (if queue_len rw = 0 then Some ([], rw, b, w)
      else
        (case process_next io rw b w of
           Some (Some outcome, rw', b', w') \<Rightarrow>
             map_option (\<lambda>(os, rest). (outcome # os, rest)) (process_all io rw' b' w')
         | _ \<Rightarrow> None))"
  by pat_completeness auto
termination
  by (relation "measure (\<lambda>(io, rw, b, w). queue_len rw)")
     (auto simp: process_next_def queue_len_def split: list.splits option.splits prod.splits)

declare process_all.simps [simp del]

section \<open>Scrubbing\<close>

record ScrubConfig =
  sb_interval_secs :: u64
  sb_tokens_per_extent :: u64

definition scrub_config_default :: ScrubConfig where
  "scrub_config_default = \<lparr>sb_interval_secs = 86400, sb_tokens_per_extent = 1\<rparr>"

record ScrubResult =
  sr_disk_id :: DiskId
  sr_extents_checked :: u64
  sr_checksum_errors :: u64
  sr_read_errors :: u64
  sr_metadata_errors :: u64

record ScrubExtentEntry =
  se_extent_id :: ExtentId
  se_disk_id :: DiskId
  se_expected_checksum :: checksum
  se_version :: u64

datatype CorruptionReason = CrChecksumMismatch checksum checksum | CrReadError string | CrMissingMetadata

record CorruptionNotification =
  cn_disk_id :: DiskId
  cn_extent_id :: ExtentId
  cn_reason :: CorruptionReason

text \<open>The reader of a scrub, as a trait: what it lists and what reading an extent gives.\<close>

record ScrubReader =
  sd_read_extent :: "DiskId \<Rightarrow> ExtentId \<Rightarrow> u64 \<Rightarrow> (bytes \<times> checksum, string) result"
  sd_list_extents :: "DiskId \<Rightarrow> ScrubExtentEntry list"
  sd_list_disks :: "DiskId list"

definition scrub_result_new :: "DiskId \<Rightarrow> ScrubResult" where
  "scrub_result_new d =
     \<lparr>sr_disk_id = d, sr_extents_checked = 0, sr_checksum_errors = 0, sr_read_errors = 0, sr_metadata_errors = 0\<rparr>"

text \<open>What is wrong with one extent, and how the pass counts it.\<close>

definition scrub_check :: "ScrubReader \<Rightarrow> DiskId \<Rightarrow> ScrubExtentEntry \<Rightarrow> CorruptionReason option" where
  "scrub_check reader d e =
     (case sd_read_extent reader d (se_extent_id e) (se_version e) of
        Inr (_, computed) \<Rightarrow>
          if computed \<noteq> se_expected_checksum e
          then Some (CrChecksumMismatch (se_expected_checksum e) computed) else None
      | Inl err \<Rightarrow> if text_contains err ''metadata'' then Some CrMissingMetadata else Some (CrReadError err))"

fun scrub_count :: "CorruptionReason option \<Rightarrow> ScrubResult \<Rightarrow> ScrubResult" where
  "scrub_count None r = r"
| "scrub_count (Some (CrChecksumMismatch _ _)) r = r\<lparr>sr_checksum_errors := sr_checksum_errors r + 1\<rparr>"
| "scrub_count (Some (CrReadError _)) r = r\<lparr>sr_read_errors := sr_read_errors r + 1\<rparr>"
| "scrub_count (Some CrMissingMetadata) r = r\<lparr>sr_metadata_errors := sr_metadata_errors r + 1\<rparr>"

text \<open>\<^verbatim>\<open>channel\<close> is what the receiver of the notifications has got: None once it is closed.\<close>

fun scrub_extents ::
  "ScrubReader \<Rightarrow> u64 \<Rightarrow> DiskId \<Rightarrow> ScrubExtentEntry list \<Rightarrow> ScrubResult \<Rightarrow> Budget \<Rightarrow> CorruptionNotification list option \<Rightarrow>
   (ScrubResult \<times> Budget \<times> CorruptionNotification list option) option" where
  "scrub_extents reader cost d [] r b channel = Some (r, b, channel)"
| "scrub_extents reader cost d (e # es) r b channel =
     (case spend cost b of
        None \<Rightarrow> None
      | Some b' \<Rightarrow>
          (let found = scrub_check reader d e;
               r' = scrub_count found (r\<lparr>sr_extents_checked := sr_extents_checked r + 1\<rparr>);
               channel' = (case found of
                   None \<Rightarrow> channel
                 | Some reason \<Rightarrow>
                     map_option (\<lambda>ns. ns @ [\<lparr>cn_disk_id = d, cn_extent_id = se_extent_id e, cn_reason = reason\<rparr>]) channel) in
           scrub_extents reader cost d es r' b' channel'))"

definition scrub_disk ::
  "ScrubReader \<Rightarrow> ScrubConfig \<Rightarrow> DiskId \<Rightarrow> Budget \<Rightarrow> CorruptionNotification list option \<Rightarrow>
   (ScrubResult \<times> Budget \<times> CorruptionNotification list option) option" where
  "scrub_disk reader cfg d b channel =
     scrub_extents reader (sb_tokens_per_extent cfg) d (sd_list_extents reader d) (scrub_result_new d) b channel"

record ScrubWorker =
  sk_config :: ScrubConfig
  sk_results :: "ScrubResult list"

fun scrub_disks ::
  "ScrubReader \<Rightarrow> ScrubConfig \<Rightarrow> DiskId list \<Rightarrow> Budget \<Rightarrow> CorruptionNotification list option \<Rightarrow>
   (ScrubResult list \<times> Budget \<times> CorruptionNotification list option) option" where
  "scrub_disks reader cfg [] b channel = Some ([], b, channel)"
| "scrub_disks reader cfg (d # ds) b channel =
     (case scrub_disk reader cfg d b channel of
        None \<Rightarrow> None
      | Some (r, b', channel') \<Rightarrow>
          map_option (\<lambda>(rs, rest). (r # rs, rest)) (scrub_disks reader cfg ds b' channel'))"

definition scrub_pass ::
  "ScrubReader \<Rightarrow> ScrubWorker \<Rightarrow> Budget \<Rightarrow> CorruptionNotification list option \<Rightarrow>
   (ScrubResult list \<times> ScrubWorker \<times> Budget \<times> CorruptionNotification list option) option" where
  "scrub_pass reader sk b channel =
     map_option (\<lambda>(rs, rest). (rs, sk\<lparr>sk_results := rs\<rparr>, rest))
       (scrub_disks reader (sk_config sk) (sd_list_disks reader) b channel)"

section \<open>Draining\<close>

record DrainConfig =
  dc_tokens_per_relocate :: u64
  dc_inter_relocate_delay_ms :: u64

definition drain_config_default :: DrainConfig where
  "drain_config_default = \<lparr>dc_tokens_per_relocate = 5, dc_inter_relocate_delay_ms = 100\<rparr>"

record DrainExtentEntry =
  de_extent_id :: ExtentId
  de_version :: u64
  de_healthy_sources :: "DiskId list"

record DrainProgress =
  dp_disk_id :: DiskId
  dp_total_extents :: u64
  dp_relocated :: u64
  dp_failed :: u64
  dp_complete :: bool

text \<open>
  The inventory of a drain, as a trait: the extents it lists, and for each round of the loop
  whether the disk is still draining and the target it selects.
\<close>

record DrainInventory =
  di_list_extents :: "DiskId \<Rightarrow> DrainExtentEntry list"
  di_is_draining :: "nat \<Rightarrow> DiskId \<Rightarrow> bool"
  di_select_target :: "nat \<Rightarrow> DiskId \<Rightarrow> (DiskId, string) result"

definition drain_request :: "DrainExtentEntry \<Rightarrow> DiskId \<Rightarrow> RepairRequest" where
  "drain_request e target =
     \<lparr>rp_extent_id = de_extent_id e, rp_version = de_version e, rp_target_disk_id = target,
      rp_repair_type = ReplicationRepair (de_healthy_sources e), rp_priority = 100\<rparr>"

fun drain_loop ::
  "DrainInventory \<Rightarrow> u64 \<Rightarrow> DiskId \<Rightarrow> nat \<Rightarrow> DrainExtentEntry list \<Rightarrow> DrainProgress \<Rightarrow> RepairWorker \<Rightarrow> Budget \<Rightarrow>
   (DrainProgress \<times> RepairWorker \<times> Budget) option" where
  "drain_loop inventory cost d k [] p rw b = Some (p, rw, b)"
| "drain_loop inventory cost d k (e # es) p rw b =
     (if \<not> di_is_draining inventory k d then Some (p, rw, b)
      else
        (case spend cost b of
           None \<Rightarrow> None
         | Some b' \<Rightarrow>
             (case di_select_target inventory k d of
                Inl _ \<Rightarrow> drain_loop inventory cost d (Suc k) es (p\<lparr>dp_failed := dp_failed p + 1\<rparr>) rw b'
              | Inr target \<Rightarrow>
                  drain_loop inventory cost d (Suc k) es (p\<lparr>dp_relocated := dp_relocated p + 1\<rparr>)
                    (enqueue (drain_request e target) rw) b')))"

record DrainWorker =
  dw_config :: DrainConfig
  dw_progress :: "DrainProgress option"

text \<open>
  The transition to removed is the inventory's: its result is an argument, and the first
  component of the value tells whether it was asked for.
\<close>

definition drain_disk ::
  "DrainInventory \<Rightarrow> (unit, string) result \<Rightarrow> DiskId \<Rightarrow> DrainWorker \<Rightarrow> RepairWorker \<Rightarrow> Budget \<Rightarrow>
   (bool \<times> DrainProgress \<times> DrainWorker \<times> RepairWorker \<times> Budget) option" where
  "drain_disk inventory removed d dw rw b =
     (let extents = di_list_extents inventory d;
          total = of_nat (length extents);
          p0 = \<lparr>dp_disk_id = d, dp_total_extents = total, dp_relocated = 0, dp_failed = 0, dp_complete = False\<rparr> in
      case drain_loop inventory (dc_tokens_per_relocate (dw_config dw)) d 0 extents p0 rw b of
        None \<Rightarrow> None
      | Some (p, rw', b') \<Rightarrow>
          (let asked = (dp_relocated p = total \<and> dp_failed p = 0);
               p' = (if asked \<and> removed = Inr () then p\<lparr>dp_complete := True\<rparr> else p) in
           Some (asked, p', dw\<lparr>dw_progress := Some p'\<rparr>, rw', b')))"

section \<open>Rebalancing\<close>

text \<open>Floating-point arithmetic is an argument: the operations the planner uses.\<close>

record 'f F64 =
  f_of_u64 :: "u64 \<Rightarrow> 'f"
  f_zero :: 'f
  f_add :: "'f \<Rightarrow> 'f \<Rightarrow> 'f"
  f_sub :: "'f \<Rightarrow> 'f \<Rightarrow> 'f"
  f_div :: "'f \<Rightarrow> 'f \<Rightarrow> 'f"
  f_half :: "'f \<Rightarrow> 'f"
  f_neg :: "'f \<Rightarrow> 'f"
  f_abs :: "'f \<Rightarrow> 'f"
  f_max :: "'f \<Rightarrow> 'f \<Rightarrow> 'f"
  f_lt :: "'f \<Rightarrow> 'f \<Rightarrow> bool"
  f_eq :: "'f \<Rightarrow> 'f \<Rightarrow> bool"

record 'f RebalanceConfig =
  bc_imbalance_threshold :: 'f
  bc_max_moves_per_pass :: nat
  bc_tokens_per_move :: u64
  bc_check_interval_secs :: u64

record DiskUtilization =
  du_disk_id :: DiskId
  du_used_bytes :: u64
  du_total_bytes :: u64
  du_extent_count :: u64

record RebalanceMove =
  bm_extent_id :: ExtentId
  bm_version :: u64
  bm_source_disk :: DiskId
  bm_target_disk :: DiskId

record 'f RebalancePlan =
  bp_moves :: "RebalanceMove list"
  bp_needed :: bool
  bp_max_imbalance :: 'f

record RebalanceInventory =
  ri_utilizations :: "DiskUtilization list"
  ri_moveable_extents :: "DiskId \<Rightarrow> (ExtentId \<times> u64) list"
  ri_healthy_sources :: "ExtentId \<Rightarrow> DiskId list"

definition utilization :: "'f F64 \<Rightarrow> DiskUtilization \<Rightarrow> 'f" where
  "utilization f d =
     (if du_total_bytes d = 0 then f_zero f
      else f_div f (f_of_u64 f (du_used_bytes d)) (f_of_u64 f (du_total_bytes d)))"

definition average_utilization :: "'f F64 \<Rightarrow> DiskUtilization list \<Rightarrow> 'f" where
  "average_utilization f ds =
     (let total_used = foldl (f_add f) (f_zero f) (map (\<lambda>d. f_of_u64 f (du_used_bytes d)) ds);
          total_capacity = foldl (f_add f) (f_zero f) (map (\<lambda>d. f_of_u64 f (du_total_bytes d)) ds) in
      if f_eq f total_capacity (f_zero f) then f_zero f else f_div f total_used total_capacity)"

text \<open>The stable sort by utilization, greatest first.\<close>

fun insert_by_util :: "'f F64 \<Rightarrow> DiskUtilization \<Rightarrow> DiskUtilization list \<Rightarrow> DiskUtilization list" where
  "insert_by_util f d [] = [d]"
| "insert_by_util f d (e # es) =
     (if f_lt f (utilization f d) (utilization f e) then e # insert_by_util f d es else d # e # es)"

fun sort_by_util :: "'f F64 \<Rightarrow> DiskUtilization list \<Rightarrow> DiskUtilization list" where
  "sort_by_util f [] = []"
| "sort_by_util f (d # ds) = insert_by_util f d (sort_by_util f ds)"

fun plan_extents ::
  "DiskId \<Rightarrow> DiskUtilization list \<Rightarrow> (ExtentId \<times> u64) list \<Rightarrow> nat \<Rightarrow> RebalanceMove list \<times> nat" where
  "plan_extents source targets [] remaining = ([], remaining)"
| "plan_extents source targets ((x, v) # rest) remaining =
     (if remaining = 0 then ([], 0)
      else
        (case targets of
           [] \<Rightarrow> plan_extents source targets rest remaining
         | target # _ \<Rightarrow>
             (let (ms, left) = plan_extents source targets rest (remaining - 1) in
              (\<lparr>bm_extent_id = x, bm_version = v, bm_source_disk = source, bm_target_disk = du_disk_id target\<rparr> # ms,
               left))))"

fun plan_sources ::
  "(DiskId \<Rightarrow> (ExtentId \<times> u64) list) \<Rightarrow> DiskUtilization list \<Rightarrow> DiskUtilization list \<Rightarrow> nat \<Rightarrow> RebalanceMove list" where
  "plan_sources moveable targets [] remaining = []"
| "plan_sources moveable targets (s # ss) remaining =
     (if remaining = 0 then []
      else
        (let (ms, left) = plan_extents (du_disk_id s) targets (moveable (du_disk_id s)) remaining in
         ms @ plan_sources moveable targets ss left))"

definition over_utilized :: "'f F64 \<Rightarrow> 'f \<Rightarrow> 'f \<Rightarrow> DiskUtilization \<Rightarrow> bool" where
  "over_utilized f threshold avg d = f_lt f (f_half f threshold) (f_sub f (utilization f d) avg)"

definition under_utilized :: "'f F64 \<Rightarrow> 'f \<Rightarrow> 'f \<Rightarrow> DiskUtilization \<Rightarrow> bool" where
  "under_utilized f threshold avg d =
     (\<not> over_utilized f threshold avg d \<and> f_lt f (f_sub f (utilization f d) avg) (f_half f (f_neg f threshold)))"

record 'f RebalanceWorker =
  bw_config :: "'f RebalanceConfig"
  bw_last_plan :: "'f RebalancePlan option"

definition generate_plan ::
  "'f F64 \<Rightarrow> RebalanceInventory \<Rightarrow> 'f RebalanceWorker \<Rightarrow> 'f RebalancePlan \<times> 'f RebalanceWorker" where
  "generate_plan f inventory bw =
     (let ds = ri_utilizations inventory; threshold = bc_imbalance_threshold (bw_config bw);
          plan =
            (if ds = [] then \<lparr>bp_moves = [], bp_needed = False, bp_max_imbalance = f_zero f\<rparr>
             else
               let avg = average_utilization f ds;
                   imbalance = foldl (f_max f) (f_zero f) (map (\<lambda>d. f_abs f (f_sub f (utilization f d) avg)) ds) in
               if f_lt f imbalance threshold
               then \<lparr>bp_moves = [], bp_needed = False, bp_max_imbalance = imbalance\<rparr>
               else
                 let by_util = sort_by_util f ds;
                     moves = plan_sources (ri_moveable_extents inventory)
                               (filter (under_utilized f threshold avg) by_util)
                               (filter (over_utilized f threshold avg) by_util)
                               (bc_max_moves_per_pass (bw_config bw)) in
                 \<lparr>bp_moves = moves, bp_needed = (moves \<noteq> []), bp_max_imbalance = imbalance\<rparr>) in
      (plan, bw\<lparr>bw_last_plan := Some plan\<rparr>))"

fun execute_moves ::
  "RebalanceInventory \<Rightarrow> u64 \<Rightarrow> RebalanceMove list \<Rightarrow> RepairWorker \<Rightarrow> Budget \<Rightarrow> (nat \<times> RepairWorker \<times> Budget) option" where
  "execute_moves inventory cost [] rw b = Some (0, rw, b)"
| "execute_moves inventory cost (mv # mvs) rw b =
     (case spend cost b of
        None \<Rightarrow> None
      | Some b' \<Rightarrow>
          map_option (\<lambda>(n, rest). (Suc n, rest))
            (execute_moves inventory cost mvs
               (enqueue \<lparr>rp_extent_id = bm_extent_id mv, rp_version = bm_version mv,
                         rp_target_disk_id = bm_target_disk mv,
                         rp_repair_type = ReplicationRepair (ri_healthy_sources inventory (bm_extent_id mv)),
                         rp_priority = 200\<rparr> rw) b'))"

definition execute_plan ::
  "RebalanceInventory \<Rightarrow> 'f RebalancePlan \<Rightarrow> 'f RebalanceWorker \<Rightarrow> RepairWorker \<Rightarrow> Budget \<Rightarrow>
   (nat \<times> RepairWorker \<times> Budget) option" where
  "execute_plan inventory plan bw rw b = execute_moves inventory (bc_tokens_per_move (bw_config bw)) (bp_moves plan) rw b"

definition rebalance_pass ::
  "'f F64 \<Rightarrow> RebalanceInventory \<Rightarrow> 'f RebalanceWorker \<Rightarrow> RepairWorker \<Rightarrow> Budget \<Rightarrow>
   ('f RebalancePlan \<times> 'f RebalanceWorker \<times> RepairWorker \<times> Budget) option" where
  "rebalance_pass f inventory bw rw b =
     (let (plan, bw') = generate_plan f inventory bw in
      if bp_needed plan
      then map_option (\<lambda>(_, rw', b'). (plan, bw', rw', b')) (execute_plan inventory plan bw' rw b)
      else Some (plan, bw', rw, b))"

section \<open>The scheduler\<close>

record 'f SchedulerConfig =
  sg_total_budget_tokens_per_sec :: u64
  sg_burst_capacity :: u64
  sg_scrub :: ScrubConfig
  sg_repair :: RepairConfig
  sg_rebalance :: "'f RebalanceConfig"
  sg_drain :: DrainConfig

record 'f BackgroundScheduler =
  bs_config :: "'f SchedulerConfig"
  bs_rate_limiter :: TokenBucket
  bs_scrub_worker :: ScrubWorker
  bs_repair_worker :: RepairWorker
  bs_rebalance_worker :: "'f RebalanceWorker"
  bs_drain_worker :: DrainWorker

definition scheduler_new :: "nat \<Rightarrow> 'f SchedulerConfig \<Rightarrow> 'f BackgroundScheduler" where
  "scheduler_new now cfg =
     \<lparr>bs_config = cfg,
      bs_rate_limiter = bucket_new now (sg_burst_capacity cfg) (sg_total_budget_tokens_per_sec cfg),
      bs_scrub_worker = \<lparr>sk_config = sg_scrub cfg, sk_results = []\<rparr>,
      bs_repair_worker = repair_worker_new (sg_repair cfg),
      bs_rebalance_worker = \<lparr>bw_config = sg_rebalance cfg, bw_last_plan = None\<rparr>,
      bs_drain_worker = \<lparr>dw_config = sg_drain cfg, dw_progress = None\<rparr>\<rparr>"

record SchedulerStatus =
  ss_repair_backlog :: nat
  ss_drain_active :: bool
  ss_scrub_results_count :: nat
  ss_rebalance_planned :: bool
  ss_available_tokens :: u64

definition scheduler_status :: "nat \<Rightarrow> 'f BackgroundScheduler \<Rightarrow> SchedulerStatus \<times> 'f BackgroundScheduler" where
  "scheduler_status now bs =
     (let (tokens, tb) = available now (bs_rate_limiter bs) in
      (\<lparr>ss_repair_backlog = queue_len (bs_repair_worker bs),
        ss_drain_active = (dw_progress (bs_drain_worker bs) \<noteq> None),
        ss_scrub_results_count = length (sk_results (bs_scrub_worker bs)),
        ss_rebalance_planned = (case bw_last_plan (bs_rebalance_worker bs) of None \<Rightarrow> False | Some p \<Rightarrow> bp_needed p),
        ss_available_tokens = tokens\<rparr>,
       bs\<lparr>bs_rate_limiter := tb\<rparr>))"

end
