(* ===== verification/BackgroundProps.thy ===== *)
theory BackgroundProps
  imports Background
begin

text \<open>
  What the background work guarantees: how many tokens the rate limiter grants and that a poller gets
  its tokens, in which order repairs are served and that each is, that a repaired replica holds what a
  source held (locale \<^verbatim>\<open>repair_storage\<close>, interpreted on the extent stores of a node), that a scrub
  reports exactly the corrupt extents, what a completed drain has done, and the shape of a rebalance
  plan. A race of two threads on one bucket shows that the bound on grants needs one thread at a time.
\<close>

section \<open>What the budget guarantees\<close>

lemma earned_tokens_le:
  "unat (earned_tokens now tb) * 1000000000 \<le> unat (tb_refill_rate tb) * (now - tb_last_refill tb)"
proof -
  let ?ms = "(now - tb_last_refill tb) div 1000000"
  have "unat (of_nat ?ms * tb_refill_rate tb) \<le> ?ms * unat (tb_refill_rate tb)"
    unfolding unat_word_ariths(2)
    by (rule order_trans[OF mod_less_eq_dividend])
       (simp add: unsigned_of_nat take_bit_nat_less_eq_self mult_le_mono1)
  then have "unat (earned_tokens now tb) \<le> (?ms * unat (tb_refill_rate tb)) div 1000"
    by (simp add: earned_tokens_def unat_div div_le_mono)
  then have "unat (earned_tokens now tb) * 1000 \<le> ?ms * unat (tb_refill_rate tb)"
    by (meson div_times_less_eq_dividend le_trans mult_le_mono1)
  then have "unat (earned_tokens now tb) * 1000 * 1000000 \<le> ?ms * unat (tb_refill_rate tb) * 1000000"
    by (rule mult_le_mono1)
  also have "\<dots> \<le> unat (tb_refill_rate tb) * (now - tb_last_refill tb)"
    using mult_le_mono2[OF div_times_less_eq_dividend[of "now - tb_last_refill tb" 1000000], of "unat (tb_refill_rate tb)"]
    by (simp only: mult.commute mult.left_commute)
  finally show ?thesis by simp
qed

lemma unat_plus_le: "unat (a + b) \<le> unat a + unat (b::'a::len word)"
  by (simp add: unat_word_ariths)

lemma refill_params [simp]:
  "tb_capacity (refill now tb) = tb_capacity tb" "tb_refill_rate (refill now tb) = tb_refill_rate tb"
  by (simp_all add: refill_def Let_def)

lemma try_acquire_params [simp]:
  "tb_capacity (snd (try_acquire now want tb)) = tb_capacity tb"
  "tb_refill_rate (snd (try_acquire now want tb)) = tb_refill_rate tb"
  by (simp_all add: try_acquire_def Let_def)

lemma refill_capped: "tb_tokens tb \<le> tb_capacity tb \<Longrightarrow> tb_tokens (refill now tb) \<le> tb_capacity tb"
  by (simp add: refill_def Let_def)

text \<open>Tokens held and granted are paid for by the burst and the time that has passed.\<close>

definition paid_for :: "nat \<Rightarrow> TokenBucket \<Rightarrow> nat \<Rightarrow> bool" where
  "paid_for t0 tb granted \<longleftrightarrow>
     t0 \<le> tb_last_refill tb \<and>
     (granted + unat (tb_tokens tb)) * 1000000000
       \<le> unat (tb_capacity tb) * 1000000000 + unat (tb_refill_rate tb) * (tb_last_refill tb - t0)"

lemma paid_for_refill:
  assumes "paid_for t0 tb granted"
  shows "paid_for t0 (refill now tb) granted"
proof (cases "0 < earned_tokens now tb")
  case True
  let ?new = "unat (earned_tokens now tb)" and ?rate = "unat (tb_refill_rate tb)"
  have "tb_last_refill tb < now"
  proof (rule ccontr)
    assume "\<not> tb_last_refill tb < now"
    then have "earned_tokens now tb = 0" by (simp add: earned_tokens_def)
    with True show False by simp
  qed
  then have t: "t0 \<le> now" "now - t0 = (tb_last_refill tb - t0) + (now - tb_last_refill tb)"
    using assms by (simp_all add: paid_for_def)
  have "unat (min (tb_tokens tb + earned_tokens now tb) (tb_capacity tb)) \<le> unat (tb_tokens tb) + ?new"
    using unat_plus_le[of "tb_tokens tb" "earned_tokens now tb"]
    by (simp add: min_def word_le_nat_alt)
  moreover have "(granted + (unat (tb_tokens tb) + ?new)) * 1000000000
      \<le> unat (tb_capacity tb) * 1000000000 + ?rate * (now - t0)"
  proof -
    have "(granted + (unat (tb_tokens tb) + ?new)) * 1000000000
        = (granted + unat (tb_tokens tb)) * 1000000000 + ?new * 1000000000" by simp
    also have "\<dots> \<le> (unat (tb_capacity tb) * 1000000000 + ?rate * (tb_last_refill tb - t0))
        + ?rate * (now - tb_last_refill tb)"
      using assms earned_tokens_le[of now tb] by (intro add_mono) (simp_all only: paid_for_def)
    also have "\<dots> = unat (tb_capacity tb) * 1000000000 + ?rate * (now - t0)"
      unfolding t(2) by (simp only: distrib_left add.assoc)
    finally show ?thesis .
  qed
  ultimately show ?thesis
    using True t(1) by (auto simp: paid_for_def refill_def intro: order_trans[OF mult_le_mono1])
qed (use assms in \<open>simp add: refill_def\<close>)

lemma paid_for_try_acquire:
  assumes "paid_for t0 tb granted" "try_acquire now want tb = (ok, tb')"
  shows "paid_for t0 tb' (granted + (if ok then unat want else 0))"
proof -
  have "paid_for t0 (refill now tb) granted" using assms(1) by (rule paid_for_refill)
  with assms(2) show ?thesis
    by (auto simp: try_acquire_def Let_def paid_for_def unat_sub word_le_nat_alt split: if_splits)
qed

fun grants :: "(nat \<times> u64) list \<Rightarrow> TokenBucket \<Rightarrow> nat \<times> TokenBucket" where
  "grants [] tb = (0, tb)"
| "grants ((now, want) # calls) tb =
     (let (ok, tb1) = try_acquire now want tb; (n, tb2) = grants calls tb1 in
      ((if ok then unat want else 0) + n, tb2))"

lemma grants_paid_for:
  "paid_for t0 tb granted \<Longrightarrow> grants calls tb = (n, tb') \<Longrightarrow> paid_for t0 tb' (granted + n)"
proof (induction calls arbitrary: tb granted n)
  case (Cons c calls)
  obtain now want where c: "c = (now, want)" by fastforce
  obtain ok tb1 where t: "try_acquire now want tb = (ok, tb1)" by fastforce
  obtain n1 where g: "grants calls tb1 = (n1, tb')" "n = (if ok then unat want else 0) + n1"
    using Cons.prems(2) by (auto simp: c t split: prod.splits)
  from Cons.IH[OF paid_for_try_acquire[OF Cons.prems(1) t] g(1)] show ?case
    by (simp add: g(2) add.assoc)
qed simp

lemma last_refill_try_acquire:
  "tb_last_refill (snd (try_acquire now want tb)) \<le> max (tb_last_refill tb) now"
  by (auto simp: try_acquire_def refill_def Let_def)

lemma grants_last_refill:
  "grants calls tb = (n, tb') \<Longrightarrow> \<forall>c \<in> set calls. fst c \<le> t \<Longrightarrow> tb_last_refill tb \<le> t \<Longrightarrow> tb_last_refill tb' \<le> t"
proof (induction calls arbitrary: tb n)
  case (Cons c calls)
  obtain now want where c: "c = (now, want)" by fastforce
  obtain ok tb1 where t: "try_acquire now want tb = (ok, tb1)" by fastforce
  have "tb_last_refill tb1 \<le> t"
    using last_refill_try_acquire[of now want tb] Cons.prems(2,3) by (auto simp: c t max_def split: if_splits)
  with Cons show ?case by (auto simp: c t split: prod.splits)
qed simp

lemma grants_params: "grants calls tb = (n, tb') \<Longrightarrow> tb_capacity tb' = tb_capacity tb \<and> tb_refill_rate tb' = tb_refill_rate tb"
proof (induction calls arbitrary: tb n)
  case (Cons c calls)
  obtain now want where c: "c = (now, want)" by fastforce
  obtain ok tb1 where t: "try_acquire now want tb = (ok, tb1)" by fastforce
  have "tb_capacity tb1 = tb_capacity tb" "tb_refill_rate tb1 = tb_refill_rate tb"
    using try_acquire_params[of now want tb] by (simp_all add: t)
  with Cons show ?case by (auto simp: c t split: prod.splits)
qed simp

text \<open>
  used by one thread at a time, a bucket created at some time has by any later time granted at
  most its capacity and the refill rate times the time passed, whatever was asked for and whatever
  products and sums wrap around.
\<close>

theorem rate_limit_bound:
  assumes "\<forall>c \<in> set calls. fst c \<le> t" "t0 \<le> t"
  shows "fst (grants calls (bucket_new t0 capacity rate)) * 1000000000
       \<le> unat capacity * 1000000000 + unat rate * (t - t0)"
proof -
  let ?tb = "bucket_new t0 capacity rate"
  obtain n tb' where g: "grants calls ?tb = (n, tb')" by fastforce
  have "paid_for t0 ?tb 0" by (simp add: paid_for_def bucket_new_def)
  from grants_paid_for[OF this g] have p: "paid_for t0 tb' n" by simp
  have l: "tb_last_refill tb' \<le> t"
    using grants_last_refill[OF g assms(1)] assms(2) by (simp add: bucket_new_def)
  have c: "tb_capacity tb' = capacity" "tb_refill_rate tb' = rate"
    using grants_params[OF g] by (simp_all add: bucket_new_def)
  have "n * 1000000000 \<le> unat capacity * 1000000000 + unat rate * (tb_last_refill tb' - t0)"
    using p by (simp add: paid_for_def c distrib_right)
  also have "\<dots> \<le> unat capacity * 1000000000 + unat rate * (t - t0)"
    using l by (simp add: diff_le_mono mult_le_mono2)
  finally show ?thesis by (simp add: g)
qed

theorem rate_limit_bound_witness:
  "fst (grants [(1, 3), (2, 4)] (bucket_new 0 5 1)) * 1000000000 \<le> unat (5::u64) * 1000000000 + unat (1::u64) * (2 - 0)"
  by (rule rate_limit_bound) auto

text \<open>
  Two threads that share a bucket can be granted more: a refill stores the count it loaded before
  the other thread's exchange, so the tokens that one took are there again.
\<close>

definition race_start :: "TokenBucket \<times> BucketThread list" where
  "race_start = (bucket_new 0 10 1000, [WantTokens 10, WantTokens 10])"

lemma refill_race_overspends:
  "\<exists>tb. bucket_step\<^sup>*\<^sup>* race_start (tb, [AcquireDone 10 True, AcquireDone 10 True]) \<and>
        tb_last_refill tb = 1000000"
proof -
  let ?b = "bucket_new 0 10 1000"
  have e: "earned_tokens 0 ?b = 0" "earned_tokens 1000000 ?b = 1"
    by (simp_all add: earned_tokens_def bucket_new_def)
  have "bucket_step race_start (?b, [Refilled 10, WantTokens 10])"
    using bucket_step.refill_skip[of 0 "[WantTokens 10, WantTokens 10]" 10 0 ?b] e by (simp add: race_start_def)
  moreover have "bucket_step (?b, [Refilled 10, WantTokens 10]) (?b, [Refilled 10, Refilling 10 1000000 10])"
    using bucket_step.refill_load[of 1 "[Refilled 10, WantTokens 10]" 10 1000000 ?b] e by (simp add: bucket_new_def)
  moreover have "bucket_step (?b, [Refilled 10, Refilling 10 1000000 10]) (?b, [LoadedTokens 10 10 False, Refilling 10 1000000 10])"
    using bucket_step.load[of 0 "[Refilled 10, Refilling 10 1000000 10]" 10 ?b] by (simp add: load_tokens_def bucket_new_def)
  moreover have "bucket_step (?b, [LoadedTokens 10 10 False, Refilling 10 1000000 10])
      (?b\<lparr>tb_tokens := 0\<rparr>, [AcquireDone 10 True, Refilling 10 1000000 10])"
    using bucket_step.exchange[of 0 "[LoadedTokens 10 10 False, Refilling 10 1000000 10]" 10 10 False ?b]
    by (simp add: bucket_new_def)
  moreover have "bucket_step (?b\<lparr>tb_tokens := 0\<rparr>, [AcquireDone 10 True, Refilling 10 1000000 10])
      (?b\<lparr>tb_last_refill := 1000000\<rparr>, [AcquireDone 10 True, Refilled 10])"
    using bucket_step.refill_store[of 1 "[AcquireDone 10 True, Refilling 10 1000000 10]" 10 1000000 10 "?b\<lparr>tb_tokens := 0\<rparr>"]
    by (simp add: bucket_new_def earned_tokens_def)
  moreover have "bucket_step (?b\<lparr>tb_last_refill := 1000000\<rparr>, [AcquireDone 10 True, Refilled 10])
      (?b\<lparr>tb_last_refill := 1000000\<rparr>, [AcquireDone 10 True, LoadedTokens 10 10 False])"
    using bucket_step.load[of 1 "[AcquireDone 10 True, Refilled 10]" 10 "?b\<lparr>tb_last_refill := 1000000\<rparr>"]
    by (simp add: load_tokens_def bucket_new_def)
  moreover have "bucket_step (?b\<lparr>tb_last_refill := 1000000\<rparr>, [AcquireDone 10 True, LoadedTokens 10 10 False])
      (?b\<lparr>tb_last_refill := 1000000, tb_tokens := 0\<rparr>, [AcquireDone 10 True, AcquireDone 10 True])"
    using bucket_step.exchange[of 1 "[AcquireDone 10 True, LoadedTokens 10 10 False]" 10 10 False "?b\<lparr>tb_last_refill := 1000000\<rparr>"]
    by (simp add: bucket_new_def)
  ultimately have "bucket_step\<^sup>*\<^sup>* race_start (?b\<lparr>tb_last_refill := 1000000, tb_tokens := 0\<rparr>, [AcquireDone 10 True, AcquireDone 10 True])"
    by (meson converse_rtranclp_into_rtranclp rtranclp.rtrancl_refl)
  then show ?thesis by force
qed

subsection \<open>Waiting for tokens\<close>

text \<open>The clock of a poller: a reading every ten milliseconds.\<close>

definition poll_clock :: "nat \<Rightarrow> nat \<Rightarrow> nat" where
  "poll_clock t0 k = t0 + 10000000 * k"

text \<open>
  A bucket that has been polled regularly: less than a second and one poll has passed since its
  last refill, and its numbers are small enough not to wrap.
\<close>

definition polled :: "nat \<Rightarrow> TokenBucket \<Rightarrow> bool" where
  "polled now tb \<longleftrightarrow>
     tb_last_refill tb \<le> now \<and> now \<le> tb_last_refill tb + 1010 * 1000000 \<and>
     tb_tokens tb \<le> tb_capacity tb \<and> 0 < tb_refill_rate tb \<and>
     unat (tb_refill_rate tb) < 2 ^ 32 \<and> unat (tb_capacity tb) < 2 ^ 63"

lemma elapsed_ms_le: "n \<le> m * 1000000 \<Longrightarrow> n div 1000000 \<le> m" for n m :: nat
  using div_le_mono[of n "m * 1000000" 1000000] by simp

lemma try_acquire_capped:
  assumes "tb_tokens tb \<le> tb_capacity tb"
  shows "tb_tokens (snd (try_acquire now want tb)) \<le> tb_capacity tb"
  using refill_capped[OF assms, of now]
  by (auto simp: try_acquire_def Let_def word_le_nat_alt unat_sub)

lemma polled_earned:
  assumes "polled now tb"
  shows "unat (earned_tokens now tb) = ((now - tb_last_refill tb) div 1000000 * unat (tb_refill_rate tb)) div 1000"
    and "unat (earned_tokens now tb) < 2 ^ 33"
proof -
  let ?ms = "(now - tb_last_refill tb) div 1000000"
  have ms: "?ms \<le> 1010" using assms by (intro elapsed_ms_le) (auto simp: polled_def)
  have "?ms * unat (tb_refill_rate tb) \<le> 1010 * 2 ^ 32"
    using ms assms by (intro mult_le_mono) (auto simp: polled_def)
  then have bound: "?ms * unat (tb_refill_rate tb) \<le> 4337916969 * 1000 + 960"
    by simp
  have "unat (of_nat ?ms :: u64) = ?ms"
    using ms by (simp add: unsigned_of_nat take_bit_nat_eq_self)
  then have "unat (of_nat ?ms * tb_refill_rate tb) = ?ms * unat (tb_refill_rate tb)"
    using bound by (simp add: unat_word_ariths)
  then show eq: "unat (earned_tokens now tb) = (?ms * unat (tb_refill_rate tb)) div 1000"
    by (simp add: earned_tokens_def unat_div)
  show "unat (earned_tokens now tb) < 2 ^ 33"
    unfolding eq using bound by simp
qed

lemma polled_after:
  assumes "polled now tb" "try_acquire now want tb = (ok, tb')"
  shows "polled (now + 10000000) tb'"
proof -
  have same: "tb_capacity tb' = tb_capacity tb" "tb_refill_rate tb' = tb_refill_rate tb"
      "tb_tokens tb' \<le> tb_capacity tb"
    using try_acquire_params[of now want tb] try_acquire_capped[of tb now want] assms by (simp_all add: polled_def)
  have last: "tb_last_refill tb' = (if 0 < earned_tokens now tb then now else tb_last_refill tb)"
    using assms(2) by (auto simp: try_acquire_def refill_def Let_def split: if_splits)
  have "now - tb_last_refill tb < 1000 * 1000000" if "\<not> 0 < earned_tokens now tb"
  proof -
    let ?ms = "(now - tb_last_refill tb) div 1000000"
    have "?ms * 1 \<le> ?ms * unat (tb_refill_rate tb)"
      using assms(1) by (intro mult_le_mono2) (simp add: polled_def word_less_nat_alt)
    then have "?ms \<le> ?ms * unat (tb_refill_rate tb)" by (simp only: mult_1_right)
    moreover have "?ms * unat (tb_refill_rate tb) < 1000"
      using polled_earned(1)[OF assms(1)] that by (simp add: word_gt_0)
    ultimately have "?ms < 1000" by (rule order_le_less_trans)
    then show ?thesis by (simp add: div_less_iff_less_mult)
  qed
  with assms(1) show ?thesis
    by (auto simp: polled_def same last)
qed

text \<open>How far a poller is from its tokens; every poll that fails brings it closer.\<close>

definition distance :: "u64 \<Rightarrow> nat \<Rightarrow> TokenBucket \<Rightarrow> nat" where
  "distance want now tb = (unat want - unat (tb_tokens tb)) * 1011 + (1010 - (now - tb_last_refill tb) div 1000000)"

lemma failed_poll_closer:
  assumes "polled now tb" "want \<le> tb_capacity tb" "try_acquire now want tb = (False, tb')"
  shows "distance want (now + 10000000) tb' < distance want now tb"
proof (cases "0 < earned_tokens now tb")
  case True
  have lt: "tb_tokens tb' < want" using assms(3) by (auto simp: try_acquire_def Let_def split: if_splits)
  have tb': "tb_tokens tb' = min (tb_tokens tb + earned_tokens now tb) (tb_capacity tb)" "tb_last_refill tb' = now"
    using True assms(3) by (auto simp: try_acquire_def refill_def Let_def split: if_splits)
  have "unat (tb_tokens tb) + unat (earned_tokens now tb) < 2 ^ 64"
    using polled_earned(2)[OF assms(1)] assms(1) by (simp add: polled_def word_le_nat_alt)
  then have "unat (tb_tokens tb + earned_tokens now tb) = unat (tb_tokens tb) + unat (earned_tokens now tb)"
    by (simp add: unat_word_ariths)
  moreover have "tb_tokens tb' = tb_tokens tb + earned_tokens now tb"
    using lt assms(2) unfolding tb'(1) min_def by (simp split: if_splits)
  ultimately have "unat (tb_tokens tb) < unat (tb_tokens tb')" "unat (tb_tokens tb') < unat want"
    using True lt by (simp_all add: word_less_nat_alt)
  then have "(unat want - unat (tb_tokens tb')) * 1011 + 1011 \<le> (unat want - unat (tb_tokens tb)) * 1011"
    by simp
  then show ?thesis by (simp add: distance_def tb'(2))
next
  case False
  then have tb': "tb' = tb"
    using assms(3) by (auto simp: try_acquire_def refill_def Let_def split: if_splits)
  have "polled (now + 10000000) tb" using polled_after[OF assms(1,3)] by (simp add: tb')
  then have "(now + 10000000 - tb_last_refill tb) div 1000000 \<le> 1010"
    by (intro elapsed_ms_le) (auto simp: polled_def)
  moreover have "(now + 10000000 - tb_last_refill tb) div 1000000 = (now - tb_last_refill tb) div 1000000 + 10"
  proof -
    have "now + 10000000 - tb_last_refill tb = (now - tb_last_refill tb) + 10 * 1000000"
      using assms(1) by (auto simp: polled_def)
    then show ?thesis by (simp only: div_mult_self1 zero_neq_numeral[symmetric] not_False_eq_True add.commute)
  qed
  ultimately show ?thesis unfolding distance_def tb' by linarith
qed

lemma acquire_within:
  "polled (poll_clock t0 k) tb \<Longrightarrow> want \<le> tb_capacity tb \<Longrightarrow> distance want (poll_clock t0 k) tb < polls \<Longrightarrow>
   \<exists>tb' k'. acquire polls (poll_clock t0) k want tb = Some (tb', k') \<and> polled (poll_clock t0 k') tb' \<and>
            tb_capacity tb' = tb_capacity tb"
proof (induction polls arbitrary: k tb)
  case (Suc polls)
  obtain ok tb1 where t: "try_acquire (poll_clock t0 k) want tb = (ok, tb1)" by fastforce
  have next_clock: "poll_clock t0 (Suc k) = poll_clock t0 k + 10000000" by (simp add: poll_clock_def)
  have p: "polled (poll_clock t0 (Suc k)) tb1"
    unfolding next_clock using polled_after[OF Suc.prems(1) t] .
  have cap: "tb_capacity tb1 = tb_capacity tb" using try_acquire_params(1)[of "poll_clock t0 k" want tb] by (simp add: t)
  show ?case
  proof (cases ok)
    case True
    with p cap show ?thesis by (simp add: t)
  next
    case False
    have "distance want (poll_clock t0 (Suc k)) tb1 < polls"
      unfolding next_clock using failed_poll_closer[OF Suc.prems(1,2)] t False Suc.prems(3) by fastforce
    with Suc.IH[OF p] Suc.prems(2) cap False show ?thesis by (simp add: t)
  qed
qed simp

definition enough_polls :: "u64 \<Rightarrow> nat" where
  "enough_polls want = unat want * 1011 + 1011"

lemma distance_enough: "distance want now tb < enough_polls want"
proof -
  have "(unat want - unat (tb_tokens tb)) * 1011 \<le> unat want * 1011" by simp
  then show ?thesis by (simp add: distance_def enough_polls_def)
qed

lemma acquire_returns:
  "polled (poll_clock t0 k) tb \<Longrightarrow> want \<le> tb_capacity tb \<Longrightarrow> enough_polls want \<le> polls \<Longrightarrow>
   \<exists>tb' k'. acquire polls (poll_clock t0) k want tb = Some (tb', k') \<and> polled (poll_clock t0 k') tb' \<and>
            tb_capacity tb' = tb_capacity tb"
  using acquire_within[of t0 k tb want polls] order_less_le_trans[OF distance_enough[of want "poll_clock t0 k" tb]] by blast

text \<open>Asking for more than the capacity never succeeds.\<close>

lemma acquire_beyond_capacity:
  "tb_tokens tb \<le> tb_capacity tb \<Longrightarrow> tb_capacity tb < want \<Longrightarrow> acquire polls clock k want tb = None"
proof (induction polls arbitrary: k tb)
  case (Suc polls)
  have le: "tb_tokens (refill (clock k) tb) \<le> tb_capacity tb" using Suc.prems(1) by (rule refill_capped)
  then have "\<not> want \<le> tb_tokens (refill (clock k) tb)" using Suc.prems(2) by simp
  then have "try_acquire (clock k) want tb = (False, refill (clock k) tb)" by (simp add: try_acquire_def Let_def)
  with Suc.IH[of "refill (clock k) tb"] le Suc.prems(2) show ?case by simp
qed simp

section \<open>The repair queue\<close>

lemma mset_insert_request: "mset (insert_request r qs) = add_mset r (mset qs)"
  by (induction qs) auto

lemma sorted_insert_request:
  "sorted (map rp_priority qs) \<Longrightarrow> sorted (map rp_priority (insert_request r qs))"
proof (induction qs)
  case (Cons q qs)
  have "set (insert_request r qs) = insert r (set qs)"
    using arg_cong[OF mset_insert_request[of r qs], of set_mset] by simp
  with Cons show ?case by auto
qed simp

lemma filter_insert_request:
  "sorted (map rp_priority qs) \<Longrightarrow>
   filter (\<lambda>x. p = rp_priority x) (insert_request r qs) = filter (\<lambda>x. p = rp_priority x) qs @ (if p = rp_priority r then [r] else [])"
proof (induction qs)
  case (Cons q qs)
  show ?case
  proof (cases "rp_priority r < rp_priority q")
    case True
    then have "filter (\<lambda>x. rp_priority r = rp_priority x) (q # qs) = []"
      using Cons.prems by (auto simp: filter_empty_conv)
    with True show ?thesis by auto
  qed (use Cons in auto)
qed simp

lemma filter_priority_sort:
  "filter (\<lambda>x. p = rp_priority x) (sort_key rp_priority rs) = filter (\<lambda>x. p = rp_priority x) rs"
proof -
  have "sort_key rp_priority xs = xs" if "\<forall>x \<in> set xs. p = rp_priority x" for xs
    using that by (induction xs) (auto simp: insort_is_Cons)
  from this[of "filter (\<lambda>x. p = rp_priority x) rs"] show ?thesis by (simp add: filter_sort)
qed

text \<open>Enqueueing keeps the queue the stable sort of the arrivals by priority.\<close>

lemma insert_request_sort:
  "insert_request r (sort_key rp_priority rs) = sort_key rp_priority (rs @ [r])"
proof (rule properties_for_sort_key[symmetric])
  show "mset (insert_request r (sort_key rp_priority rs)) = mset (rs @ [r])"
    by (simp add: mset_insert_request)
  show "filter (\<lambda>x. rp_priority k = rp_priority x) (insert_request r (sort_key rp_priority rs))
      = filter (\<lambda>x. rp_priority k = rp_priority x) (rs @ [r])" for k
    by (simp add: filter_insert_request filter_priority_sort)
  show "sorted (map rp_priority (insert_request r (sort_key rp_priority rs)))"
    by (simp add: sorted_insert_request)
qed

lemma enqueue_all:
  "rw_queue (fold enqueue rs (rw\<lparr>rw_queue := sort_key rp_priority qs\<rparr>)) = sort_key rp_priority (qs @ rs) \<and>
   rw_config (fold enqueue rs (rw\<lparr>rw_queue := sort_key rp_priority qs\<rparr>)) = rw_config rw \<and>
   rw_completed (fold enqueue rs (rw\<lparr>rw_queue := sort_key rp_priority qs\<rparr>)) = rw_completed rw"
proof (induction rs arbitrary: qs)
  case (Cons r rs)
  have "enqueue r (rw\<lparr>rw_queue := sort_key rp_priority qs\<rparr>) = rw\<lparr>rw_queue := sort_key rp_priority (qs @ [r])\<rparr>"
    by (simp add: enqueue_def insert_request_sort)
  with Cons.IH[of "qs @ [r]"] show ?case by simp
qed simp

text \<open>The outcomes of the requests in turn, and the disks after them.\<close>

fun run_repairs :: "'w RepairIo \<Rightarrow> RepairRequest list \<Rightarrow> 'w \<Rightarrow> RepairOutcome list \<times> 'w" where
  "run_repairs io [] w = ([], w)"
| "run_repairs io (r # rs) w =
     (let (out, w1) = run_repair io r w; (outs, w2) = run_repairs io rs w1 in (out # outs, w2))"

definition budget_ok :: "u64 \<Rightarrow> Budget \<Rightarrow> nat \<Rightarrow> bool" where
  "budget_ok cost b t0 \<longleftrightarrow>
     bg_clock b = poll_clock t0 \<and> polled (poll_clock t0 (bg_reading b)) (bg_bucket b) \<and>
     cost \<le> tb_capacity (bg_bucket b) \<and> enough_polls cost \<le> bg_polls b"

lemma spend_returns: "budget_ok cost b t0 \<Longrightarrow> \<exists>b'. spend cost b = Some b' \<and> budget_ok cost b' t0"
  using acquire_returns[of t0 "bg_reading b" "bg_bucket b" cost "bg_polls b"]
  by (fastforce simp: budget_ok_def spend_def)

lemma process_all_run:
  "budget_ok (rc_tokens_per_repair (rw_config rw)) b t0 \<Longrightarrow>
   \<exists>b'. process_all io rw b w =
     Some (fst (run_repairs io (rw_queue rw) w),
           rw\<lparr>rw_queue := [], rw_completed := rw_completed rw @ fst (run_repairs io (rw_queue rw) w)\<rparr>,
           b', snd (run_repairs io (rw_queue rw) w))"
proof (induction "rw_queue rw" arbitrary: rw b w)
  case Nil
  then show ?case by (subst process_all.simps) (simp add: queue_len_def)
next
  case (Cons r rs)
  obtain b1 where b1: "spend (rc_tokens_per_repair (rw_config rw)) b = Some b1"
      "budget_ok (rc_tokens_per_repair (rw_config rw)) b1 t0"
    using spend_returns[OF Cons.prems] by blast
  obtain out w1 where o: "run_repair io r w = (out, w1)" by fastforce
  obtain outs w2 where os: "run_repairs io rs w1 = (outs, w2)" by fastforce
  let ?rw = "rw\<lparr>rw_queue := rs, rw_completed := rw_completed rw @ [out]\<rparr>"
  obtain b2 where b2: "process_all io ?rw b1 w1 =
      Some (outs, ?rw\<lparr>rw_queue := [], rw_completed := rw_completed ?rw @ outs\<rparr>, b2, w2)"
    using Cons.hyps(1)[of ?rw b1 w1] b1(2) by (auto simp: os)
  have "process_next io rw b w = Some (Some out, ?rw, b1, w1)"
    by (simp add: process_next_def Cons.hyps(2)[symmetric] b1(1) o)
  with b2 show ?case
    by (subst process_all.simps) (simp add: queue_len_def Cons.hyps(2)[symmetric] o os)
qed

text \<open>
  C38: a repair worker, alone on a bucket that can hold the cost of a repair, refills at a positive
  rate below 2^32 a second and is polled every ten milliseconds, serves every request: processing the
  queue returns, with one outcome per request, the requests taken by priority and within a priority in
  the order of their arrival, and leaves the queue empty.
\<close>

theorem repairs_served_by_priority:
  assumes "budget_ok (rc_tokens_per_repair cfg) b t0"
  shows "\<exists>outs b' w'.
     process_all io (fold enqueue rs (repair_worker_new cfg)) b w =
       Some (outs, \<lparr>rw_config = cfg, rw_queue = [], rw_completed = outs\<rparr>, b', w') \<and>
     run_repairs io (sort_key rp_priority rs) w = (outs, w') \<and>
     map ro_extent_id outs = map rp_extent_id (sort_key rp_priority rs)"
proof -
  let ?rw = "fold enqueue rs (repair_worker_new cfg)"
  have new: "repair_worker_new cfg = (repair_worker_new cfg)\<lparr>rw_queue := sort_key rp_priority []\<rparr>"
    by (simp add: repair_worker_new_def)
  have rw: "?rw = \<lparr>rw_config = cfg, rw_queue = sort_key rp_priority rs, rw_completed = []\<rparr>"
    using enqueue_all[where rs = rs and rw = "repair_worker_new cfg" and qs = "[]"] new
    by (simp add: repair_worker_new_def)
  have one: "ro_extent_id (fst (run_repair io r w)) = rp_extent_id r" for r w
  proof (cases "rp_repair_type r")
    case (ReplicationRepair sources)
    have "ro_extent_id (fst (repair_replication io r sources w)) = rp_extent_id r"
      by (induction sources arbitrary: w)
         (auto simp: repair_failed_def repair_done_def split: sum.split prod.split)
    then show ?thesis by (simp add: run_repair_def ReplicationRepair)
  next
    case (ErasureCodeRepair k m fs len)
    then show ?thesis
      by (auto simp: run_repair_def repair_ec_def repair_failed_def repair_done_def Let_def
          split: sum.split prod.split)
  qed
  have ids: "map ro_extent_id (fst (run_repairs io qs w)) = map rp_extent_id qs" for qs w
    by (induction qs arbitrary: w) (simp_all add: Let_def case_prod_beta one)
  obtain outs w' where o: "run_repairs io (sort_key rp_priority rs) w = (outs, w')" by fastforce
  from process_all_run[of ?rw b t0 io w] assms ids[of "sort_key rp_priority rs" w] show ?thesis
    by (auto simp: rw o)
qed

section \<open>Repairing a replica\<close>

text \<open>
  What a repair relies on: a successful write of an extent is read back from its disk, and no
  other extent changes, whether a write succeeds or fails.
\<close>

locale repair_storage =
  fixes rd :: "DiskId \<Rightarrow> ExtentId \<Rightarrow> u64 \<Rightarrow> 'w \<Rightarrow> (bytes, string) result"
    and wr :: "DiskId \<Rightarrow> ExtentId \<Rightarrow> u64 \<Rightarrow> bytes \<Rightarrow> 'w \<Rightarrow> (unit, string) result \<times> 'w"
    and good :: "'w \<Rightarrow> bool"
  assumes wr_good: "good w \<Longrightarrow> wr d x v data w = (r, w') \<Longrightarrow> good w'"
    and rd_wr: "good w \<Longrightarrow> wr d x v data w = (Inr (), w') \<Longrightarrow> rd d x v w' = Inr data"
    and rd_wr_other: "good w \<Longrightarrow> wr d x v data w = (r, w') \<Longrightarrow> (d', x', v') \<noteq> (d, x, v) \<Longrightarrow> rd d' x' v' w' = rd d' x' v' w"
begin

lemma replica_restored:
  assumes "io_read_extent io = rd" "io_write_extent io = wr" "good w"
    and "rp_target_disk_id r \<notin> set sources" "repair_replication io r sources w = (out, w')"
  shows "good w' \<and>
    (\<forall>d x v. (d, x, v) \<noteq> (rp_target_disk_id r, rp_extent_id r, rp_version r) \<longrightarrow> rd d x v w' = rd d x v w) \<and>
    (ro_success out \<longrightarrow> (\<exists>source \<in> set sources. \<exists>data.
       rd source (rp_extent_id r) (rp_version r) w = Inr data \<and>
       rd (rp_target_disk_id r) (rp_extent_id r) (rp_version r) w' = Inr data))"
  using assms(3-5)
proof (induction sources arbitrary: w)
  case Nil
  then show ?case by (auto simp: repair_failed_def)
next
  case (Cons source sources)
  let ?d = "rp_target_disk_id r" and ?x = "rp_extent_id r" and ?v = "rp_version r"
  show ?case
  proof (cases "rd source ?x ?v w")
    case (Inl e)
    with Cons show ?thesis by (auto simp: assms(1))
  next
    case (Inr data)
    obtain res w1 where w1: "wr ?d ?x ?v data w = (res, w1)" by fastforce
    note facts = wr_good[OF Cons.prems(1) w1] rd_wr_other[OF Cons.prems(1) w1]
    show ?thesis
    proof (cases res)
      case (Inl e)
      have rest: "repair_replication io r sources w1 = (out, w')"
        using Cons.prems(3) Inr w1 Inl by (simp add: assms(1,2))
      have other: "rd s ?x ?v w1 = rd s ?x ?v w" if "s \<in> set sources" for s
        using facts(2)[of s ?x ?v] that Cons.prems(2) by auto
      from Cons.IH[OF facts(1) _ rest] Cons.prems(2) facts(2) other show ?thesis by fastforce
    next
      case (Inr u)
      then have "out = repair_done r" "w' = w1"
        using Cons.prems(3) \<open>rd source ?x ?v w = Inr data\<close> w1 by (simp_all add: assms(1,2))
      moreover have "rd ?d ?x ?v w1 = Inr data"
        using rd_wr[OF Cons.prems(1)] w1 Inr by simp
      ultimately show ?thesis
        using facts \<open>rd source ?x ?v w = Inr data\<close> by (auto simp: repair_done_def)
    qed
  qed
qed

end

text \<open>The extent stores of a node's disks, read and written through the extent store's operations.\<close>

definition stores_read ::
  "(bytes \<Rightarrow> checksum) \<Rightarrow> DiskId \<Rightarrow> ExtentId \<Rightarrow> u64 \<Rightarrow> (DiskId, ExtentStore) btree \<Rightarrow> (bytes, string) result" where
  "stores_read hash d x v stores =
     (case bt_get stores d of
        None \<Rightarrow> Inl ''no such disk''
      | Some st \<Rightarrow>
          (case store_get hash st (x, v) of Some data \<Rightarrow> Inr data | None \<Rightarrow> Inl ''unreadable''))"

definition stores_write ::
  "(bytes \<Rightarrow> checksum) \<Rightarrow> u64 \<Rightarrow> DiskId \<Rightarrow> ExtentId \<Rightarrow> u64 \<Rightarrow> bytes \<Rightarrow> (DiskId, ExtentStore) btree \<Rightarrow>
   (unit, string) result \<times> (DiskId, ExtentStore) btree" where
  "stores_write hash now d x v data stores =
     (case bt_get stores d of
        None \<Rightarrow> (Inl ''no such disk'', stores)
      | Some st \<Rightarrow> (Inr (), bt_insert d (store_put hash now DefaultClass (x, v) data st) stores))"

definition all_stores_ok :: "(bytes \<Rightarrow> checksum) \<Rightarrow> (DiskId, ExtentStore) btree \<Rightarrow> bool" where
  "all_stores_ok hash stores \<longleftrightarrow> (\<forall>d st. bt_get stores d = Some st \<longrightarrow> fs_ok hash st)"

interpretation node_stores: repair_storage "stores_read hash" "stores_write hash now" "all_stores_ok hash" for hash now
proof unfold_locales
  fix w w' :: "(DiskId, ExtentStore) btree" and d x v data r d' x' v'
  assume ok: "all_stores_ok hash w"
  show "all_stores_ok hash w'" if "stores_write hash now d x v data w = (r, w')"
    using that ok disk_store.ok_put[of hash]
    by (auto simp: stores_write_def all_stores_ok_def split: option.splits if_splits)
  show "stores_read hash d x v w' = Inr data" if "stores_write hash now d x v data w = (Inr (), w')"
    using that ok disk_store.get_put[of hash]
    by (auto simp: stores_write_def stores_read_def all_stores_ok_def split: option.splits)
  show "stores_read hash d' x' v' w' = stores_read hash d' x' v' w"
    if "stores_write hash now d x v data w = (r, w')" "(d', x', v') \<noteq> (d, x, v)"
  proof (cases "bt_get w d")
    case (Some st)
    then have w': "w' = bt_insert d (store_put hash now DefaultClass (x, v) data st) w" and st: "fs_ok hash st"
      using that(1) ok by (auto simp: stores_write_def all_stores_ok_def)
    show ?thesis
    proof (cases "d' = d")
      case True
      then have "(x', v') \<noteq> (x, v)" using that(2) by simp
      from disk_store.get_put_other[OF st this] show ?thesis
        by (simp add: stores_read_def w' True Some)
    qed (simp add: stores_read_def w')
  qed (use that in \<open>simp add: stores_write_def\<close>)
qed

definition stores_io :: "(bytes \<Rightarrow> checksum) \<Rightarrow> u64 \<Rightarrow> (DiskId, ExtentStore) btree RepairIo" where
  "stores_io hash now =
     \<lparr>io_read_extent = stores_read hash, io_read_fragment = (\<lambda>d x i w. Inl ''not a fragment''),
      io_write_extent = stores_write hash now, io_reconstruct = (\<lambda>k m fs len. Inl ''no code'')\<rparr>"

text \<open>
  when the repair of a replicated extent over a node's disks reports success, the target disk
  reads back exactly the bytes that one of the healthy sources held, and no other extent of any disk
  has changed; a failed repair changes no other extent either.
\<close>

theorem repair_restores_replica:
  assumes "all_stores_ok hash stores" "rp_repair_type r = ReplicationRepair sources" "rp_target_disk_id r \<notin> set sources"
    and "run_repair (stores_io hash now) r stores = (out, stores')"
  shows "all_stores_ok hash stores' \<and>
    (\<forall>d x v. (d, x, v) \<noteq> (rp_target_disk_id r, rp_extent_id r, rp_version r) \<longrightarrow>
       stores_read hash d x v stores' = stores_read hash d x v stores) \<and>
    (ro_success out \<longrightarrow> (\<exists>source \<in> set sources. \<exists>data.
       stores_read hash source (rp_extent_id r) (rp_version r) stores = Inr data \<and>
       stores_read hash (rp_target_disk_id r) (rp_extent_id r) (rp_version r) stores' = Inr data))"
  using assms(4) by (intro node_stores.replica_restored[OF _ _ assms(1,3)]) (simp_all add: stores_io_def run_repair_def assms(2))

subsection \<open>Witnesses\<close>

definition demo_budget :: Budget where
  "demo_budget =
     \<lparr>bg_polls = enough_polls 10, bg_clock = poll_clock 0, bg_reading = 0, bg_bucket = bucket_new 0 200 100\<rparr>"

lemma demo_budget_ok: "want \<le> 10 \<Longrightarrow> budget_ok want demo_budget 0"
  by (auto simp: budget_ok_def demo_budget_def polled_def poll_clock_def bucket_new_def enough_polls_def
      word_le_nat_alt mult_le_mono1)

definition demo_repair :: "ExtentId \<Rightarrow> u32 \<Rightarrow> RepairRequest" where
  "demo_repair x p =
     \<lparr>rp_extent_id = x, rp_version = 1, rp_target_disk_id = 2, rp_repair_type = ReplicationRepair [1], rp_priority = p\<rparr>"

theorem repairs_served_by_priority_witness:
  "\<exists>outs b' w'.
     process_all (stores_io sum_hash 0) (fold enqueue [demo_repair 7 200, demo_repair 8 100] (repair_worker_new repair_config_default))
       demo_budget [] = Some (outs, \<lparr>rw_config = repair_config_default, rw_queue = [], rw_completed = outs\<rparr>, b', w') \<and>
     map ro_extent_id outs = [8, 7]"
proof -
  have "budget_ok (rc_tokens_per_repair repair_config_default) demo_budget 0"
    by (rule demo_budget_ok) (simp add: repair_config_default_def)
  from repairs_served_by_priority[OF this, where rs = "[demo_repair 7 200, demo_repair 8 100]"
      and io = "stores_io sum_hash 0" and w = "[]"]
  show ?thesis by (auto simp: demo_repair_def)
qed

definition demo_stores :: "(DiskId, ExtentStore) btree" where
  "demo_stores = [(1, store_put sum_hash 0 DefaultClass (7, 1) [3, 4] (store_new 1)), (2, store_new 2)]"

lemma demo_stores_ok: "all_stores_ok sum_hash demo_stores"
proof -
  have new: "fs_ok sum_hash (store_new d)" for d by (simp add: fs_ok_def store_new_def)
  then have "fs_ok sum_hash (store_put sum_hash 0 DefaultClass (7, 1) [3, 4] (store_new 1))"
    by (rule disk_store.ok_put)
  with new show ?thesis by (auto simp: all_stores_ok_def demo_stores_def split: if_splits)
qed

theorem repair_restores_replica_witness:
  "stores_read sum_hash 2 7 1 (snd (run_repair (stores_io sum_hash 0) (demo_repair 7 200) demo_stores)) = Inr [3, 4]"
proof -
  obtain out stores' where r: "run_repair (stores_io sum_hash 0) (demo_repair 7 200) demo_stores = (out, stores')"
    by fastforce
  have "ro_success (fst (run_repair (stores_io sum_hash 0) (demo_repair 7 200) demo_stores))"
    and src: "stores_read sum_hash 1 7 1 demo_stores = Inr [3, 4]"
    by code_simp+
  with repair_restores_replica[OF demo_stores_ok _ _ r, where sources = "[1]"] r show ?thesis
    by (auto simp: demo_repair_def)
qed

section \<open>Scrubbing\<close>

definition scrub_notice :: "ScrubReader \<Rightarrow> DiskId \<Rightarrow> ScrubExtentEntry \<Rightarrow> CorruptionNotification option" where
  "scrub_notice reader d e =
     map_option (\<lambda>reason. \<lparr>cn_disk_id = d, cn_extent_id = se_extent_id e, cn_reason = reason\<rparr>) (scrub_check reader d e)"

definition scrub_errors :: "ScrubResult \<Rightarrow> u64" where
  "scrub_errors r = sr_checksum_errors r + sr_read_errors r + sr_metadata_errors r"

lemma scrub_count_errors:
  "scrub_errors (scrub_count found r) = scrub_errors r + (if found = None then 0 else 1)"
  "sr_extents_checked (scrub_count found r) = sr_extents_checked r" "sr_disk_id (scrub_count found r) = sr_disk_id r"
  by (cases found; cases "the found"; simp add: scrub_errors_def)+

lemma scrub_errors_checked: "scrub_errors (r\<lparr>sr_extents_checked := n\<rparr>) = scrub_errors r"
  by (simp add: scrub_errors_def)

lemma scrub_extents_run:
  "budget_ok cost b t0 \<Longrightarrow>
   \<exists>r' b'. scrub_extents reader cost d es r b (Some ns) = Some (r', b', Some (ns @ List.map_filter (scrub_notice reader d) es)) \<and>
     budget_ok cost b' t0 \<and> sr_disk_id r' = sr_disk_id r \<and>
     sr_extents_checked r' = sr_extents_checked r + of_nat (length es) \<and>
     scrub_errors r' = scrub_errors r + of_nat (length (List.map_filter (scrub_notice reader d) es))"
proof (induction es arbitrary: r b ns)
  case (Cons e es)
  obtain b1 where b1: "spend cost b = Some b1" "budget_ok cost b1 t0"
    using spend_returns[OF Cons.prems] by blast
  let ?found = "scrub_check reader d e"
  let ?r1 = "scrub_count ?found (r\<lparr>sr_extents_checked := sr_extents_checked r + 1\<rparr>)"
  let ?ns1 = "ns @ (case scrub_notice reader d e of None \<Rightarrow> [] | Some n \<Rightarrow> [n])"
  have step: "scrub_extents reader cost d (e # es) r b (Some ns) = scrub_extents reader cost d es ?r1 b1 (Some ?ns1)"
    by (auto simp: b1(1) scrub_notice_def Let_def split: option.split)
  from Cons.IH[OF b1(2), of ?r1 ?ns1] show ?case
    unfolding step
    by (cases ?found) (auto simp: scrub_count_errors scrub_errors_checked scrub_notice_def List.map_filter_simps algebra_simps)
qed (simp add: List.map_filter_simps)

text \<open>
  a scrub pass over a disk returns when its cost per extent does not exceed the budget's
  capacity. It checks every listed extent, sends exactly one notification for each extent that
  cannot be read or whose checksum differs from the recorded one, in the order of the list and with
  the reason, and counts as many errors.
\<close>

theorem scrub_reports_exactly:
  assumes "budget_ok (sb_tokens_per_extent cfg) b t0"
  shows "\<exists>r b' found.
     scrub_disk reader cfg d b (Some ns) = Some (r, b', Some (ns @ found)) \<and>
     found = List.map_filter (scrub_notice reader d) (sd_list_extents reader d) \<and>
     sr_extents_checked r = of_nat (length (sd_list_extents reader d)) \<and> scrub_errors r = of_nat (length found)"
  using scrub_extents_run[OF assms, of reader d "sd_list_extents reader d" "scrub_result_new d" ns]
  by (auto simp: scrub_disk_def scrub_result_new_def scrub_errors_def)

definition demo_scrub :: ScrubReader where
  "demo_scrub =
     \<lparr>sd_read_extent = (\<lambda>d x v. if x = 7 then Inr ([1], ''a'') else Inl ''metadata missing''),
      sd_list_extents = (\<lambda>d. map (\<lambda>x. \<lparr>se_extent_id = x, se_disk_id = d, se_expected_checksum = ''a'', se_version = 1\<rparr>) [7, 8]),
      sd_list_disks = [1]\<rparr>"

theorem scrub_reports_exactly_witness:
  "\<exists>r b'. scrub_disk demo_scrub scrub_config_default 1 demo_budget (Some []) =
      Some (r, b', Some [\<lparr>cn_disk_id = 1, cn_extent_id = 8, cn_reason = CrMissingMetadata\<rparr>]) \<and> scrub_errors r = 1"
proof -
  have "budget_ok (sb_tokens_per_extent scrub_config_default) demo_budget 0"
    by (rule demo_budget_ok) (simp add: scrub_config_default_def)
  from scrub_reports_exactly[OF this, of demo_scrub 1 "[]"] obtain r b' found where
    s: "scrub_disk demo_scrub scrub_config_default 1 demo_budget (Some []) = Some (r, b', Some found)"
      "found = List.map_filter (scrub_notice demo_scrub 1) (sd_list_extents demo_scrub 1)"
      "scrub_errors r = of_nat (length found)" by auto
  have "List.map_filter (scrub_notice demo_scrub 1) (sd_list_extents demo_scrub 1)
      = [\<lparr>cn_disk_id = 1, cn_extent_id = 8, cn_reason = CrMissingMetadata\<rparr>]"
    by code_simp
  with s show ?thesis by simp
qed

section \<open>Draining\<close>

lemma drain_loop_queue:
  "drain_loop inventory cost d k es p rw b = Some (p', rw', b') \<Longrightarrow>
   \<exists>n f. n + f \<le> length es \<and> dp_relocated p' = dp_relocated p + of_nat n \<and> dp_failed p' = dp_failed p + of_nat f \<and>
     dp_complete p' = dp_complete p \<and> rw_completed rw' = rw_completed rw \<and>
     (n = length es \<longrightarrow> (\<exists>targets. length targets = length es \<and>
        mset (rw_queue rw') = mset (rw_queue rw) + mset (map2 drain_request es targets)))"
proof (induction es arbitrary: k p rw b)
  case (Cons e es)
  show ?case
  proof (cases "di_is_draining inventory k d")
    case False
    with Cons.prems show ?thesis by (intro exI[of _ 0]) auto
  next
    case True
    then obtain b1 where b1: "spend cost b = Some b1" using Cons.prems by (auto split: option.splits)
    show ?thesis
    proof (cases "di_select_target inventory k d")
      case (Inl err)
      with True b1 Cons.prems Cons.IH[of "Suc k" "p\<lparr>dp_failed := dp_failed p + 1\<rparr>" rw b1] obtain n f where
        h: "n + f \<le> length es" "dp_relocated p' = dp_relocated p + of_nat n" "dp_failed p' = dp_failed p + 1 + of_nat f"
          "dp_complete p' = dp_complete p" "rw_completed rw' = rw_completed rw"
        by auto
      then show ?thesis by (intro exI[of _ n] exI[of _ "Suc f"]) (simp add: add.assoc)
    next
      case (Inr target)
      let ?rw = "enqueue (drain_request e target) rw"
      have q: "mset (rw_queue ?rw) = add_mset (drain_request e target) (mset (rw_queue rw))"
          "rw_completed ?rw = rw_completed rw"
        by (simp_all add: enqueue_def mset_insert_request)
      from Inr True b1 Cons.prems Cons.IH[of "Suc k" "p\<lparr>dp_relocated := dp_relocated p + 1\<rparr>" ?rw b1] obtain n f where
        h: "n + f \<le> length es" "dp_relocated p' = dp_relocated p + 1 + of_nat n" "dp_failed p' = dp_failed p + of_nat f"
          "dp_complete p' = dp_complete p" "rw_completed rw' = rw_completed rw"
          "n = length es \<longrightarrow> (\<exists>targets. length targets = length es \<and>
             mset (rw_queue rw') = mset (rw_queue ?rw) + mset (map2 drain_request es targets))"
        by (auto simp: q(2))
      have "\<exists>targets. length targets = length (e # es) \<and>
          mset (rw_queue rw') = mset (rw_queue rw) + mset (map2 drain_request (e # es) targets)" if all: "n = length es"
      proof -
        obtain targets where "length targets = length es"
            "mset (rw_queue rw') = mset (rw_queue ?rw) + mset (map2 drain_request es targets)"
          using h(6) all by blast
        then show ?thesis by (intro exI[of _ "target # targets"]) (simp add: q(1))
      qed
      with h show ?thesis by (intro exI[of _ "Suc n"] exI[of _ f]) (simp add: add.assoc)
    qed
  qed
qed auto

text \<open>
  when a drain reports completion, the disk has been moved to the removed state with none of
  its extents copied: for each listed extent the request to copy it is still in the repair queue, and
  no repair has been completed since the drain began.
\<close>

theorem drain_removes_before_copying:
  assumes "drain_disk inventory removed d dw rw b = Some (asked, p, dw', rw', b')" "dp_complete p"
    and "length (di_list_extents inventory d) < 2 ^ 64"
  shows "asked \<and> removed = Inr () \<and> rw_completed rw' = rw_completed rw \<and>
     (\<exists>targets. length targets = length (di_list_extents inventory d) \<and>
        mset (rw_queue rw') = mset (rw_queue rw) + mset (map2 drain_request (di_list_extents inventory d) targets))"
proof -
  let ?es = "di_list_extents inventory d"
  let ?p0 = "\<lparr>dp_disk_id = d, dp_total_extents = of_nat (length ?es), dp_relocated = 0, dp_failed = 0, dp_complete = False\<rparr>"
  obtain p1 where loop: "drain_loop inventory (dc_tokens_per_relocate (dw_config dw)) d 0 ?es ?p0 rw b = Some (p1, rw', b')"
    and asked: "asked = (dp_relocated p1 = of_nat (length ?es) \<and> dp_failed p1 = 0)"
    and p: "p = (if asked \<and> removed = Inr () then p1\<lparr>dp_complete := True\<rparr> else p1)"
    using assms(1) by (auto simp: drain_disk_def Let_def split: option.splits)
  obtain n f where h: "n + f \<le> length ?es" "dp_relocated p1 = of_nat n" "dp_complete p1 = False" "rw_completed rw' = rw_completed rw"
      "n = length ?es \<longrightarrow> (\<exists>targets. length targets = length ?es \<and>
         mset (rw_queue rw') = mset (rw_queue rw) + mset (map2 drain_request ?es targets))"
    using drain_loop_queue[OF loop] by auto
  have a: "asked" "removed = Inr ()" using assms(2) p h(3) by (auto split: if_splits)
  have "(of_nat n :: u64) = of_nat (length ?es)" using a(1) asked h(2) by simp
  then have "unat (of_nat n :: u64) = unat (of_nat (length ?es) :: u64)" by simp
  then have "n = length ?es"
    using h(1) assms(3) by (simp add: unsigned_of_nat take_bit_nat_eq_self)
  with a h show ?thesis by blast
qed

definition demo_drain :: DrainInventory where
  "demo_drain =
     \<lparr>di_list_extents = (\<lambda>d. [\<lparr>de_extent_id = 7, de_version = 1, de_healthy_sources = [d]\<rparr>]),
      di_is_draining = (\<lambda>k d. True), di_select_target = (\<lambda>k d. Inr 2)\<rparr>"

theorem drain_removes_before_copying_witness:
  "\<exists>p dw' rw' b'. drain_disk demo_drain (Inr ()) 1 \<lparr>dw_config = drain_config_default, dw_progress = None\<rparr>
      (repair_worker_new repair_config_default) demo_budget = Some (True, p, dw', rw', b') \<and> dp_complete p \<and>
      rw_completed rw' = [] \<and> length (rw_queue rw') = 1"
proof -
  let ?dw = "\<lparr>dw_config = drain_config_default, dw_progress = None\<rparr>" and ?rw = "repair_worker_new repair_config_default"
  have "budget_ok (dc_tokens_per_relocate drain_config_default) demo_budget 0"
    by (rule demo_budget_ok) (simp add: drain_config_default_def)
  from spend_returns[OF this] obtain b1 where b1: "spend (dc_tokens_per_relocate drain_config_default) demo_budget = Some b1"
    by blast
  then obtain p dw' rw' where r: "drain_disk demo_drain (Inr ()) 1 ?dw ?rw demo_budget = Some (True, p, dw', rw', b1)"
      "dp_complete p"
    by (simp add: drain_disk_def demo_drain_def Let_def)
  have "length (di_list_extents demo_drain 1) < 2 ^ 64" by (simp add: demo_drain_def)
  from drain_removes_before_copying[OF r this] obtain targets where
    q: "rw_completed rw' = []" "length targets = 1"
      "mset (rw_queue rw') = mset (map2 drain_request (di_list_extents demo_drain 1) targets)"
    by (auto simp: repair_worker_new_def demo_drain_def)
  have "length (rw_queue rw') = 1"
    using arg_cong[OF q(3), of size] q(2) by (simp add: demo_drain_def)
  with r q show ?thesis by blast
qed

section \<open>Rebalancing\<close>

lemma set_insert_by_util: "set (insert_by_util f d es) = insert d (set es)"
  by (induction es) auto

lemma set_sort_by_util: "set (sort_by_util f ds) = set ds"
  by (induction ds) (auto simp: set_insert_by_util)

lemma plan_extents_facts:
  "plan_extents source targets xs remaining = (ms, left) \<Longrightarrow>
   length ms + left \<le> remaining \<and>
   (\<forall>m \<in> set ms. bm_source_disk m = source \<and> (bm_extent_id m, bm_version m) \<in> set xs \<and>
      targets \<noteq> [] \<and> bm_target_disk m = du_disk_id (hd targets))"
proof (induction xs arbitrary: remaining ms)
  case (Cons xv xs)
  obtain x v where xv: "xv = (x, v)" by fastforce
  from Cons show ?case
    by (cases "remaining = 0"; cases targets) (fastforce simp: xv Let_def split: prod.splits)+
qed simp

lemma plan_sources_facts:
  "length (plan_sources moveable targets ss remaining) \<le> remaining \<and>
   (\<forall>m \<in> set (plan_sources moveable targets ss remaining). \<exists>s \<in> set ss. bm_source_disk m = du_disk_id s \<and>
      (bm_extent_id m, bm_version m) \<in> set (moveable (du_disk_id s)) \<and>
      targets \<noteq> [] \<and> bm_target_disk m = du_disk_id (hd targets))"
proof (induction ss arbitrary: remaining)
  case (Cons s ss)
  obtain ms left where p: "plan_extents (du_disk_id s) targets (moveable (du_disk_id s)) remaining = (ms, left)" by fastforce
  from plan_extents_facts[OF p] Cons.IH[of left] show ?case
    by (cases "remaining = 0") (auto simp: p)
qed simp

text \<open>
  whatever the floating-point unit does, a rebalance plan has at most the configured number of
  moves; every move takes an extent its over-utilized source lists as moveable, and all moves go to
  one disk, the first of the under-utilized ones in descending order of utilization.
\<close>

theorem plan_has_one_target:
  assumes "generate_plan f inventory bw = (plan, bw')"
  shows "length (bp_moves plan) \<le> bc_max_moves_per_pass (bw_config bw) \<and> bw_last_plan bw' = Some plan \<and>
    (bp_needed plan \<longleftrightarrow> bp_moves plan \<noteq> []) \<and>
    (\<exists>target. \<forall>m \<in> set (bp_moves plan). bm_target_disk m = target \<and>
       (\<exists>s \<in> set (ri_utilizations inventory).
          bm_source_disk m = du_disk_id s \<and>
          over_utilized f (bc_imbalance_threshold (bw_config bw)) (average_utilization f (ri_utilizations inventory)) s \<and>
          (bm_extent_id m, bm_version m) \<in> set (ri_moveable_extents inventory (du_disk_id s))))"
proof -
  let ?th = "bc_imbalance_threshold (bw_config bw)" and ?ds = "ri_utilizations inventory"
  let ?avg = "average_utilization f ?ds"
  let ?targets = "filter (under_utilized f ?th ?avg) (sort_by_util f ?ds)"
    and ?sources = "filter (over_utilized f ?th ?avg) (sort_by_util f ?ds)"
  consider "bp_moves plan = []" "\<not> bp_needed plan" "bw_last_plan bw' = Some plan"
    | "bp_moves plan = plan_sources (ri_moveable_extents inventory) ?targets ?sources (bc_max_moves_per_pass (bw_config bw))"
      "bp_needed plan \<longleftrightarrow> bp_moves plan \<noteq> []" "bw_last_plan bw' = Some plan"
    using assms by (auto simp: generate_plan_def Let_def split: if_splits)
  then show ?thesis
  proof cases
    case 2
    have "set ?sources \<subseteq> set ?ds" by (auto simp: set_sort_by_util)
    with plan_sources_facts[of "ri_moveable_extents inventory" ?targets ?sources "bc_max_moves_per_pass (bw_config bw)"] 2
    show ?thesis by (intro conjI exI[of _ "du_disk_id (hd ?targets)"]) fastforce+
  qed auto
qed

definition permille :: "int F64" where
  "permille =
     \<lparr>f_of_u64 = uint, f_zero = 0, f_add = (+), f_sub = (-), f_div = (\<lambda>a b. a * 1000 div b), f_half = (\<lambda>a. a div 2),
      f_neg = uminus, f_abs = abs, f_max = max, f_lt = (<), f_eq = (=)\<rparr>"

definition demo_disk_use :: "DiskId \<Rightarrow> u64 \<Rightarrow> DiskUtilization" where
  "demo_disk_use d used = \<lparr>du_disk_id = d, du_used_bytes = used, du_total_bytes = 100, du_extent_count = 1\<rparr>"

definition demo_rebalance :: RebalanceInventory where
  "demo_rebalance =
     \<lparr>ri_utilizations = [demo_disk_use 1 90, demo_disk_use 2 10, demo_disk_use 3 20],
      ri_moveable_extents = (\<lambda>d. [(7, 1), (8, 1)]), ri_healthy_sources = (\<lambda>x. [1])\<rparr>"

definition demo_rebalancer :: "int RebalanceWorker" where
  "demo_rebalancer =
     \<lparr>bw_config = \<lparr>bc_imbalance_threshold = 100, bc_max_moves_per_pass = 100, bc_tokens_per_move = 5,
                   bc_check_interval_secs = 300\<rparr>, bw_last_plan = None\<rparr>"

theorem plan_has_one_target_witness:
  "bp_needed (fst (generate_plan permille demo_rebalance demo_rebalancer)) \<and>
   (\<forall>m \<in> set (bp_moves (fst (generate_plan permille demo_rebalance demo_rebalancer))). bm_target_disk m = 3)"
proof -
  let ?plan = "fst (generate_plan permille demo_rebalance demo_rebalancer)"
  obtain target where t: "\<forall>m \<in> set (bp_moves ?plan). bm_target_disk m = target"
    using plan_has_one_target[OF prod.collapse[symmetric]] by blast
  have n: "bp_needed ?plan" "bp_moves ?plan \<noteq> []" "bm_target_disk (hd (bp_moves ?plan)) = 3" by code_simp+
  then have "target = 3" using t by (metis hd_in_set)
  with t n show ?thesis by simp
qed

end
