(* ===== verification/Failure.thy ===== *)
theory Failure
  imports DataNode
begin

text \<open>
  Failure handling of a data node, \<^verbatim>\<open>blockyard-storage/src/failure.rs\<close>: a failed disk, duplicates after
  a crash, recovery of all disks at start-up and readiness. The recovery of one disk is that of the
  extent store with its I/O faults (\<^verbatim>\<open>recover_io\<close>): it can stop at the creation of the directories,
  in the scan, or in the listing of the staged files; metadata that cannot be read is counted, a staged
  file that cannot be removed is passed over.
\<close>

section \<open>A failed disk\<close>

record DiskFailureReport =
  fr_disk_id :: DiskId
  fr_previous_state :: DiskState
  fr_affected_extents :: "ExtentId list"
  fr_reason :: string

definition handle_disk_failure ::
  "DiskInventory \<Rightarrow> ExtentIndex \<Rightarrow> DiskId \<Rightarrow> string \<Rightarrow> (DiskFailureReport, StorageError) result \<times> DiskInventory" where
  "handle_disk_failure inventory ix d reason =
     (case get_state inventory d of
        Inl e \<Rightarrow> (Inl e, inventory)
      | Inr previous \<Rightarrow>
          if previous = Failed \<or> previous = Removed
          then (Inr \<lparr>fr_disk_id = d, fr_previous_state = previous, fr_affected_extents = [],
                     fr_reason = ''disk already in '' @ disk_state_display previous @ '' state''\<rparr>, inventory)
          else
            (case transition_state d Failed inventory of
               (Inl e, inventory') \<Rightarrow> (Inl e, inventory')
             | (Inr _, inventory') \<Rightarrow>
                 (Inr \<lparr>fr_disk_id = d, fr_previous_state = previous,
                       fr_affected_extents = map le_extent_id (list_for_disk ix d), fr_reason = reason\<rparr>, inventory')))"

definition extents_needing_repair :: "ExtentIndex \<Rightarrow> DiskId \<Rightarrow> LocalExtentEntry list" where
  "extents_needing_repair ix d = list_for_disk ix d"

section \<open>Duplicates after a crash\<close>

datatype DedupCheckResult = PreviouslyCompleted ExtentId u64 checksum | PreviouslyFailed | DedupUnknown

definition check_dedup_after_crash :: "(OperationId, OperationRecord) btree \<Rightarrow> OperationId \<Rightarrow> DedupCheckResult" where
  "check_dedup_after_crash log op =
     (case bt_get log op of
        Some r \<Rightarrow>
          if or_success r then PreviouslyCompleted (or_extent_id r) (or_extent_version r) (or_checksum r)
          else PreviouslyFailed
      | None \<Rightarrow> DedupUnknown)"

definition validate_staged_not_durable :: "ExtentStore \<Rightarrow> ExtentKey \<Rightarrow> bool" where
  "validate_staged_not_durable st k = (bt_get (fs_staged (es_fs st)) k \<noteq> None)"

section \<open>Start-up\<close>

text \<open>
  How the recovery of one disk goes. The committed files are visited in the order of the directory;
  one whose metadata file cannot be read is skipped and counted, and so is a staged file that cannot be
  removed, which is left without notice. The creation of the directories, the scan and the listing
  of the staged files can stop the recovery with an error, which leaves what was indexed or removed
  before it: \<^verbatim>\<open>rv_listing\<close> is then what was visited and \<^verbatim>\<open>rv_kept\<close> what was not reached or not removed.
\<close>

datatype RecoverStop = RecoverEnds | InitFails | ScanFails | StagedFails

record RecoverIo =
  rv_stop :: RecoverStop
  rv_listing :: "ExtentKey list"
  rv_unreadable :: "ExtentKey list"
  rv_kept :: "ExtentKey list"

definition hide_meta :: "ExtentKey list \<Rightarrow> ExtentStore \<Rightarrow> ExtentStore" where
  "hide_meta ks st = st\<lparr>es_fs := (es_fs st)\<lparr>fs_meta := filter (\<lambda>(k, _). k \<notin> set ks) (fs_meta (es_fs st))\<rparr>\<rparr>"

definition keep_staged :: "ExtentKey list \<Rightarrow> ExtentStore \<Rightarrow> ExtentStore" where
  "keep_staged ks st = st\<lparr>es_fs := (es_fs st)\<lparr>fs_staged := filter (\<lambda>(k, _). k \<in> set ks) (fs_staged (es_fs st))\<rparr>\<rparr>"

definition recover_io ::
  "RecoverIo \<Rightarrow> ExtentIndex \<Rightarrow> ExtentStore \<Rightarrow> (RecoveryReport, StorageError) result \<times> ExtentIndex \<times> ExtentStore" where
  "recover_io io ix st =
     (if rv_stop io = InitFails then (Inl SeIo, ix, st)
      else
        (let (ix', rep) = scan_committed_dir (hide_meta (rv_unreadable io) st) (rv_listing io)
               (ix, \<lparr>rr_committed_recovered = 0, rr_staged_discarded = 0, rr_errors = 0\<rparr>);
             st' = keep_staged (rv_kept io) st in
         case rv_stop io of
           ScanFails \<Rightarrow> (Inl SeIo, ix', st)
         | StagedFails \<Rightarrow> (Inl SeIo, ix', st')
         | _ \<Rightarrow>
             (Inr (rep\<lparr>rr_staged_discarded := length (fs_staged (es_fs st)) - length (fs_staged (es_fs st'))\<rparr>), ix', st')))"

record DiskRecoveryDetail =
  rd_disk_id :: DiskId
  rd_committed :: nat
  rd_staged_discarded :: nat
  rd_errors :: nat

record NodeRecoveryReport =
  nr_disks_recovered :: nat
  nr_committed_extents :: nat
  nr_staged_discarded :: nat
  nr_recovery_errors :: nat
  nr_disk_reports :: "DiskRecoveryDetail list"

definition node_recovery_default :: NodeRecoveryReport where
  "node_recovery_default =
     \<lparr>nr_disks_recovered = 0, nr_committed_extents = 0, nr_staged_discarded = 0, nr_recovery_errors = 0, nr_disk_reports = []\<rparr>"

type_synonym NodeDisks = "DiskInventory \<times> (DiskId, ExtentStore) btree \<times> ExtentIndex"

definition recover_disk :: "RecoverIo \<Rightarrow> DiskId \<Rightarrow> NodeRecoveryReport \<times> NodeDisks \<Rightarrow> NodeRecoveryReport \<times> NodeDisks" where
  "recover_disk io d s =
     (case s of (report, inventory, stores, ix) \<Rightarrow>
        (case bt_get stores d of
           None \<Rightarrow> (report\<lparr>nr_recovery_errors := nr_recovery_errors report + 1\<rparr>, inventory, stores, ix)
         | Some st \<Rightarrow>
             (case recover_io io ix st of
                (Inr rep, ix', st') \<Rightarrow>
                  (report\<lparr>nr_disks_recovered := nr_disks_recovered report + 1,
                          nr_committed_extents := nr_committed_extents report + rr_committed_recovered rep,
                          nr_staged_discarded := nr_staged_discarded report + rr_staged_discarded rep,
                          nr_recovery_errors := nr_recovery_errors report + rr_errors rep,
                          nr_disk_reports := nr_disk_reports report @
                            [\<lparr>rd_disk_id = d, rd_committed = rr_committed_recovered rep,
                              rd_staged_discarded = rr_staged_discarded rep, rd_errors = rr_errors rep\<rparr>]\<rparr>,
                   inventory, bt_insert d st' stores, ix')
              | (Inl _, ix', st') \<Rightarrow>
                  (report\<lparr>nr_recovery_errors := nr_recovery_errors report + 1\<rparr>,
                   snd (transition_state d Failed inventory), bt_insert d st' stores, ix'))))"

definition recover_node :: "(DiskId \<Rightarrow> RecoverIo) \<Rightarrow> NodeDisks \<Rightarrow> NodeRecoveryReport \<times> NodeDisks" where
  "recover_node io s =
     fold (\<lambda>d. recover_disk (io d) d) (list_disks (fst s)) (node_recovery_default, s)"

definition node_ready_for_writes :: "DiskInventory \<Rightarrow> ExtentIndex \<Rightarrow> bool" where
  "node_ready_for_writes inventory ix =
     (if list_disks inventory = [] then False
      else list_ex (\<lambda>d. case inv_allows_allocation inventory d of Inr b \<Rightarrow> b | Inl _ \<Rightarrow> False) (list_disks inventory))"

definition node_ready_for_reads :: "DiskInventory \<Rightarrow> ExtentIndex \<Rightarrow> bool" where
  "node_ready_for_reads inventory ix =
     (if list_disks inventory = [] then False
      else list_ex (\<lambda>d. case inv_allows_reads inventory d of Inr b \<Rightarrow> b | Inl _ \<Rightarrow> False) (list_disks inventory))"

section \<open>Properties\<close>

lemma fail_transition:
  assumes "bt_get (iv_disks inventory) d = Some disk" "mg_state disk \<noteq> Removed"
  shows "transition_state d Failed inventory = (Inr (mg_state disk), update_disk d (disk\<lparr>mg_state := Failed\<rparr>) inventory)"
  using assms
  by (cases "mg_state disk") (simp_all add: transition_state_def validate_transition_def transition_valid_def Let_def)

lemma failed_disk_idle:
  assumes "get_state inventory d = Inr Failed"
  shows "inv_allows_allocation inventory d = Inr False" "inv_allows_reads inventory d = Inr False"
  using assms by (auto simp: get_state_def inv_allows_allocation_def inv_allows_reads_def split: option.splits)

text \<open>
  the failure of a known disk is always handled. Unless the disk was already failed or
  removed, it ends failed, with no allocation and no reads, the report names exactly the extents
  the index has on it, and no other disk changes state.
\<close>

theorem disk_failure_reported:
  assumes "get_state inventory d = Inr previous" "previous \<noteq> Failed" "previous \<noteq> Removed" "bt_wf ix"
  shows "\<exists>report inventory'. handle_disk_failure inventory ix d reason = (Inr report, inventory') \<and>
     fr_previous_state report = previous \<and> get_state inventory' d = Inr Failed \<and>
     inv_allows_allocation inventory' d = Inr False \<and> inv_allows_reads inventory' d = Inr False \<and>
     (\<forall>d'. d' \<noteq> d \<longrightarrow> get_state inventory' d' = get_state inventory d') \<and>
     set (fr_affected_extents report) = {le_extent_id e | e k. bt_get ix k = Some e \<and> le_disk_id e = d}"
proof -
  obtain disk where disk: "bt_get (iv_disks inventory) d = Some disk" "mg_state disk = previous"
    using assms(1) by (auto simp: get_state_def split: option.splits)
  let ?inv = "update_disk d (disk\<lparr>mg_state := Failed\<rparr>) inventory"
  let ?rep = "\<lparr>fr_disk_id = d, fr_previous_state = previous,
      fr_affected_extents = map le_extent_id (list_for_disk ix d), fr_reason = reason\<rparr>"
  have "handle_disk_failure inventory ix d reason = (Inr ?rep, ?inv)"
    using assms(1-3) fail_transition[OF disk(1)] disk(2) by (simp add: handle_disk_failure_def)
  moreover have "get_state ?inv d = Inr Failed" "\<forall>d'. d' \<noteq> d \<longrightarrow> get_state ?inv d' = get_state inventory d'"
    by (simp_all add: get_state_def update_disk_def)
  moreover have "set (fr_affected_extents ?rep) = {le_extent_id e | e k. bt_get ix k = Some e \<and> le_disk_id e = d}"
    using bt_values_iff[OF assms(4)] by (auto simp: list_for_disk_def)
  ultimately show ?thesis using failed_disk_idle[of ?inv d] by fastforce
qed

lemma transition_fail_other: "d' \<noteq> d \<Longrightarrow> get_state (snd (transition_state d Failed inventory)) d' = get_state inventory d'"
  by (auto simp: transition_state_def get_state_def update_disk_def Let_def split: option.splits sum.splits)

lemma transition_fail_state:
  assumes "get_state inventory d = Inr state"
  shows "get_state (snd (transition_state d Failed inventory)) d = Inr (if state = Removed then Removed else Failed)"
proof -
  obtain disk where disk: "bt_get (iv_disks inventory) d = Some disk" "mg_state disk = state"
    using assms by (auto simp: get_state_def split: option.splits)
  show ?thesis
  proof (cases "state = Removed")
    case True
    with disk show ?thesis
      by (simp add: transition_state_def validate_transition_def transition_valid_def get_state_def)
  next
    case False
    with fail_transition[OF disk(1)] disk(2) show ?thesis by (simp add: get_state_def update_disk_def)
  qed
qed

text \<open>Recovery without faults is the recovery of the extent store.\<close>

lemma recover_io_ends:
  "recover_io \<lparr>rv_stop = RecoverEnds, rv_listing = listing, rv_unreadable = [], rv_kept = []\<rparr> ix st =
     (case recover listing ix st of (ix', rep, st') \<Rightarrow> (Inr rep, ix', st'))"
  by (simp add: recover_io_def recover_def hide_meta_def keep_staged_def case_prod_unfold Let_def)

subsection \<open>What a scan adds to the index\<close>

lemma recover_extent_hidden:
  "recover_extent_from_file (hide_meta ks st) k =
     (if k \<in> set ks then Inl (SeExtentNotFound (fst k) (snd k)) else recover_extent_from_file st k)"
proof -
  have "map_of (filter (\<lambda>(k, _). k \<notin> set ks) m) k = (if k \<in> set ks then None else map_of m k)" for m :: "(ExtentKey, MetaFile) btree"
    by (induction m) auto
  then show ?thesis by (simp add: recover_extent_from_file_def hide_meta_def)
qed

lemma scan_adds_files:
  "bt_get (fst (scan_committed_dir st ks (ix, rep))) x = Some e \<Longrightarrow>
   bt_get ix x = Some e \<or> (\<exists>k \<in> set ks. recover_extent_from_file st k = Inr e)"
  by (induction ks arbitrary: ix rep) (fastforce simp: index_insert_def split: sum.splits if_splits)+

lemma scan_keeps_indexed:
  "bt_get ix x \<noteq> None \<Longrightarrow> bt_get (fst (scan_committed_dir st ks (ix, rep))) x \<noteq> None"
  by (induction ks arbitrary: ix rep) (auto simp: index_insert_def split: sum.splits)

lemma scan_indexes_files:
  "k \<in> set ks \<Longrightarrow> recover_extent_from_file st k = Inr e \<Longrightarrow>
   bt_get (fst (scan_committed_dir st ks (ix, rep))) (le_extent_id e) \<noteq> None"
proof (induction ks arbitrary: ix rep)
  case (Cons k' ks)
  then show ?case
    using scan_keeps_indexed[of "index_insert e ix" "le_extent_id e" st ks]
    by (cases "k' = k") (auto simp: index_insert_def split: sum.splits)
qed simp

lemma recover_io_outcome:
  assumes "recover_io io ix st = (res, ix', st')"
  shows "fs_committed (es_fs st') = fs_committed (es_fs st)" "fs_meta (es_fs st') = fs_meta (es_fs st)"
    and "isl res \<longleftrightarrow> rv_stop io \<noteq> RecoverEnds"
    and "rv_stop io = RecoverEnds \<Longrightarrow> fs_staged (es_fs st') = filter (\<lambda>(k, _). k \<in> set (rv_kept io)) (fs_staged (es_fs st))"
    and "bt_get ix x \<noteq> None \<Longrightarrow> bt_get ix' x \<noteq> None"
    and "bt_get ix' x = Some e \<Longrightarrow> bt_get ix x = Some e \<or> (\<exists>k \<in> set (rv_listing io). recover_extent_from_file st k = Inr e)"
    and "rv_stop io \<noteq> InitFails \<Longrightarrow> k \<in> set (rv_listing io) \<Longrightarrow> k \<notin> set (rv_unreadable io) \<Longrightarrow>
         recover_extent_from_file st k = Inr e \<Longrightarrow> bt_get ix' (le_extent_id e) \<noteq> None"
proof -
  let ?scan = "scan_committed_dir (hide_meta (rv_unreadable io) st) (rv_listing io)
     (ix, \<lparr>rr_committed_recovered = 0, rr_staged_discarded = 0, rr_errors = 0\<rparr>)"
  have ix': "ix' = (if rv_stop io = InitFails then ix else fst ?scan)"
    using assms by (auto simp: recover_io_def Let_def split: prod.splits RecoverStop.splits if_splits)
  show "fs_committed (es_fs st') = fs_committed (es_fs st)" "fs_meta (es_fs st') = fs_meta (es_fs st)"
    "isl res \<longleftrightarrow> rv_stop io \<noteq> RecoverEnds"
    "rv_stop io = RecoverEnds \<Longrightarrow> fs_staged (es_fs st') = filter (\<lambda>(k, _). k \<in> set (rv_kept io)) (fs_staged (es_fs st))"
    using assms by (auto simp: recover_io_def keep_staged_def Let_def split: prod.splits RecoverStop.splits if_splits)
  show "bt_get ix' x \<noteq> None" if "bt_get ix x \<noteq> None"
    using that scan_keeps_indexed[OF that] by (simp add: ix')
  show "bt_get ix x = Some e \<or> (\<exists>k \<in> set (rv_listing io). recover_extent_from_file st k = Inr e)" if "bt_get ix' x = Some e"
    using that scan_adds_files by (fastforce simp: ix' recover_extent_hidden split: if_splits)
  show "bt_get ix' (le_extent_id e) \<noteq> None"
    if "rv_stop io \<noteq> InitFails" "k \<in> set (rv_listing io)" "k \<notin> set (rv_unreadable io)" "recover_extent_from_file st k = Inr e"
    using that scan_indexes_files[of k "rv_listing io" "hide_meta (rv_unreadable io) st" e ix]
    by (simp add: ix' recover_extent_hidden)
qed

subsection \<open>Recovery of all disks\<close>

text \<open>What the recovery of a disk leaves of it, from its state and store before.\<close>

definition disk_outcome ::
  "RecoverIo \<Rightarrow> DiskState \<Rightarrow> ExtentStore \<Rightarrow> (DiskState, StorageError) result \<Rightarrow> ExtentStore option \<Rightarrow> bool" where
  "disk_outcome io state st state' st' \<longleftrightarrow>
     (\<exists>st1. st' = Some st1 \<and> fs_committed (es_fs st1) = fs_committed (es_fs st) \<and> fs_meta (es_fs st1) = fs_meta (es_fs st) \<and>
        (if rv_stop io = RecoverEnds
         then state' = Inr state \<and> fs_staged (es_fs st1) = filter (\<lambda>(k, _). k \<in> set (rv_kept io)) (fs_staged (es_fs st))
         else state' = Inr (if state = Removed then Removed else Failed)))"

lemma recover_disk_outcome:
  assumes "recover_disk io d (report, inventory, stores, ix) = (report', inventory', stores', ix')"
  shows "get_state inventory d = Inr state \<Longrightarrow> bt_get stores d = Some st \<Longrightarrow>
         disk_outcome io state st (get_state inventory' d) (bt_get stores' d)"
    and "d' \<noteq> d \<Longrightarrow> get_state inventory' d' = get_state inventory d' \<and> bt_get stores' d' = bt_get stores d'"
    and "bt_get ix x \<noteq> None \<Longrightarrow> bt_get ix' x \<noteq> None"
    and "bt_get ix' x = Some e \<Longrightarrow> bt_get ix x = Some e \<or>
         (\<exists>st k. bt_get stores d = Some st \<and> k \<in> set (rv_listing io) \<and> recover_extent_from_file st k = Inr e)"
    and "bt_get stores d = Some st \<Longrightarrow> rv_stop io \<noteq> InitFails \<Longrightarrow> k \<in> set (rv_listing io) \<Longrightarrow> k \<notin> set (rv_unreadable io) \<Longrightarrow>
         recover_extent_from_file st k = Inr e \<Longrightarrow> bt_get ix' (le_extent_id e) \<noteq> None"
proof -
  consider (none) "bt_get stores d = None" "inventory' = inventory" "stores' = stores" "ix' = ix"
    | (some) st1 res ix1 st2 where "bt_get stores d = Some st1" "recover_io io ix st1 = (res, ix1, st2)"
        "inventory' = (if isl res then snd (transition_state d Failed inventory) else inventory)"
        "stores' = bt_insert d st2 stores" "ix' = ix1"
    using assms by (cases "bt_get stores d") (auto simp: recover_disk_def split: prod.splits sum.splits)
  note two = this
  show "disk_outcome io state st (get_state inventory' d) (bt_get stores' d)"
    if "get_state inventory d = Inr state" "bt_get stores d = Some st"
    using two
  proof cases
    case some
    with recover_io_outcome(1-4)[OF some(2)] that transition_fail_state[OF that(1)] show ?thesis
      by (simp add: disk_outcome_def)
  qed (use that in simp)
  show "get_state inventory' d' = get_state inventory d' \<and> bt_get stores' d' = bt_get stores d'" if "d' \<noteq> d"
    using two that by cases (simp_all add: transition_fail_other)
  show "bt_get ix' x \<noteq> None" if "bt_get ix x \<noteq> None"
    using two that recover_io_outcome(5) by cases blast+
  show "bt_get ix x = Some e \<or> (\<exists>st k. bt_get stores d = Some st \<and> k \<in> set (rv_listing io) \<and> recover_extent_from_file st k = Inr e)"
    if "bt_get ix' x = Some e"
    using two that recover_io_outcome(6) by cases (simp, blast)
  show "bt_get ix' (le_extent_id e) \<noteq> None"
    if "bt_get stores d = Some st" "rv_stop io \<noteq> InitFails" "k \<in> set (rv_listing io)" "k \<notin> set (rv_unreadable io)"
      "recover_extent_from_file st k = Inr e"
    using two that recover_io_outcome(7) by cases (simp, metis option.inject)
qed

lemma recover_disk_files:
  assumes "recover_disk io d (report, inventory, stores, ix) = (report', inventory', stores', ix')" "bt_get stores' d = Some st'"
  shows "\<exists>st. bt_get stores d = Some st \<and> recover_extent_from_file st k = recover_extent_from_file st' k"
proof (cases "bt_get stores d")
  case (Some st)
  obtain res ix1 st1 where r: "recover_io io ix st = (res, ix1, st1)" using prod_cases3 by blast
  then have "stores' = bt_insert d st1 stores" using assms(1) Some by (auto simp: recover_disk_def split: sum.splits)
  with recover_io_outcome(2)[OF r] assms(2) Some show ?thesis by (simp add: recover_extent_from_file_def)
qed (use assms in \<open>simp add: recover_disk_def\<close>)

lemma recover_disks_outcome:
  assumes "distinct ds" "fold (\<lambda>d. recover_disk (io d) d) ds (report, inventory, stores, ix) = (report', inventory', stores', ix')"
  shows "\<forall>d state st. d \<in> set ds \<longrightarrow> get_state inventory d = Inr state \<longrightarrow> bt_get stores d = Some st \<longrightarrow>
           disk_outcome (io d) state st (get_state inventory' d) (bt_get stores' d)" (is ?settled)
    and "\<forall>d. d \<notin> set ds \<longrightarrow> get_state inventory' d = get_state inventory d \<and> bt_get stores' d = bt_get stores d" (is ?others)
    and "\<forall>x. bt_get ix x \<noteq> None \<longrightarrow> bt_get ix' x \<noteq> None" (is ?kept)
    and "\<forall>x e. bt_get ix' x = Some e \<longrightarrow> bt_get ix x = Some e \<or>
           (\<exists>d st k. bt_get stores d = Some st \<and> k \<in> set (rv_listing (io d)) \<and> recover_extent_from_file st k = Inr e)" (is ?sound)
    and "\<forall>d st k e. d \<in> set ds \<longrightarrow> bt_get stores d = Some st \<longrightarrow> rv_stop (io d) \<noteq> InitFails \<longrightarrow>
           k \<in> set (rv_listing (io d)) - set (rv_unreadable (io d)) \<longrightarrow>
           recover_extent_from_file st k = Inr e \<longrightarrow> bt_get ix' (le_extent_id e) \<noteq> None" (is ?complete)
proof -
  from assms have "?settled \<and> ?others \<and> ?kept \<and> ?sound \<and> ?complete"
  proof (induction ds arbitrary: report inventory stores ix)
    case (Cons d ds)
    obtain report1 inventory1 stores1 ix1 where
      s1: "recover_disk (io d) d (report, inventory, stores, ix) = (report1, inventory1, stores1, ix1)" using prod_cases4 by blast
    note one = recover_disk_outcome[OF s1]
    have d: "d \<notin> set ds" "distinct ds" using Cons.prems(1) by simp_all
    note ih = Cons.IH[OF d(2) Cons.prems(2)[unfolded fold_simps s1]]
    have same: "get_state inventory1 d' = get_state inventory d' \<and> bt_get stores1 d' = bt_get stores d'" if "d' \<in> set ds" for d'
      using one(2)[of d'] that d(1) by auto
    have files: "\<exists>st0. bt_get stores d' = Some st0 \<and> recover_extent_from_file st0 k = recover_extent_from_file st k"
      if st: "bt_get stores1 d' = Some st" for d' st k
    proof (cases "d' = d")
      case True
      then show ?thesis using recover_disk_files[OF s1] st by metis
    qed (use one(2) st in auto)
    have settled: "disk_outcome (io d') state st (get_state inventory' d') (bt_get stores' d')"
      if "d' \<in> set (d # ds)" "get_state inventory d' = Inr state" "bt_get stores d' = Some st" for d' state st
      using that ih one(1) d(1) same by (cases "d' = d") auto
    have complete: "bt_get ix' (le_extent_id e) \<noteq> None"
      if "d' \<in> set (d # ds)" "bt_get stores d' = Some st" "rv_stop (io d') \<noteq> InitFails"
        "k \<in> set (rv_listing (io d')) - set (rv_unreadable (io d'))" "recover_extent_from_file st k = Inr e" for d' st k e
    proof (cases "d' = d")
      case True
      then have "bt_get ix1 (le_extent_id e) \<noteq> None" using one(5) that by blast
      with ih show ?thesis by blast
    next
      case False
      with that ih same show ?thesis by (metis set_ConsD)
    qed
    have sound: "bt_get ix x = Some e \<or>
        (\<exists>d st k. bt_get stores d = Some st \<and> k \<in> set (rv_listing (io d)) \<and> recover_extent_from_file st k = Inr e)"
      if "bt_get ix' x = Some e" for x e
      using ih that one(4)[of x e] files by metis
    show ?case using settled complete sound ih one(2,3) d(1) by (intro conjI) (blast | simp)+
  qed simp
  then show ?settled ?others ?kept ?sound ?complete by blast+
qed

text \<open>
  C21: start-up recovery, whatever system calls fail on its way. A disk of the inventory whose recovery
  ends keeps its state and of its staged files only those that could not be removed; a disk whose
  recovery stops with an error is failed, unless it was removed. No committed file or metadata file
  changes. Every entry of the index afterwards was there before or describes a visited committed file of
  some disk, and every visited file with readable metadata has its extent in the index.
\<close>

theorem node_recovery_outcome:
  assumes "bt_wf (iv_disks inventory)" "recover_node io (inventory, stores, ix) = (report, inventory', stores', ix')"
    and "get_state inventory d = Inr state" "bt_get stores d = Some st"
  shows "(\<exists>st'. bt_get stores' d = Some st' \<and>
       fs_committed (es_fs st') = fs_committed (es_fs st) \<and> fs_meta (es_fs st') = fs_meta (es_fs st) \<and>
       (if rv_stop (io d) = RecoverEnds
        then get_state inventory' d = Inr state \<and>
             fs_staged (es_fs st') = filter (\<lambda>(k, _). k \<in> set (rv_kept (io d))) (fs_staged (es_fs st))
        else get_state inventory' d = Inr (if state = Removed then Removed else Failed))) \<and>
     (\<forall>x e. bt_get ix' x = Some e \<longrightarrow> bt_get ix x = Some e \<or>
       (\<exists>d st k. bt_get stores d = Some st \<and> k \<in> set (rv_listing (io d)) \<and> recover_extent_from_file st k = Inr e)) \<and>
     (\<forall>k e. rv_stop (io d) \<noteq> InitFails \<longrightarrow> k \<in> set (rv_listing (io d)) - set (rv_unreadable (io d)) \<longrightarrow>
       recover_extent_from_file st k = Inr e \<longrightarrow> bt_get ix' (le_extent_id e) \<noteq> None)"
proof -
  have "distinct (list_disks inventory)"
    using assms(1) by (simp add: list_disks_def bt_wf_distinct)
  note all = recover_disks_outcome[OF this assms(2)[unfolded recover_node_def fst_conv]]
  have d: "d \<in> set (list_disks inventory)"
    using assms(3) by (force simp: get_state_def list_disks_def split: option.splits dest: map_of_SomeD)
  have "disk_outcome (io d) state st (get_state inventory' d) (bt_get stores' d)"
    using all(1) d assms(3,4) by blast
  moreover have "\<forall>k e. rv_stop (io d) \<noteq> InitFails \<longrightarrow> k \<in> set (rv_listing (io d)) - set (rv_unreadable (io d)) \<longrightarrow>
       recover_extent_from_file st k = Inr e \<longrightarrow> bt_get ix' (le_extent_id e) \<noteq> None"
    using all(5) d assms(4) by blast
  ultimately show ?thesis using all(4) unfolding disk_outcome_def by blast
qed

text \<open>Readiness to write looks at the disk states alone: a node is ready before its recovery has run.\<close>

lemma ready_before_recovery:
  "node_ready_for_writes inventory ix = node_ready_for_writes inventory []"
  by (simp add: node_ready_for_writes_def)

definition demo_inventory :: DiskInventory where
  "demo_inventory = \<lparr>iv_disks = [(1, managed_new 1 ''/d''), (2, managed_new 2 ''/e'')], iv_drain_queue = []\<rparr>"

lemma demo_inventory_state: "get_state demo_inventory 1 = Inr Healthy" "get_state demo_inventory 2 = Inr Healthy"
  by (simp_all add: get_state_def demo_inventory_def managed_new_def)

theorem disk_failure_reported_witness:
  "\<exists>report inventory'. handle_disk_failure demo_inventory [] 1 ''io error'' = (Inr report, inventory') \<and>
     get_state inventory' 1 = Inr Failed \<and> inv_allows_reads inventory' 1 = Inr False"
  using disk_failure_reported[OF demo_inventory_state(1), of "[]" "''io error''"] by fastforce

text \<open>A disk with a committed extent and two staged files, one of which cannot be removed.\<close>

definition demo_crashed :: ExtentStore where
  "demo_crashed =
     snd (stage_extent sum_hash StageOk 0 9 1 [5] (snd (stage_extent sum_hash StageOk 0 8 1 [3, 4]
       (store_put sum_hash 0 DefaultClass (7, 1) [1, 2] (store_new 1)))))"

definition demo_recovery_io :: "DiskId \<Rightarrow> RecoverIo" where
  "demo_recovery_io d = \<lparr>rv_stop = (if d = 1 then RecoverEnds else ScanFails), rv_listing = (if d = 1 then [(7, 1)] else []),
     rv_unreadable = [], rv_kept = [(9, 1)]\<rparr>"

theorem node_recovery_outcome_witness:
  "\<exists>report inventory' stores' ix' st'.
     recover_node demo_recovery_io (demo_inventory, [(1, demo_crashed), (2, store_new 2)], []) = (report, inventory', stores', ix') \<and>
     bt_get stores' 1 = Some st' \<and> get_state inventory' 1 = Inr Healthy \<and> map fst (fs_staged (es_fs st')) = [(9, 1)] \<and>
     bt_get ix' 7 \<noteq> None \<and> get_state inventory' 2 = Inr Failed"
proof -
  let ?stores = "[(1 :: DiskId, demo_crashed), (2, store_new 2)]"
  obtain report inventory' stores' ix' where
    r: "recover_node demo_recovery_io (demo_inventory, ?stores, []) = (report, inventory', stores', ix')"
    using prod_cases4 by blast
  have wf: "bt_wf (iv_disks demo_inventory)" by (simp add: demo_inventory_def)
  have io: "rv_stop (demo_recovery_io 1) = RecoverEnds" "rv_listing (demo_recovery_io 1) = [(7, 1)]" "rv_unreadable (demo_recovery_io 1) = []"
    "rv_kept (demo_recovery_io 1) = [(9, 1)]" "rv_stop (demo_recovery_io 2) = ScanFails"
    by (simp_all add: demo_recovery_io_def)
  have staged: "map fst (filter (\<lambda>(k, _). k \<in> set [(9, 1)]) (fs_staged (es_fs demo_crashed))) = [(9, 1)]"
    and "case recover_extent_from_file demo_crashed (7, 1) of Inr e \<Rightarrow> le_extent_id e = 7 | Inl _ \<Rightarrow> False"
    by (code_simp, code_simp)
  then obtain e where found: "recover_extent_from_file demo_crashed (7, 1) = Inr e" "le_extent_id e = 7"
    by (auto split: sum.splits)
  have "bt_get ?stores 1 = Some demo_crashed" "bt_get ?stores 2 = Some (store_new 2)" by simp_all
  note one = node_recovery_outcome[OF wf r demo_inventory_state(1) this(1)] and two = node_recovery_outcome[OF wf r demo_inventory_state(2) this(2)]
  from one obtain st' where st': "bt_get stores' 1 = Some st'" "get_state inventory' 1 = Inr Healthy"
    "fs_staged (es_fs st') = filter (\<lambda>(k, _). k \<in> set [(9, 1)]) (fs_staged (es_fs demo_crashed))"
    by (auto simp: io)
  moreover have "get_state inventory' 2 = Inr Failed" using two by (auto simp: io)
  moreover have "bt_get ix' 7 \<noteq> None" using one found by (fastforce simp: io)
  ultimately show ?thesis using r staged by metis
qed

end
