(* ===== verification/Spec2Isabelle.thy ===== *)
theory Spec2Isabelle
  imports RaftStore Cluster Gossip BackgroundProps Failure
begin

text \<open>
  Blockyard: a verification library for the distributed block store of this repository.

  \<^bold>\<open>The program.\<close> A client mounts a volume as a kernel block device (\<^verbatim>\<open>blockyard-ublk\<close>). The block handler
  splits a request at the extents of the volume, computes for every extent the data nodes that hold it,
  and sends the data to them over TCP (\<^verbatim>\<open>blockyard-protocol\<close>), whole to every replica or as fragments of
  an erasure code. A data node (\<^verbatim>\<open>blockyard-storage\<close>) checks the caller, the operation id, the epoch and
  the lease, chooses a disk, and stages and commits the extent as a file; background workers repair,
  scrub, drain and rebalance its disks. A Raft group (\<^verbatim>\<open>blockyard-raft\<close>) replicates the metadata: volumes,
  extent mappings, leases, the placement epoch, nodes and disks. Nodes learn of each other by gossip
  (\<^verbatim>\<open>blockyard-gossip\<close>). Value types, authentication and placement are shared (\<^verbatim>\<open>blockyard-common\<close>). Paths
  below are relative to \<^verbatim>\<open>src/crates\<close>.

  \<^bold>\<open>Conventions.\<close> A struct is a record whose fields carry a prefix, an enum a datatype, an integer of
  fixed width a word that wraps as in a release build, an identifier a 128-bit word, a \<^verbatim>\<open>BTreeMap\<close> or
  \<^verbatim>\<open>HashMap\<close> an association list ordered by key. A method that changes its object returns it updated;
  \<^verbatim>\<open>Result\<close> is a sum with the error on the left; a panic, or a wait that does not end, is \<^const>\<open>None\<close>. What
  the code takes from outside is an argument: clocks, generated ids, hash functions, the JSON codec, the
  Reed-Solomon code, the text of a UUID, the iteration order of a hash map, and which system call or
  message fails. Hypotheses about these arguments are stated in each theorem (for example that the text
  of a UUID is injective).

  \<^bold>\<open>Theories.\<close>
  \<^item> \<^verbatim>\<open>Prelude\<close>: words, identifiers (\<^verbatim>\<open>blockyard-common/src/id.rs\<close>), ordered maps, and the contracts
    \<^verbatim>\<open>finite_map\<close>, \<^verbatim>\<open>state_machine\<close>, \<^verbatim>\<open>monotone_machine\<close> and \<^verbatim>\<open>counting_machine\<close> for whatever is driven by a
    sequence of commands.
  \<^item> \<^verbatim>\<open>Common\<close>: \<^verbatim>\<open>error.rs\<close>, \<^verbatim>\<open>protection.rs\<close>, \<^verbatim>\<open>disk_state.rs\<close>, \<^verbatim>\<open>lease.rs\<close> of \<^verbatim>\<open>blockyard-common\<close>.
  \<^item> \<^verbatim>\<open>Auth\<close> (\<^verbatim>\<open>blockyard-common/src/auth.rs\<close>): access lists refine a table of permissions; an accepted token
    is an issued one or carries a code for a content that was never signed.
  \<^item> \<^verbatim>\<open>Metadata\<close>, \<^verbatim>\<open>MetadataInv\<close>, \<^verbatim>\<open>MetadataProps\<close> (\<^verbatim>\<open>blockyard-raft/src/state_machine.rs\<close>, \<^verbatim>\<open>request.rs\<close>,
    \<^verbatim>\<open>response.rs\<close>): one definition per branch of \<^verbatim>\<open>apply_request\<close> and per query; the invariant; over whole
    histories no panic, the exact outcome of a commit of a mapping, lease exclusivity and fencing,
    monotone epochs, stable Raft numbers.
  \<^item> \<^verbatim>\<open>RaftStore\<close> (\<^verbatim>\<open>store.rs\<close>, \<^verbatim>\<open>persistent_store.rs\<close> of \<^verbatim>\<open>blockyard-raft\<close>): the log refines a partial map;
    replay after a stop and transfer of a snapshot give the state of an uninterrupted run.
  \<^item> \<^verbatim>\<open>Disk\<close> (\<^verbatim>\<open>disk.rs\<close>, \<^verbatim>\<open>health.rs\<close>, \<^verbatim>\<open>region.rs\<close> of \<^verbatim>\<open>blockyard-storage\<close>): service of a disk only declines and
    quarantined regions stay so.
  \<^item> \<^verbatim>\<open>Extent\<close> (\<^verbatim>\<open>extent.rs\<close>): staging, the commit sequence with a stop after any of its steps, verified
    reads, recovery of the index; contract \<^verbatim>\<open>extent_storage\<close>.
  \<^item> \<^verbatim>\<open>DataNode\<close> (\<^verbatim>\<open>service.rs\<close>): the whole write and read handlers with the durable operation log; what a
    success means, what a failure leaves, retries, fencing.
  \<^item> \<^verbatim>\<open>Failure\<close> (\<^verbatim>\<open>failure.rs\<close>): failed disks, and start-up recovery of all disks with I/O faults.
  \<^item> \<^verbatim>\<open>Background\<close>, \<^verbatim>\<open>BackgroundProps\<close> (\<^verbatim>\<open>background/*.rs\<close>): the token bucket, also step by step under
    contention, and the passes of the workers; contract \<^verbatim>\<open>repair_storage\<close>.
  \<^item> \<^verbatim>\<open>Protocol\<close> (\<^verbatim>\<open>blockyard-protocol/src\<close> and the framing of \<^verbatim>\<open>tcp_client.rs\<close>): handshake, frames, connection
    loop; a connection refines direct calls of the handler.
  \<^item> \<^verbatim>\<open>Placement\<close> (\<^verbatim>\<open>placement.rs\<close> of \<^verbatim>\<open>blockyard-common\<close> and of \<^verbatim>\<open>blockyard-storage\<close>): rendezvous hashing and the
    spread of a volume over nodes.
  \<^item> \<^verbatim>\<open>ClientState\<close> (ten files of \<^verbatim>\<open>blockyard-ublk/src\<close>): what a mounted volume keeps; the watermark also as
    interleaved steps of threads.
  \<^item> \<^verbatim>\<open>WritePath\<close> (\<^verbatim>\<open>write_pipeline.rs\<close>, \<^verbatim>\<open>ec_write_pipeline.rs\<close>) over the contract \<^verbatim>\<open>write_plane\<close>; \<^verbatim>\<open>BlockDevice\<close>
    and \<^verbatim>\<open>DeviceIo\<close> (\<^verbatim>\<open>block_handler.rs\<close>, \<^verbatim>\<open>ublk.rs\<close>) over its extension \<^verbatim>\<open>data_plane\<close>: definitions, and what
    is shown of the loops over extents and blocks.
  \<^item> \<^verbatim>\<open>Cluster\<close> (\<^verbatim>\<open>tcp_client.rs\<close>, the handler in \<^verbatim>\<open>blockyard/src/node.rs\<close>): the TCP calls of a client to data
    nodes keep \<^verbatim>\<open>data_plane\<close> (interpretation \<^verbatim>\<open>tcp\<close>), so the theorems about device and pipelines hold end
    to end: write and read back, durability of a committed write, survival of one lost node.
  \<^item> \<^verbatim>\<open>Gossip\<close> (\<^verbatim>\<open>blockyard-gossip/src\<close>): services and datagrams as a step relation; convergence of views
    (contract \<^verbatim>\<open>merge_table\<close>), causes and permanence of suspicion, the list served, joining.

  \<^bold>\<open>How the proofs are layered.\<close> The client's theorems are proved once in the locales of the contracts;
  each contract is interpreted on the definitions that provide it: \<^verbatim>\<open>disk_store\<close> on the extent store,
  \<^verbatim>\<open>tcp\<close> on client and data nodes, \<^verbatim>\<open>gossip\<close> on the merge of updates, \<^verbatim>\<open>node_stores\<close> on the stores of a node
  (the source has no implementation of the traits of the repair worker), and the machine contracts on the
  metadata requests, the log entries and the inventory commands.

  \<^bold>\<open>Bounds and termination.\<close> Loops are structural recursions, with these exceptions. The write loop of
  the device, which never ends when the start of the next extent wraps around, takes as fuel the number of
  blocks of the request, and running out is \<^const>\<open>None\<close>: every round that does not wrap advances by at
  least one block, and \<^verbatim>\<open>handle_io_returns\<close> shows that the request is then answered. The connection loop
  ends because each request consumes input, the repair loop because each round shortens the queue. Waiting
  for tokens takes the number of polls as an argument; \<^verbatim>\<open>acquire_returns\<close> shows that \<^verbatim>\<open>enough_polls\<close>
  suffice on a bucket that can hold what is asked for, \<^verbatim>\<open>acquire_beyond_capacity\<close> that otherwise none do.
  Counters are 64 bits wide, so facts that need fresh numbers speak of histories shorter than \<^verbatim>\<open>2 ^ 64\<close>
  commands.

  \<^bold>\<open>Atomicity.\<close> A handler of a data node, of the metadata state machine and of the gossip service is one
  step; interleavings are modelled for the watermark, the token bucket, the probe cycle of gossip, and
  between handlers. A call over TCP always comes to an end in the model, with a reply or an error, and a
  request whose reply is lost has been processed by the time the client retries it; a request that is still being
  processed then is not represented. Calls of one write to several nodes are made in any order given by
  the environment.

  \<^bold>\<open>Not modelled.\<close> The Raft protocol itself (the library openraft) and its transport; the HTTP interface and
  the metadata client, whose answers are arguments; the command line, configuration, metrics and the test
  harness; the read pipelines of \<^verbatim>\<open>blockyard-client\<close>, of which the block device uses the trait of a reader only; sockets; the
  creation of the kernel device; the loops that only repeat a background pass after a sleep.
\<close>

end
